(* ===== verification/Prelude.thy ===== *)
theory Prelude
  imports Main "HOL-Library.Word" "HOL-Library.AList" "HOL-Library.Sublist"
begin

text \<open>
  Shared vocabulary of the development.

  \<^item> Go's \<^verbatim>\<open>uint64\<close> (terms, versions, shard map versions) is a 64-bit word: \<open>+\<close> wraps as in Go.
  \<^item> A Go map is an association list without repeated keys (\<open>gm_wf\<close>).  Its order stands for the
    unspecified order in which \<^verbatim>\<open>range\<close> visits the entries; theorems quantify over the list and so
    over every visiting order.  \<open>map_of\<close> is its meaning.
  \<^item> \<^verbatim>\<open>time.Time\<close> is the number of nanoseconds since Go's zero time, so \<^verbatim>\<open>IsZero\<close> is \<open>t = 0\<close>;
    \<^verbatim>\<open>time.Duration\<close> is a number of nanoseconds, and \<^verbatim>\<open>Sub\<close> saturates at the 64-bit range.
  \<^item> A function that returns an error in Go returns a value of a sum type, \<open>Inl\<close> for the error.
\<close>

named_theorems gomap_simps "rewrite rules for Go maps"
named_theorems uint64_simps "successor and order facts for 64-bit counters"

type_synonym uint64 = "64 word"
type_synonym ('k, 'v) gomap = "('k \<times> 'v) list"
type_synonym gotime = int
type_synonym duration = int

section \<open>Go maps\<close>

abbreviation gm_get :: "('k, 'v) gomap \<Rightarrow> 'k \<Rightarrow> 'v option" where
  "gm_get m k \<equiv> map_of m k"

abbreviation gm_put :: "'k \<Rightarrow> 'v \<Rightarrow> ('k, 'v) gomap \<Rightarrow> ('k, 'v) gomap" where
  "gm_put k v m \<equiv> AList.update k v m"

abbreviation gm_del :: "'k \<Rightarrow> ('k, 'v) gomap \<Rightarrow> ('k, 'v) gomap" where
  "gm_del k m \<equiv> AList.delete k m"

definition gm_wf :: "('k, 'v) gomap \<Rightarrow> bool" where
  "gm_wf m \<longleftrightarrow> distinct (map fst m)"

text \<open>The loop \<^verbatim>\<open>for k, v := range m { dst[k] = v }\<close>, and a copy of a map made with it.\<close>

definition gm_into :: "('k, 'v) gomap \<Rightarrow> ('k, 'v) gomap \<Rightarrow> ('k, 'v) gomap" where
  "gm_into dst m = fold (\<lambda>(k, v) d. gm_put k v d) m dst"

abbreviation gm_copy :: "('k, 'v) gomap \<Rightarrow> ('k, 'v) gomap" where
  "gm_copy m \<equiv> gm_into [] m"

text \<open>\<open>gm_or0\<close> is an index expression on a map of counters: a missing key reads as zero.\<close>

definition gm_or0 :: "('k, 'v::zero) gomap \<Rightarrow> 'k \<Rightarrow> 'v" where
  "gm_or0 m k = (case gm_get m k of None \<Rightarrow> 0 | Some v \<Rightarrow> v)"

section \<open>Slices, times and durations\<close>

text \<open>Go's \<^verbatim>\<open>copy(dst, src)\<close>: the shorter of the two lengths is overwritten.\<close>

definition go_copy :: "'a list \<Rightarrow> 'a list \<Rightarrow> 'a list" where
  "go_copy dst src = take (min (length dst) (length src)) src @ drop (min (length dst) (length src)) dst"

definition time_sub :: "gotime \<Rightarrow> gotime \<Rightarrow> duration" where
  "time_sub a b = max (- (2 ^ 63)) (min (2 ^ 63 - 1) (a - b))"

abbreviation is_zero_time :: "gotime \<Rightarrow> bool" where
  "is_zero_time t \<equiv> t = 0"

section \<open>Lemmas on maps\<close>

lemma gm_wf_Nil [simp]: "gm_wf []"
  by (simp add: gm_wf_def)

lemma gm_wf_put [simp]: "gm_wf m \<Longrightarrow> gm_wf (gm_put k v m)"
  by (simp add: gm_wf_def distinct_update)

lemma gm_wf_del [simp]: "gm_wf m \<Longrightarrow> gm_wf (gm_del k m)"
  by (simp add: gm_wf_def distinct_delete)

lemma map_of_gm_put [gomap_simps]: "map_of (gm_put k v m) = (map_of m)(k \<mapsto> v)"
  by (simp add: update_conv')

lemma map_of_gm_del [gomap_simps]: "map_of (gm_del k m) = (map_of m)(k := None)"
  by (simp add: delete_conv')

lemma gm_wf_into [simp]: "gm_wf d \<Longrightarrow> gm_wf (gm_into d m)"
  unfolding gm_into_def by (induction m arbitrary: d) (auto simp: split_def)

lemma gm_into_Nil [simp]: "gm_into d [] = d"
  by (simp add: gm_into_def)

lemma gm_put_new: "k \<notin> fst ` set m \<Longrightarrow> gm_put k v m = m @ [(k, v)]"
  by (induction m) auto

lemma gm_into_fresh:
  "gm_wf m \<Longrightarrow> fst ` set m \<inter> fst ` set d = {} \<Longrightarrow> gm_into d m = d @ m"
proof (induction m arbitrary: d)
  case (Cons x m)
  obtain k v where x: "x = (k, v)" by fastforce
  have "gm_put k v d = d @ [(k, v)]" using Cons.prems x by (intro gm_put_new) auto
  with Cons x show ?case by (auto simp: gm_into_def gm_wf_def)
qed (simp add: gm_into_def)

lemma gm_copy_id [simp]: "gm_wf m \<Longrightarrow> gm_copy m = m"
  by (simp add: gm_into_fresh)

lemma gm_wf_card: "gm_wf m \<Longrightarrow> card (dom (map_of m)) = length m"
  unfolding gm_wf_def by (simp add: dom_map_of_conv_image_fst card_image distinct_map)
    (metis distinct_card length_map list.set_map)

lemma go_copy_shift: "xs \<noteq> [] \<Longrightarrow> butlast (go_copy xs (tl xs)) = tl xs"
  by (cases xs rule: rev_cases) (auto simp: go_copy_def butlast_append tl_append split: list.splits)

section \<open>Lemmas on 64-bit counters\<close>

lemma uint64_succ_neq0_iff [uint64_simps]: "(v + 1 \<noteq> (0::uint64)) \<longleftrightarrow> v \<noteq> - 1"
  by (metis add.commute add_eq_0_iff minus_minus neg_eq_iff_add_eq_0)

lemma uint64_unat_succ [uint64_simps]: "v + 1 \<noteq> (0::uint64) \<Longrightarrow> unat (v + 1) = Suc (unat v)"
  by (metis add.commute unatSuc)

lemma uint64_less_succ [uint64_simps]: "v + 1 \<noteq> (0::uint64) \<Longrightarrow> v < v + 1"
  by (simp add: word_less_nat_alt uint64_unat_succ)

lemma uint64_succ_le_iff: "v + 1 \<noteq> (0::uint64) \<Longrightarrow> v + 1 \<le> w \<longleftrightarrow> v < w"
  by (simp add: word_less_nat_alt word_le_nat_alt uint64_unat_succ Suc_le_eq)

lemma uint64_less_no_wrap: "v < (w::uint64) \<Longrightarrow> v + 1 \<noteq> 0"
  by (metis uint64_succ_neq0_iff word_order.extremum_strict)

end
