(* ===== verification/ReplicationLog.thy ===== *)
theory ReplicationLog
  imports Prelude
begin

text \<open>
  The bounded in-memory replication log, \<^verbatim>\<open>internal/replicationlog/replicationlog.go\<close>.
  \<open>rlog\<close> is the struct \<^verbatim>\<open>Log\<close> (its mutex makes every method atomic and is not modelled);
  \<open>rlog_Append\<close>, \<open>rlog_Since\<close>, \<open>rlog_Len\<close>, \<open>rlog_Reset\<close> and \<open>rlog_OldestVersion\<close> are its methods.

  The contract is stated against the history of a replica: the list of all entries applied since
  some base version, with consecutive versions (\<open>consecutive\<close>).  A log represents a history when it
  holds one of its suffixes.  The locale \<open>bounded_log\<close> is the interface that the state machine
  relies on.
\<close>

record entry =
  eTerm :: uint64
  eVersion :: uint64
  eOp :: string
  eKey :: string
  eValue :: string

record rlog =
  entries :: "entry list"
  maxSize :: int

definition rlog_New :: "int \<Rightarrow> rlog" where
  "rlog_New n = \<lparr>entries = [], maxSize = (if n \<le> 0 then 1000 else n)\<rparr>"

definition rlog_Append :: "rlog \<Rightarrow> entry \<Rightarrow> rlog" where
  "rlog_Append l e =
     (let es = (if maxSize l \<le> int (length (entries l))
                then butlast (go_copy (entries l) (tl (entries l)))
                else entries l)
      in l\<lparr>entries := es @ [e]\<rparr>)"

definition rlog_Since :: "rlog \<Rightarrow> uint64 \<Rightarrow> entry list \<times> bool" where
  "rlog_Since l sinceVersion =
     (case entries l of
        [] \<Rightarrow> ([], True)
      | oldest # _ \<Rightarrow>
          if sinceVersion + 1 < eVersion oldest then ([], False)
          else (filter (\<lambda>e. sinceVersion < eVersion e) (entries l), True))"

definition rlog_Len :: "rlog \<Rightarrow> int" where
  "rlog_Len l = int (length (entries l))"

definition rlog_Reset :: "rlog \<Rightarrow> rlog" where
  "rlog_Reset l = l\<lparr>entries := []\<rparr>"

definition rlog_OldestVersion :: "rlog \<Rightarrow> uint64" where
  "rlog_OldestVersion l = (case entries l of [] \<Rightarrow> 0 | e # _ \<Rightarrow> eVersion e)"

section \<open>Histories\<close>

text \<open>\<open>consecutive b h\<close>: the entries of \<open>h\<close> carry the versions \<open>b + 1, b + 2, \<dots>\<close>, none wrapped.\<close>

definition consecutive :: "uint64 \<Rightarrow> entry list \<Rightarrow> bool" where
  "consecutive b h \<longleftrightarrow> map (unat \<circ> eVersion) h = [Suc (unat b) ..< Suc (unat b + length h)]"

text \<open>\<open>rlog_rep h l\<close>: the log holds a suffix of the history \<open>h\<close> and respects its bound.\<close>

definition rlog_rep :: "entry list \<Rightarrow> rlog \<Rightarrow> bool" where
  "rlog_rep h l \<longleftrightarrow> suffix (entries l) h \<and> 0 < maxSize l \<and> int (length (entries l)) \<le> maxSize l"

locale bounded_log =
  fixes rep :: "entry list \<Rightarrow> 'l \<Rightarrow> bool"
    and new :: "int \<Rightarrow> 'l"
    and append :: "'l \<Rightarrow> entry \<Rightarrow> 'l"
    and reset :: "'l \<Rightarrow> 'l"
    and since :: "'l \<Rightarrow> uint64 \<Rightarrow> entry list \<times> bool"
  assumes rep_new: "rep [] (new n)"
    and rep_append: "rep h l \<Longrightarrow> rep (h @ [e]) (append l e)"
    and rep_reset: "rep h l \<Longrightarrow> rep h (reset l)"
    and since_exact: "\<lbrakk>rep h l; consecutive b h; unat b \<le> unat s; unat s < unat b + length h;
        since l s = (es, True); es \<noteq> []\<rbrakk> \<Longrightarrow> es = drop (unat s - unat b) h"
begin

text \<open>A follower that holds the history up to \<open>s\<close> and applies the returned entries holds all of it.\<close>

lemma catch_up:
  "\<lbrakk>rep h l; consecutive b h; unat b \<le> unat s; unat s < unat b + length h;
    since l s = (es, True); es \<noteq> []\<rbrakk> \<Longrightarrow> take (unat s - unat b) h @ es = h"
  by (frule (5) since_exact) (simp only: append_take_drop_id)

end

section \<open>Properties of the log\<close>

lemma consecutive_Nil [simp]: "consecutive b []"
  by (simp add: consecutive_def)

lemma consecutive_snoc:
  "consecutive b (h @ [e]) \<longleftrightarrow> consecutive b h \<and> unat (eVersion e) = Suc (unat b + length h)"
  by (simp add: consecutive_def)

lemma consecutive_append:
  "consecutive b (p @ q) \<longleftrightarrow> consecutive b p \<and>
     map (unat \<circ> eVersion) q = [Suc (unat b + length p) ..< Suc (unat b + length p) + length q]"
proof -
  have "[Suc (unat b) ..< Suc (unat b + length (p @ q))] =
      [Suc (unat b) ..< Suc (unat b + length p)] @
      [Suc (unat b + length p) ..< Suc (unat b + length p) + length q]"
    using upt_add_eq_append [of "Suc (unat b)" "Suc (unat b + length p)" "length q"]
    by (simp add: add.assoc del: upt_Suc)
  then show ?thesis
    unfolding consecutive_def by (simp del: upt_Suc)
qed

lemma consecutive_nth:
  "consecutive b h \<Longrightarrow> i < length h \<Longrightarrow> unat (eVersion (h ! i)) = Suc (unat b + i)"
  unfolding consecutive_def by (metis (no_types, lifting) add_Suc add_diff_cancel_left' comp_apply
      length_map nth_map nth_upt nat_add_left_cancel_less)

lemma rlog_Append_entries:
  "0 < maxSize l \<Longrightarrow>
   entries (rlog_Append l e) =
     (if maxSize l \<le> int (length (entries l)) then tl (entries l) else entries l) @ [e]"
  by (cases "entries l = []") (auto simp: rlog_Append_def Let_def go_copy_shift)

lemma rlog_Append_maxSize [simp]: "maxSize (rlog_Append l e) = maxSize l"
  by (simp add: rlog_Append_def Let_def)

lemma rlog_rep_append: "rlog_rep h l \<Longrightarrow> rlog_rep (h @ [e]) (rlog_Append l e)"
proof -
  assume r: "rlog_rep h l"
  then have m: "0 < maxSize l" by (simp add: rlog_rep_def)
  have "suffix (tl (entries l)) h" "suffix (entries l) h"
    using r by (auto simp: rlog_rep_def intro: suffix_order.trans suffix_tl)
  then show ?thesis
    using r m by (auto simp: rlog_rep_def rlog_Append_entries rlog_Append_maxSize)
qed

lemma rlog_rep_reset: "rlog_rep h l \<Longrightarrow> rlog_rep h (rlog_Reset l)"
  by (simp add: rlog_rep_def rlog_Reset_def)

lemma rlog_rep_new: "rlog_rep [] (rlog_New n)"
  by (simp add: rlog_rep_def rlog_New_def)

lemma filter_above_drop:
  "map f xs = [a ..< a + length xs] \<Longrightarrow> filter (\<lambda>x. s < f x) xs = drop (Suc s - a) xs"
proof (induction xs arbitrary: a)
  case (Cons x xs)
  then have x: "f x = a" and xs: "map f xs = [Suc a ..< Suc a + length xs]"
    by (auto simp: upt_conv_Cons simp del: upt_Suc)
  show ?case
    using Cons.IH [OF xs] x by (cases "s < a") (auto simp: Suc_diff_le)
qed simp

lemma rlog_Since_drop:
  assumes rep: "rlog_rep h l" and con: "consecutive b h"
    and s: "unat b \<le> unat s" "unat s < unat b + length h"
    and ok: "rlog_Since l s = (es, True)" and ne: "entries l \<noteq> []"
  shows "es = drop (unat s - unat b) h"
proof -
  from rep obtain p where h: "h = p @ entries l"
    by (auto simp: rlog_rep_def suffix_def)
  have vs: "map (unat \<circ> eVersion) (entries l)
      = [Suc (unat b + length p) ..< Suc (unat b + length p) + length (entries l)]"
    using con by (simp add: h consecutive_append)
  have hd: "unat (eVersion (hd (entries l))) = Suc (unat b + length p)"
    using consecutive_nth [OF con, of "length p"] ne by (simp add: h nth_append hd_conv_nth)
  have "s < eVersion (last h)"
    using consecutive_nth [OF con, of "length h - 1"] s ne
    by (auto simp: word_less_nat_alt h last_conv_nth)
  then have nw: "unat (s + 1) = Suc (unat s)"
    by (intro uint64_unat_succ uint64_less_no_wrap)
  have le: "length p \<le> unat s - unat b"
    and es: "es = filter (\<lambda>e. unat s < (unat \<circ> eVersion) e) (entries l)"
    using ok ne hd nw s by (auto simp: rlog_Since_def word_less_nat_alt split: list.splits if_splits)
  show ?thesis
    unfolding es filter_above_drop [OF vs] using le s by (simp add: h)
qed

interpretation lq: bounded_log rlog_rep rlog_New rlog_Append rlog_Reset rlog_Since
proof unfold_locales
  fix h l b s es
  assume *: "rlog_rep h l" "consecutive b h" "unat b \<le> unat s" "unat s < unat b + length h"
    "rlog_Since l s = (es, True)" "es \<noteq> []"
  then have "entries l \<noteq> []" by (auto simp: rlog_Since_def)
  with * show "es = drop (unat s - unat b) h" by (blast intro: rlog_Since_drop)
qed (simp_all add: rlog_rep_new rlog_rep_append rlog_rep_reset)

text \<open>
  Property C22.  Incremental recovery is exact: when the log answers with entries for a follower
  at version \<open>s\<close>, the answer is precisely the part of the replica's history after \<open>s\<close>, whatever was
  evicted or reset before.
\<close>

theorem Since_exact:
  assumes "rlog_rep h l" and "consecutive b h"
    and "unat b \<le> unat s" and "unat s < unat b + length h"
    and "rlog_Since l s = (es, True)" and "es \<noteq> []"
  shows "es = drop (unat s - unat b) h"
  using assms by (rule lq.since_exact)

theorem Since_exact_witness:
  "let e = (\<lambda>n. \<lparr>eTerm = 1, eVersion = n, eOp = ''put'', eKey = ''k'', eValue = ''v''\<rparr>);
       l = rlog_Append (rlog_Append (rlog_Append (rlog_New 2) (e 1)) (e 2)) (e 3)
   in rlog_Since l 1 = ([e 2, e 3], True) \<and> [e 2, e 3] = drop (unat (1::uint64) - unat (0::uint64)) [e 1, e 2, e 3]"
proof -
  let ?e = "\<lambda>n. \<lparr>eTerm = 1, eVersion = n, eOp = ''put'', eKey = ''k'', eValue = ''v''\<rparr>"
  let ?l = "rlog_Append (rlog_Append (rlog_Append (rlog_New 2) (?e 1)) (?e 2)) (?e 3)"
  have rep: "rlog_rep ([] @ [?e 1] @ [?e 2] @ [?e 3]) ?l"
    using lq.rep_append [OF lq.rep_append [OF lq.rep_append [OF lq.rep_new]]] by simp
  have con: "consecutive 0 ([] @ [?e 1] @ [?e 2] @ [?e 3])"
    by (simp add: consecutive_def upt_rec)
  have since: "rlog_Since ?l 1 = ([?e 2, ?e 3], True)"
    by (simp add: rlog_Since_def rlog_Append_def rlog_New_def go_copy_def Let_def)
  show ?thesis
    using Since_exact [OF rep con _ _ since] since by (simp add: Let_def)
qed

end
