(* ===== verification/Storage.thy ===== *)
theory Storage
  imports Prelude
begin

text \<open>
  The key-value storage of a replica: the interface \<^verbatim>\<open>storage.Storage\<close>
  (\<^verbatim>\<open>internal/storage/storage.go\<close>) as the locale \<open>kv_storage\<close>, and its in-memory implementation
  (\<^verbatim>\<open>internal/storage/memory/memory.go\<close>), which interprets it.  The mutex of \<^verbatim>\<open>Store\<close> makes every method
  atomic.  The data field of a store is a non-nil map: every snapshot handed to \<^verbatim>\<open>ApplySnapshot\<close> by the
  program is made with \<^verbatim>\<open>make\<close> or a map literal.
\<close>

record store =
  sdata :: "(string, string) gomap"

definition mem_New :: store where
  "mem_New = \<lparr>sdata = []\<rparr>"

definition mem_Get :: "store \<Rightarrow> string \<Rightarrow> string \<times> bool" where
  "mem_Get s key = (case gm_get (sdata s) key of None \<Rightarrow> ([], False) | Some v \<Rightarrow> (v, True))"

definition mem_Put :: "store \<Rightarrow> string \<Rightarrow> string \<Rightarrow> store" where
  "mem_Put s key v = s\<lparr>sdata := gm_put key v (sdata s)\<rparr>"

definition mem_Delete :: "store \<Rightarrow> string \<Rightarrow> store" where
  "mem_Delete s key = s\<lparr>sdata := gm_del key (sdata s)\<rparr>"

definition mem_Snapshot :: "store \<Rightarrow> (string, string) gomap" where
  "mem_Snapshot s = gm_copy (sdata s)"

definition mem_ApplySnapshot :: "store \<Rightarrow> (string, string) gomap \<Rightarrow> store" where
  "mem_ApplySnapshot s snap = s\<lparr>sdata := snap\<rparr>"

definition mem_Size :: "store \<Rightarrow> int" where
  "mem_Size s = int (length (sdata s))"

section \<open>The storage contract\<close>

text \<open>
  The abstract state of a storage is a finite map \<open>abs s\<close>; \<open>wf\<close> is the invariant of the
  implementation.  A snapshot is a well-formed Go map with the same meaning.
\<close>

locale kv_storage =
  fixes wf :: "'s \<Rightarrow> bool"
    and abs :: "'s \<Rightarrow> string \<Rightarrow> string option"
    and new :: 's
    and get :: "'s \<Rightarrow> string \<Rightarrow> string \<times> bool"
    and put :: "'s \<Rightarrow> string \<Rightarrow> string \<Rightarrow> 's"
    and delete :: "'s \<Rightarrow> string \<Rightarrow> 's"
    and snapshot :: "'s \<Rightarrow> (string, string) gomap"
    and apply_snapshot :: "'s \<Rightarrow> (string, string) gomap \<Rightarrow> 's"
    and size :: "'s \<Rightarrow> int"
  assumes new: "wf new \<and> abs new = Map.empty"
    and get: "get s k = (case abs s k of None \<Rightarrow> ([], False) | Some v \<Rightarrow> (v, True))"
    and put: "wf s \<Longrightarrow> wf (put s k v) \<and> abs (put s k v) = (abs s)(k \<mapsto> v)"
    and delete: "wf s \<Longrightarrow> wf (delete s k) \<and> abs (delete s k) = (abs s)(k := None)"
    and snapshot: "wf s \<Longrightarrow> gm_wf (snapshot s) \<and> map_of (snapshot s) = abs s"
    and apply_snapshot: "gm_wf m \<Longrightarrow> wf (apply_snapshot s m) \<and> abs (apply_snapshot s m) = map_of m"
    and size: "wf s \<Longrightarrow> size s = int (card (dom (abs s)))"
begin

text \<open>Transferring a snapshot makes two storages agree on every later read.\<close>

lemma transfer:
  "wf s \<Longrightarrow> get (apply_snapshot s' (snapshot s)) k = get s k \<and> size (apply_snapshot s' (snapshot s)) = size s"
  using snapshot [of s] apply_snapshot [of "snapshot s" s'] by (simp add: get size)

lemma get_put: "wf s \<Longrightarrow> get (put s k v) k' = (if k' = k then (v, True) else get s k')"
  using put [of s k v] by (simp add: get)

lemma get_delete: "wf s \<Longrightarrow> get (delete s k) k' = (if k' = k then ([], False) else get s k')"
  using delete [of s k] by (simp add: get)

end

definition mem_wf :: "store \<Rightarrow> bool" where
  "mem_wf s \<longleftrightarrow> gm_wf (sdata s)"

definition mem_abs :: "store \<Rightarrow> string \<Rightarrow> string option" where
  "mem_abs s = map_of (sdata s)"

interpretation st: kv_storage mem_wf mem_abs mem_New mem_Get mem_Put mem_Delete mem_Snapshot
    mem_ApplySnapshot mem_Size
  by unfold_locales
    (simp_all add: mem_wf_def mem_abs_def mem_New_def mem_Get_def mem_Put_def mem_Delete_def
      mem_Snapshot_def mem_ApplySnapshot_def mem_Size_def gomap_simps gm_wf_card)

end
