(* ===== verification/GoText.thy ===== *)
theory GoText
  imports Prelude "HOL-Library.List_Lexorder" "HOL-Library.Char_ord"
begin

text \<open>
  The parts of Go's standard library that turn values into text and back: decimal integers
  (\<^verbatim>\<open>strconv\<close>), UTF-8 and JSON string literals (\<^verbatim>\<open>unicode/utf8\<close>, \<^verbatim>\<open>encoding/json\<close>).  A Go string is
  a sequence of bytes, an Isabelle \<open>string\<close> is a sequence of 8-bit characters.

  \<^item> \<open>dec\<close> and \<open>dec_val\<close>: decimal digits of a natural number and back.
  \<^item> \<open>utf8_len\<close>: the number of bytes of the well-formed UTF-8 sequence a string starts with, 0 if
    there is none; \<open>utf8_coerce\<close> replaces every byte that starts none by U+FFFD.
  \<^item> \<open>json_esc\<close>: the body of a string literal as \<^verbatim>\<open>json.Marshal\<close> and \<^verbatim>\<open>json.Encoder\<close> write it (with HTML
    escaping, their default); \<open>json_str\<close>: reading such a body up to its closing quote.

  The round trip \<open>json_str_esc\<close> shows that a string survives the file formats up to \<open>utf8_coerce\<close>.
\<close>

section \<open>Decimal numbers\<close>

definition digit :: "nat \<Rightarrow> char" where
  "digit d = char_of (48 + d)"

definition is_dec_digit :: "char \<Rightarrow> bool" where
  "is_dec_digit c \<longleftrightarrow> 48 \<le> (of_char c :: nat) \<and> (of_char c :: nat) \<le> 57"

fun dec :: "nat \<Rightarrow> string" where
  "dec n = (if n < 10 then [digit n] else dec (n div 10) @ [digit (n mod 10)])"

fun dec_val :: "nat \<Rightarrow> string \<Rightarrow> nat option" where
  "dec_val a [] = Some a"
| "dec_val a (c # cs) = (if is_dec_digit c then dec_val (10 * a + (of_char c - 48)) cs else None)"

section \<open>UTF-8\<close>

definition cont_byte :: "nat \<Rightarrow> nat \<Rightarrow> char \<Rightarrow> bool" where
  "cont_byte lo hi c \<longleftrightarrow> lo \<le> (of_char c :: nat) \<and> (of_char c :: nat) \<le> hi"

text \<open>The table of \<^verbatim>\<open>unicode/utf8\<close>: the length given by the first byte and the range of the second.\<close>

definition utf8_first :: "char \<Rightarrow> nat \<times> nat \<times> nat" where
  "utf8_first c =
     (let n = (of_char c :: nat) in
      if n < 0x80 then (1, 0, 0)
      else if n < 0xC2 then (0, 0, 0)
      else if n < 0xE0 then (2, 0x80, 0xBF)
      else if n = 0xE0 then (3, 0xA0, 0xBF)
      else if n = 0xED then (3, 0x80, 0x9F)
      else if n < 0xF0 then (3, 0x80, 0xBF)
      else if n = 0xF0 then (4, 0x90, 0xBF)
      else if n < 0xF4 then (4, 0x80, 0xBF)
      else if n = 0xF4 then (4, 0x80, 0x8F)
      else (0, 0, 0))"

definition utf8_len :: "string \<Rightarrow> nat" where
  "utf8_len s = (case s of [] \<Rightarrow> 0 | c # cs \<Rightarrow>
     (case utf8_first c of (n, lo, hi) \<Rightarrow>
        if n \<le> 1 then n
        else if n - 1 \<le> length cs \<and> cont_byte lo hi (cs ! 0)
                \<and> list_all (cont_byte 0x80 0xBF) (take (n - 2) (tl cs)) then n
        else 0))"

abbreviation replacement :: string where
  "replacement \<equiv> [CHR 0xEF, CHR 0xBF, CHR 0xBD]"

function utf8_coerce :: "string \<Rightarrow> string" where
  "utf8_coerce s =
     (if s = [] then []
      else if utf8_len s = 0 then replacement @ utf8_coerce (tl s)
      else take (utf8_len s) s @ utf8_coerce (drop (utf8_len s) s))"
  by pat_completeness auto
termination
  by (relation "measure length") auto

definition utf8_valid :: "string \<Rightarrow> bool" where
  "utf8_valid s \<longleftrightarrow> utf8_coerce s = s"

section \<open>JSON string literals\<close>

abbreviation bslash :: char where "bslash \<equiv> CHR 0x5C"
abbreviation dquote :: char where "dquote \<equiv> CHR 0x22"

definition hexdigit :: "nat \<Rightarrow> char" where
  "hexdigit d = (if d < 10 then char_of (48 + d) else char_of (87 + d))"

definition hexval :: "char \<Rightarrow> nat option" where
  "hexval c = (let n = (of_char c :: nat) in
     if 48 \<le> n \<and> n \<le> 57 then Some (n - 48)
     else if 97 \<le> n \<and> n \<le> 102 then Some (n - 87)
     else if 65 \<le> n \<and> n \<le> 70 then Some (n - 55)
     else None)"

text \<open>One ASCII byte of \<^verbatim>\<open>appendString\<close>, with HTML escaping.\<close>

definition esc_ascii :: "char \<Rightarrow> string" where
  "esc_ascii c =
     (let n = (of_char c :: nat) in
      if c = bslash \<or> c = dquote then [bslash, c]
      else if n = 8 then [bslash, CHR ''b'']
      else if n = 12 then [bslash, CHR ''f'']
      else if n = 10 then [bslash, CHR ''n'']
      else if n = 13 then [bslash, CHR ''r'']
      else if n = 9 then [bslash, CHR ''t'']
      else if n < 0x20 \<or> c = CHR ''<'' \<or> c = CHR ''>'' \<or> c = CHR ''&''
        then [bslash, CHR ''u'', CHR ''0'', CHR ''0'', hexdigit (n div 16), hexdigit (n mod 16)]
      else [c])"

text \<open>One multi-byte sequence: U+2028 and U+2029 are escaped, the others are copied.\<close>

definition esc_multi :: "string \<Rightarrow> string" where
  "esc_multi u =
     (if u = [CHR 0xE2, CHR 0x80, CHR 0xA8] then bslash # ''u2028''
      else if u = [CHR 0xE2, CHR 0x80, CHR 0xA9] then bslash # ''u2029''
      else u)"

function json_esc :: "string \<Rightarrow> string" where
  "json_esc s =
     (if s = [] then []
      else if utf8_len s = 0 then (bslash # ''ufffd'') @ json_esc (tl s)
      else if utf8_len s = 1 then esc_ascii (hd s) @ json_esc (tl s)
      else esc_multi (take (utf8_len s) s) @ json_esc (drop (utf8_len s) s))"
  by pat_completeness auto
termination
  by (relation "measure length") auto

text \<open>\<^verbatim>\<open>utf8.EncodeRune\<close> for a code point that is not a surrogate and at most U+10FFFF.\<close>

definition encode_rune :: "nat \<Rightarrow> string" where
  "encode_rune r =
     (if r < 0x80 then [char_of r]
      else if r < 0x800 then [char_of (0xC0 + r div 0x40), char_of (0x80 + r mod 0x40)]
      else if 0xD800 \<le> r \<and> r < 0xE000 then replacement
      else if r < 0x10000 then
        [char_of (0xE0 + r div 0x1000), char_of (0x80 + (r div 0x40) mod 0x40), char_of (0x80 + r mod 0x40)]
      else if r \<le> 0x10FFFF then
        [char_of (0xF0 + r div 0x40000), char_of (0x80 + (r div 0x1000) mod 0x40),
         char_of (0x80 + (r div 0x40) mod 0x40), char_of (0x80 + r mod 0x40)]
      else replacement)"

text \<open>The four hexadecimal digits after \<^verbatim>\<open>\u\<close>.\<close>

definition getu4 :: "string \<Rightarrow> nat option" where
  "getu4 s = (case s of
      a # b # c # d # _ \<Rightarrow>
        (case (hexval a, hexval b, hexval c, hexval d) of
           (Some p, Some q, Some r, Some t) \<Rightarrow> Some (((p * 16 + q) * 16 + r) * 16 + t)
         | _ \<Rightarrow> None)
    | _ \<Rightarrow> None)"

text \<open>
  \<open>unescape s\<close> reads one escape sequence after its backslash: the bytes it stands for and how many
  bytes of \<open>s\<close> it takes.  A high surrogate followed by an escaped low one is one code point; any
  other surrogate is U+FFFD.
\<close>

definition unescape :: "string \<Rightarrow> (string \<times> nat) option" where
  "unescape s = (case s of [] \<Rightarrow> None | c # cs \<Rightarrow>
     if c = dquote \<or> c = bslash \<or> c = CHR ''/'' then Some ([c], 1)
     else if c = CHR ''b'' then Some ([CHR 0x08], 1)
     else if c = CHR ''f'' then Some ([CHR 0x0C], 1)
     else if c = CHR ''n'' then Some ([CHR 0x0A], 1)
     else if c = CHR ''r'' then Some ([CHR 0x0D], 1)
     else if c = CHR ''t'' then Some ([CHR 0x09], 1)
     else if c = CHR ''u'' then
       (case getu4 cs of None \<Rightarrow> None | Some rr \<Rightarrow>
          if 0xD800 \<le> rr \<and> rr < 0xE000 then
            (case drop 4 cs of
               b # u # rest \<Rightarrow>
                 (case (b = bslash \<and> u = CHR ''u'', getu4 rest) of
                    (True, Some r2) \<Rightarrow>
                      if rr < 0xDC00 \<and> 0xDC00 \<le> r2 \<and> r2 < 0xE000
                      then Some (encode_rune (0x10000 + (rr - 0xD800) * 0x400 + (r2 - 0xDC00)), 11)
                      else Some (replacement, 5)
                  | _ \<Rightarrow> Some (replacement, 5))
             | _ \<Rightarrow> Some (replacement, 5))
          else Some (encode_rune rr, 5))
     else None)"

text \<open>\<open>json_str s\<close>: the decoded string literal whose opening quote has been read, and what follows it.\<close>

function json_str :: "string \<Rightarrow> (string \<times> string) option" where
  "json_str s = (case s of [] \<Rightarrow> None | c # cs \<Rightarrow>
     if c = dquote then Some ([], cs)
     else if c = bslash then
       (case unescape cs of None \<Rightarrow> None | Some (u, n) \<Rightarrow> map_option (apfst ((@) u)) (json_str (drop n cs)))
     else if (of_char c :: nat) < 0x20 then None
     else if utf8_len s = 0 then map_option (apfst ((@) replacement)) (json_str cs)
     else map_option (apfst ((@) (take (utf8_len s) s))) (json_str (drop (utf8_len s - 1) cs)))"
  by pat_completeness auto
termination
  by (relation "measure length") auto

declare dec.simps [simp del] utf8_coerce.simps [simp del] json_esc.simps [simp del] json_str.simps [simp del]

section \<open>Decimal round trip\<close>

lemma of_char_digit [simp]: "d < 10 \<Longrightarrow> (of_char (digit d) :: nat) = 48 + d"
  by (simp add: digit_def)

lemma is_dec_digit_digit [simp]: "d < 10 \<Longrightarrow> is_dec_digit (digit d)"
  by (simp add: is_dec_digit_def)

lemma dec_not_Nil [simp]: "dec n \<noteq> []"
  by (subst dec.simps) simp

lemma dec_digits: "list_all is_dec_digit (dec n)"
proof (induction n rule: dec.induct)
  case (1 n)
  then show ?case by (subst dec.simps) simp
qed

lemma dec_val_append: "dec_val a (xs @ ys) = Option.bind (dec_val a xs) (\<lambda>b. dec_val b ys)"
  by (induction a xs rule: dec_val.induct) auto

lemma dec_val_dec_acc: "dec_val a (dec n) = Some (a * 10 ^ length (dec n) + n)"
proof (induction n arbitrary: a rule: dec.induct)
  case (1 n)
  show ?case
  proof (cases "n < 10")
    case True
    then show ?thesis by (subst (1 2) dec.simps) simp
  next
    case False
    then have "dec n = dec (n div 10) @ [digit (n mod 10)]" by (subst dec.simps) simp
    with 1 [OF False] show ?thesis by (simp add: dec_val_append algebra_simps)
  qed
qed

lemma dec_val_dec [simp]: "dec_val 0 (dec n) = Some n"
  by (simp add: dec_val_dec_acc)

lemma dec_inject [simp]: "dec m = dec n \<longleftrightarrow> m = n"
  by (metis dec_val_dec option.inject)

section \<open>JSON string round trip\<close>

lemma utf8_len_le: "utf8_len s \<le> length s"
  by (auto simp: utf8_len_def split: list.splits prod.splits)

lemma utf8_len_1: "utf8_len (c # cs) = 1 \<longleftrightarrow> (of_char c :: nat) < 0x80"
  by (auto simp: utf8_len_def utf8_first_def Let_def split: if_splits prod.splits)

lemma utf8_len_multi: "1 < utf8_len (c # cs) \<Longrightarrow> 0xC2 \<le> (of_char c :: nat)"
  by (auto simp: utf8_len_def utf8_first_def Let_def split: if_splits)

lemma utf8_len_prefix:
  assumes "1 < utf8_len s"
  shows "utf8_len (take (utf8_len s) s @ t) = utf8_len s"
proof -
  from assms obtain c cs where s: "s = c # cs" by (cases s) (auto simp: utf8_len_def)
  obtain n lo hi where f: "utf8_first c = (n, lo, hi)" by (cases "utf8_first c")
  have n: "utf8_len s = n" and l: "n - 1 \<le> length cs" "cont_byte lo hi (cs ! 0)" "1 < n"
    and a: "list_all (cont_byte 0x80 0xBF) (take (n - 2) (tl cs))"
    using assms by (auto simp: s utf8_len_def f split: if_splits)
  have "cs \<noteq> []" using l by auto
  then obtain d ds where cs: "cs = d # ds" by (cases cs) auto
  obtain m where m: "n = Suc (Suc m)" using less_imp_Suc_add [OF l(3)] by auto
  have "take (utf8_len s) s @ t = c # d # take m ds @ t" by (simp add: n m) (simp add: s cs)
  moreover have "utf8_len (c # d # take m ds @ t) = n"
    using l a by (simp add: utf8_len_def f m cs)
  ultimately show ?thesis by (simp only: n)
qed

lemma hexval_hexdigit [simp]: "k < 16 \<Longrightarrow> hexval (hexdigit k) = Some k"
  by (simp add: hexval_def hexdigit_def Let_def)

lemma json_str_plain:
  "\<lbrakk>c \<noteq> dquote; c \<noteq> bslash; 0x20 \<le> (of_char c :: nat); (of_char c :: nat) < 0x80\<rbrakk>
   \<Longrightarrow> json_str (c # t) = map_option (apfst ((@) [c])) (json_str t)"
  using utf8_len_1 [of c t] by (subst json_str.simps) simp

lemma json_str_escape:
  "unescape cs = Some (u, n) \<Longrightarrow>
   json_str (bslash # cs) = map_option (apfst ((@) u)) (json_str (drop n cs))"
  by (subst json_str.simps) simp

lemma unescape_hex:
  "n < 0x80 \<Longrightarrow>
   unescape (CHR ''u'' # CHR ''0'' # CHR ''0'' # hexdigit (n div 16) # hexdigit (n mod 16) # t) = Some ([char_of n], 5)"
  by (simp add: unescape_def getu4_def hexval_def [of "CHR ''0''"] encode_rune_def)

lemma char_eqI: "(of_char c :: nat) = n \<Longrightarrow> c = char_of n"
  by (metis char_of_char)

lemma json_str_esc_ascii:
  assumes "(of_char c :: nat) < 0x80"
  shows "json_str (esc_ascii c @ t) = map_option (apfst ((@) [c])) (json_str t)"
proof -
  let ?n = "of_char c :: nat"
  consider (quote) "c = bslash \<or> c = dquote" | (short) "?n \<in> {8, 9, 10, 12, 13}"
    | (hex) "\<not> (c = bslash \<or> c = dquote)" "?n \<notin> {8, 9, 10, 12, 13}"
        "?n < 0x20 \<or> c = CHR ''<'' \<or> c = CHR ''>'' \<or> c = CHR ''&''"
    | (plain) "\<not> (c = bslash \<or> c = dquote)" "?n \<notin> {8, 9, 10, 12, 13}"
        "\<not> (?n < 0x20 \<or> c = CHR ''<'' \<or> c = CHR ''>'' \<or> c = CHR ''&'')"
    by blast
  then show ?thesis
  proof cases
    case quote
    then show ?thesis by (auto simp: esc_ascii_def json_str_escape unescape_def)
  next
    case short
    then have "c \<in> {CHR 0x08, CHR 0x09, CHR 0x0A, CHR 0x0C, CHR 0x0D}"
      by (auto dest!: char_eqI simp: char_of_eq_iff)
    then show ?thesis by (auto simp: esc_ascii_def json_str_escape unescape_def)
  next
    case hex
    then have "esc_ascii c = [bslash, CHR ''u'', CHR ''0'', CHR ''0'', hexdigit (?n div 16), hexdigit (?n mod 16)]"
      unfolding esc_ascii_def Let_def by simp
    then show ?thesis using json_str_escape [OF unescape_hex [OF assms]] by simp
  next
    case plain
    then have "esc_ascii c = [c]" unfolding esc_ascii_def Let_def by simp
    then show ?thesis using plain assms by (simp add: json_str_plain)
  qed
qed

lemma json_str_copy:
  assumes "1 < utf8_len s"
  shows "json_str (take (utf8_len s) s @ t) = map_option (apfst ((@) (take (utf8_len s) s))) (json_str t)"
proof -
  from assms obtain c cs where s: "s = c # cs" by (cases s) (auto simp: utf8_len_def)
  let ?n = "utf8_len s"
  obtain m where m: "?n = Suc (Suc m)" using less_imp_Suc_add [OF assms] by auto
  have c: "0xC2 \<le> (of_char c :: nat)" using utf8_len_multi assms by (simp add: s)
  then have ne: "c \<noteq> dquote" "c \<noteq> bslash" by auto
  have len: "length (take ?n s) = ?n" using utf8_len_le [of s] by simp
  have "take ?n s @ t = c # (take (Suc m) cs @ t)" using m by (simp add: s)
  moreover have "drop (?n - 1) (take (Suc m) cs @ t) = t"
    using len m by (simp add: s)
  ultimately show ?thesis
    using c ne utf8_len_prefix [OF assms, of t] len assms
    by (subst json_str.simps) (simp add: m min.absorb2 take_append)
qed

lemma json_str_esc_multi:
  assumes "1 < utf8_len s"
  shows "json_str (esc_multi (take (utf8_len s) s) @ t)
    = map_option (apfst ((@) (take (utf8_len s) s))) (json_str t)"
proof -
  have "unescape (''u2028'' @ t) = Some ([CHR 0xE2, CHR 0x80, CHR 0xA8], 5)"
    and "unescape (''u2029'' @ t) = Some ([CHR 0xE2, CHR 0x80, CHR 0xA9], 5)"
    by (simp_all add: unescape_def getu4_def hexval_def encode_rune_def char_of_eq_iff)
  then show ?thesis
    using json_str_copy [OF assms] by (simp add: esc_multi_def json_str_escape)
qed

lemma json_str_bad:
  "json_str ((bslash # ''ufffd'') @ t) = map_option (apfst ((@) replacement)) (json_str t)"
proof -
  have "unescape (''ufffd'' @ t) = Some (replacement, 5)"
    by (simp add: unescape_def getu4_def hexval_def encode_rune_def char_of_eq_iff)
  then show ?thesis by (simp add: json_str_escape)
qed

text \<open>Reading back what was written gives the string with its ill-formed bytes replaced.\<close>

lemma json_str_esc: "json_str (json_esc s @ dquote # r) = Some (utf8_coerce s, r)"
proof (induction s rule: json_esc.induct)
  case (1 s)
  show ?case
  proof (cases s)
    case Nil
    then show ?thesis by (simp add: json_esc.simps utf8_coerce.simps json_str.simps)
  next
    case (Cons c cs)
    consider "utf8_len s = 0" | "utf8_len s = 1" | "1 < utf8_len s" by linarith
    then show ?thesis
    proof cases
      case 1
      with "1.IH"(1) Cons show ?thesis
        by (simp add: json_esc.simps [of "c # cs"] utf8_coerce.simps [of "c # cs"] json_str_bad [simplified])
    next
      case 2
      then have "(of_char c :: nat) < 0x80" by (simp only: Cons utf8_len_1)
      with "1.IH"(2) Cons 2 show ?thesis
        by (simp add: json_esc.simps [of "c # cs"] utf8_coerce.simps [of "c # cs"] json_str_esc_ascii)
    next
      case 3
      with "1.IH"(3) Cons show ?thesis
        by (simp add: json_esc.simps [of "c # cs"] utf8_coerce.simps [of "c # cs"] json_str_esc_multi)
    qed
  qed
qed

section \<open>Which strings survive, and what a literal contains\<close>

lemma utf8_coerce_ascii: "list_all (\<lambda>c. (of_char c :: nat) < 0x80) s \<Longrightarrow> utf8_coerce s = s"
proof (induction s)
  case (Cons c cs)
  then have "utf8_len (c # cs) = 1" using utf8_len_1 by simp
  with Cons show ?case by (subst utf8_coerce.simps) simp
qed (simp add: utf8_coerce.simps)

lemma utf8_valid_ascii: "list_all (\<lambda>c. (of_char c :: nat) < 0x80) s \<Longrightarrow> utf8_valid s"
  by (simp add: utf8_valid_def utf8_coerce_ascii)

lemma utf8_len_bytes:
  assumes "1 < utf8_len s" and "c \<in> set (take (utf8_len s) s)"
  shows "0x80 \<le> (of_char c :: nat)"
proof -
  from assms obtain a as where s: "s = a # as" by (cases s) (auto simp: utf8_len_def)
  obtain n lo hi where f: "utf8_first a = (n, lo, hi)" by (cases "utf8_first a")
  have n: "utf8_len s = n" "1 < n" and l: "n - 1 \<le> length as" "cont_byte lo hi (as ! 0)"
    and r: "list_all (cont_byte 0x80 0xBF) (take (n - 2) (tl as))"
    using assms(1) by (auto simp: s utf8_len_def f split: if_splits)
  have lo: "0x80 \<le> lo" using n f by (auto simp: utf8_first_def Let_def split: if_splits)
  obtain d ds where as: "as = d # ds" using l n by (cases as) auto
  obtain m where m: "n = Suc (Suc m)" using less_imp_Suc_add [OF n(2)] by auto
  have "c = a \<or> c = d \<or> c \<in> set (take m ds)" using assms(2) by (auto simp: n m) (auto simp: s as m)
  then show ?thesis
    using utf8_len_multi [of a as] assms(1) l(2) lo r by (auto simp: s as m cont_byte_def list_all_iff)
qed

lemma esc_ascii_printable: "c \<in> set (esc_ascii d) \<Longrightarrow> 0x20 \<le> (of_char c :: nat)"
  by (auto simp: esc_ascii_def Let_def hexdigit_def split: if_splits)

lemma json_esc_printable: "c \<in> set (json_esc s) \<Longrightarrow> 0x20 \<le> (of_char c :: nat)"
proof (induction s rule: json_esc.induct)
  case (1 s)
  consider "s = []" | "s \<noteq> []" "utf8_len s = 0" | "s \<noteq> []" "utf8_len s = 1" | "s \<noteq> []" "1 < utf8_len s"
    by linarith
  then show ?case
  proof cases
    case 4
    then have "c \<in> set (esc_multi (take (utf8_len s) s)) \<or> c \<in> set (json_esc (drop (utf8_len s) s))"
      using "1.prems" by (auto simp: json_esc.simps [of s])
    then show ?thesis
      using 4 "1.IH"(3) utf8_len_bytes [of s c] by (auto simp: esc_multi_def split: if_splits)
  qed (use 1 in \<open>auto simp: json_esc.simps [of s] json_esc.simps [of "[]"] dest: esc_ascii_printable\<close>)
qed

text \<open>Escaping makes a string at most six times as long; a 64-bit number has at most 20 digits.\<close>

lemma esc_ascii_length: "length (esc_ascii c) \<le> 6"
  by (simp add: esc_ascii_def Let_def)

lemma json_esc_length: "length (json_esc s) \<le> 6 * length s"
proof (induction s rule: json_esc.induct)
  case (1 s)
  consider "s = []" | "s \<noteq> []" "utf8_len s = 0" | "s \<noteq> []" "utf8_len s = 1" | "s \<noteq> []" "1 < utf8_len s"
    by linarith
  then show ?case
  proof cases
    case 4
    have "length (esc_multi (take (utf8_len s) s)) \<le> 6 * utf8_len s"
      using 4 by (auto simp: esc_multi_def)
    then show ?thesis
      using 4 "1.IH"(3) utf8_len_le [of s] by (auto simp: json_esc.simps [of s])
  next
    case 3
    then show ?thesis
      using "1.IH"(2) esc_ascii_length [of "hd s"] by (subst json_esc.simps, cases s) auto
  next
    case 2
    then show ?thesis
      using "1.IH"(1) by (subst json_esc.simps, cases s) auto
  qed (simp add: json_esc.simps [of "[]"])
qed

lemma json_esc_length_ge: "length s \<le> length (json_esc s)"
proof (induction s rule: json_esc.induct)
  case (1 s)
  consider "s = []" | "s \<noteq> []" "utf8_len s = 0" | "s \<noteq> []" "utf8_len s = 1" | "s \<noteq> []" "1 < utf8_len s"
    by linarith
  then show ?case
  proof cases
    case 4
    have "length t \<le> length (esc_multi t)" for t by (simp add: esc_multi_def)
    from this [of "take (utf8_len s) s"] have "utf8_len s \<le> length (esc_multi (take (utf8_len s) s))"
      using utf8_len_le [of s] by simp
    then show ?thesis
      using 4 "1.IH"(3) utf8_len_le [of s] by (auto simp: json_esc.simps [of s])
  next
    case 3
    have "esc_ascii (hd s) \<noteq> []" by (simp add: esc_ascii_def Let_def)
    then have "Suc 0 \<le> length (esc_ascii (hd s))" by (cases "esc_ascii (hd s)") auto
    with 3 show ?thesis
      using "1.IH"(2) by (subst json_esc.simps, cases s) auto
  next
    case 2
    then show ?thesis
      using "1.IH"(1) by (subst json_esc.simps, cases s) auto
  qed simp
qed

lemma dec_length: "0 < k \<Longrightarrow> n < 10 ^ k \<Longrightarrow> length (dec n) \<le> k"
proof (induction k arbitrary: n)
  case (Suc k)
  show ?case
  proof (cases "n < 10")
    case False
    then have "0 < k" using Suc.prems by (cases k) auto
    with False Suc show ?thesis by (simp add: dec.simps [of n] less_mult_imp_div_less mult.commute)
  qed (simp add: dec.simps [of n])
qed simp

lemma dec_length_uint64: "length (dec (unat (n :: 64 word))) \<le> 20"
  using unsigned_less [of n, where 'a = nat] by (intro dec_length) auto

section \<open>Decoding a literal does not depend on what follows it\<close>

lemma utf8_len_append: "utf8_len s \<noteq> 0 \<Longrightarrow> utf8_len (s @ t) = utf8_len s"
proof -
  assume a: "utf8_len s \<noteq> 0"
  show ?thesis
  proof (cases "utf8_len s = 1")
    case True
    then obtain c cs where "s = c # cs" by (cases s) (auto simp: utf8_len_def)
    with True utf8_len_1 [of c cs] utf8_len_1 [of c "cs @ t"] show ?thesis by simp
  next
    case False
    with a have "1 < utf8_len s" by simp
    from utf8_len_prefix [OF this, of "drop (utf8_len s) s @ t"] show ?thesis
      by (metis append_assoc append_take_drop_id)
  qed
qed

lemma json_str_quote_in: "json_str s = Some (u, r) \<Longrightarrow> dquote \<in> set s"
proof (induction s arbitrary: u rule: json_str.induct)
  case (1 s)
  show ?case
  proof (cases s)
    case Nil
    with "1.prems" show ?thesis by (simp add: json_str.simps)
  next
    case (Cons c cs)
    from "1.prems" show ?thesis
      unfolding json_str.simps [of s] using "1.IH" [OF Cons]
      by (fastforce simp: Cons split: if_splits option.splits dest: in_set_dropD)
  qed
qed

lemma utf8_len_0_append:
  assumes "utf8_len s = 0" and "s \<noteq> []" and "dquote \<in> set s"
  shows "utf8_len (s @ t) = 0"
proof (rule ccontr)
  assume k: "utf8_len (s @ t) \<noteq> 0"
  let ?k = "utf8_len (s @ t)"
  show False
  proof (cases "?k \<le> length s")
    case True
    then have "take ?k (s @ t) @ drop ?k s = s" by simp
    then show False
      using k assms(1,2) utf8_len_prefix [of "s @ t" "drop ?k s"] utf8_len_1
      by (cases s) (metis append_Cons less_one linorder_neqE_nat zero_neq_one)+
  next
    case False
    then have "1 < ?k" using assms(2) by (cases s) auto
    moreover have "dquote \<in> set (take ?k (s @ t))" using False assms(3) by simp
    ultimately show False using utf8_len_bytes [of "s @ t" dquote] by simp
  qed
qed

lemma getu4_append: "getu4 s = Some n \<Longrightarrow> getu4 (s @ t) = Some n \<and> 4 \<le> length s"
  by (auto simp: getu4_def split: list.splits)

lemma json_str_None:
  "json_str [] = None" "json_str [bslash] = None"
  "getu4 x = None \<Longrightarrow> json_str (bslash # CHR ''u'' # x) = None"
  by (simp_all add: json_str.simps [of "[]"] json_str.simps [of "[bslash]"]
      json_str.simps [of "bslash # CHR ''u'' # x"] unescape_def)

lemma unescape_surrogate_append:
  assumes rr: "getu4 ds = Some rr" and sur: "0xD800 \<le> rr" "rr < 0xE000"
    and un: "unescape (CHR ''u'' # ds) = Some (u, n)" and ok: "json_str (drop n (CHR ''u'' # ds)) \<noteq> None"
  shows "unescape (CHR ''u'' # ds @ t) = Some (u, n) \<and> n \<le> Suc (length ds)"
proof -
  have rr': "getu4 (ds @ t) = Some rr" "4 \<le> length ds" using getu4_append [OF rr] by auto
  show ?thesis
  proof (cases "drop 4 ds")
    case Nil
    with un rr sur have "n = 5" by (simp add: unescape_def)
    with ok Nil show ?thesis by (simp add: json_str_None)
  next
    case (Cons b bs)
    show ?thesis
    proof (cases bs)
      case Nil
      with Cons un rr sur have n: "n = 5" "u = replacement" by (simp_all add: unescape_def)
      with ok Cons Nil have "b \<noteq> bslash" by (auto simp: json_str_None)
      with Cons Nil rr' sur n show ?thesis by (cases t) (simp_all add: unescape_def)
    next
      case (Cons x rest)
      with \<open>drop 4 ds = b # bs\<close> have r4: "drop 4 ds = b # x # rest" by simp
      show ?thesis
      proof (cases "b = bslash \<and> x = CHR ''u''")
        case False
        with r4 un rr rr' sur show ?thesis by (auto simp: unescape_def)
      next
        case True
        show ?thesis
        proof (cases "getu4 rest")
          case None
          with True r4 un rr sur have "n = 5" by (simp add: unescape_def)
          with ok r4 True None show ?thesis by (simp add: json_str_None)
        next
          case (Some r2)
          have "11 \<le> Suc (length ds)"
            using getu4_append [OF Some, of t] arg_cong [OF r4, of length] by auto
          with True r4 un rr rr' sur Some getu4_append [OF Some, of t] show ?thesis
            by (auto simp: unescape_def split: if_splits)
        qed
      qed
    qed
  qed
qed

lemma unescape_append:
  assumes un: "unescape cs = Some (u, n)" and ok: "json_str (drop n cs) \<noteq> None"
  shows "unescape (cs @ t) = Some (u, n) \<and> n \<le> length cs"
proof -
  from un obtain c ds where cs: "cs = c # ds" by (cases cs) (auto simp: unescape_def)
  show ?thesis
  proof (cases "c = CHR ''u''")
    case False
    with un show ?thesis by (auto simp: cs unescape_def split: if_splits)
  next
    case True
    with un obtain rr where rr: "getu4 ds = Some rr" by (auto simp: cs unescape_def split: option.splits)
    show ?thesis
    proof (cases "0xD800 \<le> rr \<and> rr < 0xE000")
      case False
      with un True rr getu4_append [OF rr, of t] show ?thesis by (auto simp: cs unescape_def)
    next
      case True
      with unescape_surrogate_append [OF rr] un ok \<open>c = CHR ''u''\<close> show ?thesis by (simp add: cs)
    qed
  qed
qed

text \<open>Reading a literal that is complete does not depend on what follows it.\<close>

lemma json_str_append: "json_str s = Some (u, r) \<Longrightarrow> json_str (s @ t) = Some (u, r @ t)"
proof (induction s arbitrary: u rule: json_str.induct)
  case (1 s)
  show ?case
  proof (cases s)
    case Nil
    with "1.prems" show ?thesis by (simp add: json_str_None)
  next
    case (Cons c cs)
    consider "c = dquote" | "c = bslash" | "c \<noteq> dquote" "c \<noteq> bslash" "utf8_len s = 0"
      | "c \<noteq> dquote" "c \<noteq> bslash" "utf8_len s \<noteq> 0" by blast
    then show ?thesis
    proof cases
      case 1
      with "1.prems" Cons show ?thesis 
        by (auto simp: json_str.simps [of "dquote # x" for x])
    next
      case 2
      with "1.prems" Cons obtain v n w where un: "unescape cs = Some (v, n)"
        and js: "json_str (drop n cs) = Some (w, r)" and u: "u = v @ w"
        by (auto simp: json_str.simps [of "bslash # cs"] split: option.splits)
      have "unescape (cs @ t) = Some (v, n)" "n \<le> length cs" using unescape_append [OF un] js by auto
      moreover have "json_str (drop n cs @ t) = Some (w, r @ t)" using "1.IH"(1) [OF Cons _ 2 un refl js] 2 by simp
      ultimately show ?thesis using 2 Cons u by (simp add: json_str_escape)
    next
      case 3
      with "1.prems" Cons obtain w where js: "json_str cs = Some (w, r)" and u: "u = replacement @ w"
        and c: "\<not> (of_char c :: nat) < 0x20"
        by (auto simp: json_str.simps [of "c # cs"] split: if_splits)
      have "utf8_len (s @ t) = 0"
        using 3 Cons json_str_quote_in [OF js] by (intro utf8_len_0_append) auto
      with 3 c u "1.IH"(2) [OF Cons _ _ _ _ js] Cons show ?thesis
        by (simp add: json_str.simps [of "c # cs @ t"])
    next
      case 4
      with "1.prems" Cons obtain w where js: "json_str (drop (utf8_len s - 1) cs) = Some (w, r)"
        and u: "u = take (utf8_len s) s @ w" and c: "\<not> (of_char c :: nat) < 0x20"
        by (auto simp: json_str.simps [of "c # cs"] split: if_splits)
      have l: "utf8_len (s @ t) = utf8_len s" using 4 by (intro utf8_len_append) simp
      have le: "utf8_len s \<le> length s" by (rule utf8_len_le)
      then have "take (utf8_len s) (c # cs @ t) = take (utf8_len s) s" by (simp add: Cons take_Cons')
      with 4 c u l le "1.IH"(3) [OF Cons _ _ _ _ js] Cons show ?thesis
        by (simp add: json_str.simps [of "c # cs @ t"])
    qed
  qed
qed

end
