(* ===== verification/Json.thy ===== *)
theory Json
  imports GoText
begin

text \<open>
  JSON documents as \<^verbatim>\<open>encoding/json\<close> writes and reads them.  \<open>json_print\<close> is the compact output of
  \<^verbatim>\<open>json.Marshal\<close>; \<open>json_parse\<close> is the syntax check and decoding of \<^verbatim>\<open>json.Unmarshal\<close> into a
  document, before it is stored into a Go value.  A number is kept as its literal.  Parsing takes
  fuel; \<open>json_parse\<close> gives two units per byte and one more, and every second nested call has consumed
  a byte, so it does not run out (\<open>json_parse_print\<close> shows that whatever was printed is parsed).
  Not modelled: Go's nesting limit of 10000 levels.

  \<open>field_name\<close> is the matching of object keys to struct fields: an exact match or one up to case,
  where U+212A and U+017F fold to k and s.
\<close>

datatype json = JNull | JBool bool | JNum string | JStr string | JArr "json list"
  | JObj "(string \<times> json) list"

section \<open>Printing\<close>

definition json_quote :: "string \<Rightarrow> string" where
  "json_quote s = dquote # json_esc s @ [dquote]"

fun json_print :: "json \<Rightarrow> string"
and print_elems :: "json list \<Rightarrow> string"
and print_members :: "(string \<times> json) list \<Rightarrow> string" where
  "json_print JNull = ''null''"
| "json_print (JBool b) = (if b then ''true'' else ''false'')"
| "json_print (JNum l) = l"
| "json_print (JStr s) = json_quote s"
| "json_print (JArr vs) = CHR ''['' # print_elems vs @ '']''"
| "json_print (JObj ms) = CHR ''{'' # print_members ms @ ''}''"
| "print_elems [] = []"
| "print_elems [v] = json_print v"
| "print_elems (v # vs) = json_print v @ CHR '','' # print_elems vs"
| "print_members [] = []"
| "print_members [(k, v)] = json_quote k @ CHR '':'' # json_print v"
| "print_members ((k, v) # ms) = json_quote k @ CHR '':'' # json_print v @ CHR '','' # print_members ms"

section \<open>Parsing\<close>

definition is_ws :: "char \<Rightarrow> bool" where
  "is_ws c \<longleftrightarrow> c = CHR '' '' \<or> c = CHR 0x09 \<or> c = CHR 0x0A \<or> c = CHR 0x0D"

abbreviation skip_ws :: "string \<Rightarrow> string" where
  "skip_ws s \<equiv> dropWhile is_ws s"

text \<open>A number literal at the start of the input: integer part, fraction and exponent.\<close>

definition number_int :: "string \<Rightarrow> string" where
  "number_int s = (let ds = takeWhile is_dec_digit s in
     if ds \<noteq> [] \<and> hd ds = CHR ''0'' then ''0'' else ds)"

definition number_frac :: "string \<Rightarrow> string option" where
  "number_frac s = (case s of [] \<Rightarrow> Some [] | c # cs \<Rightarrow>
     if c = CHR ''.'' then
       (let ds = takeWhile is_dec_digit cs in if ds = [] then None else Some (c # ds))
     else Some [])"

definition number_exp :: "string \<Rightarrow> string option" where
  "number_exp s = (case s of [] \<Rightarrow> Some [] | c # cs \<Rightarrow>
     if c = CHR ''e'' \<or> c = CHR ''E'' then
       (let sg = (case cs of [] \<Rightarrow> [] | d # _ \<Rightarrow> if d = CHR ''+'' \<or> d = CHR ''-'' then [d] else []);
            ds = takeWhile is_dec_digit (drop (length sg) cs)
        in if ds = [] then None else Some (c # sg @ ds))
     else Some [])"

definition json_number :: "string \<Rightarrow> (string \<times> string) option" where
  "json_number s =
     (let sg = (if s \<noteq> [] \<and> hd s = CHR ''-'' then ''-'' else []);
          ip = number_int (drop (length sg) s);
          s2 = drop (length (sg @ ip)) s
      in if ip = [] then None
         else case number_frac s2 of None \<Rightarrow> None | Some fr \<Rightarrow>
           (case number_exp (drop (length fr) s2) of None \<Rightarrow> None | Some ex \<Rightarrow>
              Some (sg @ ip @ fr @ ex, drop (length (fr @ ex)) s2)))"

definition json_word :: "string \<Rightarrow> json \<Rightarrow> string \<Rightarrow> (json \<times> string) option" where
  "json_word w v s = (if take (length w) s = w then Some (v, drop (length w) s) else None)"

fun json_value :: "nat \<Rightarrow> string \<Rightarrow> (json \<times> string) option"
and json_elems :: "nat \<Rightarrow> string \<Rightarrow> (json list \<times> string) option"
and json_members :: "nat \<Rightarrow> string \<Rightarrow> ((string \<times> json) list \<times> string) option" where
  "json_value 0 s = None"
| "json_value (Suc f) s = (case skip_ws s of [] \<Rightarrow> None | c # cs \<Rightarrow>
     if c = CHR ''{'' then
       (case skip_ws cs of [] \<Rightarrow> None | d # ds \<Rightarrow>
          if d = CHR ''}'' then Some (JObj [], ds)
          else map_option (apfst JObj) (json_members f (d # ds)))
     else if c = CHR ''['' then
       (case skip_ws cs of [] \<Rightarrow> None | d # ds \<Rightarrow>
          if d = CHR '']'' then Some (JArr [], ds)
          else map_option (apfst JArr) (json_elems f (d # ds)))
     else if c = dquote then map_option (apfst JStr) (json_str cs)
     else if c = CHR ''n'' then json_word ''null'' JNull (c # cs)
     else if c = CHR ''t'' then json_word ''true'' (JBool True) (c # cs)
     else if c = CHR ''f'' then json_word ''false'' (JBool False) (c # cs)
     else map_option (apfst JNum) (json_number (c # cs)))"
| "json_elems 0 s = None"
| "json_elems (Suc f) s = (case json_value f s of None \<Rightarrow> None | Some (v, r) \<Rightarrow>
     (case skip_ws r of [] \<Rightarrow> None | c # cs \<Rightarrow>
        if c = CHR '']'' then Some ([v], cs)
        else if c = CHR '','' then map_option (apfst ((#) v)) (json_elems f cs)
        else None))"
| "json_members 0 s = None"
| "json_members (Suc f) s = (case skip_ws s of [] \<Rightarrow> None | q # qs \<Rightarrow>
     if q \<noteq> dquote then None
     else case json_str qs of None \<Rightarrow> None | Some (k, r) \<Rightarrow>
       (case skip_ws r of [] \<Rightarrow> None | c # cs \<Rightarrow>
          if c \<noteq> CHR '':'' then None
          else case json_value f cs of None \<Rightarrow> None | Some (v, r2) \<Rightarrow>
            (case skip_ws r2 of [] \<Rightarrow> None | d # ds \<Rightarrow>
               if d = CHR ''}'' then Some ([(k, v)], ds)
               else if d = CHR '','' then map_option (apfst ((#) (k, v))) (json_members f ds)
               else None)))"

definition json_parse :: "string \<Rightarrow> json option" where
  "json_parse s = (case json_value (Suc (2 * length s)) s of
      Some (v, r) \<Rightarrow> if skip_ws r = [] then Some v else None
    | None \<Rightarrow> None)"

section \<open>Storing into Go values\<close>

text \<open>A number literal stored into a \<^verbatim>\<open>uint64\<close> field: \<^verbatim>\<open>strconv.ParseUint(s, 10, 64)\<close>.\<close>

definition parse_uint64 :: "string \<Rightarrow> uint64 option" where
  "parse_uint64 l = (if l = [] then None else case dec_val 0 l of
      Some n \<Rightarrow> if n < 2 ^ 64 then Some (of_nat n) else None
    | None \<Rightarrow> None)"

text \<open>\<^verbatim>\<open>strconv.ParseInt(s, 10, 64)\<close>: an optional sign and a value in the 64-bit signed range.\<close>

definition parse_int64 :: "string \<Rightarrow> int option" where
  "parse_int64 l =
     (let neg = (l \<noteq> [] \<and> hd l = CHR ''-'');
          ds = (if l \<noteq> [] \<and> (hd l = CHR ''-'' \<or> hd l = CHR ''+'') then tl l else l)
      in if ds = [] then None else case dec_val 0 ds of
           Some n \<Rightarrow> if neg then (if int n \<le> 2 ^ 63 then Some (- int n) else None)
                     else (if int n < 2 ^ 63 then Some (int n) else None)
         | None \<Rightarrow> None)"

definition ascii_lower :: "char \<Rightarrow> char" where
  "ascii_lower c = (if 65 \<le> (of_char c :: nat) \<and> (of_char c :: nat) \<le> 90 then char_of ((of_char c :: nat) + 32) else c)"

fun fold_name :: "string \<Rightarrow> string" where
  "fold_name [] = []"
| "fold_name (c # cs) =
     (if c = CHR 0xE2 \<and> take 2 cs = [CHR 0x84, CHR 0xAA] then CHR ''k'' # fold_name (drop 2 cs)
      else if c = CHR 0xC5 \<and> take 1 cs = [CHR 0xBF] then CHR ''s'' # fold_name (drop 1 cs)
      else ascii_lower c # fold_name cs)"

definition field_name :: "string list \<Rightarrow> string \<Rightarrow> string option" where
  "field_name fields k =
     (if k \<in> set fields then Some k else List.find (\<lambda>f. fold_name f = fold_name k) fields)"

section \<open>Parsing what was printed\<close>

text \<open>\<open>json_ok v\<close>: the numbers of \<open>v\<close> are integer literals; \<open>json_coerce\<close> replaces ill-formed bytes.\<close>

definition int_lit :: "string \<Rightarrow> bool" where
  "int_lit l \<longleftrightarrow> (let ds = (if l \<noteq> [] \<and> hd l = CHR ''-'' then tl l else l) in
     ds \<noteq> [] \<and> list_all is_dec_digit ds \<and> (hd ds = CHR ''0'' \<longrightarrow> ds = ''0''))"

fun json_ok :: "json \<Rightarrow> bool" where
  "json_ok (JNum l) = int_lit l"
| "json_ok (JArr vs) = list_all json_ok vs"
| "json_ok (JObj ms) = list_all (\<lambda>(k, v). json_ok v) ms"
| "json_ok _ = True"

fun json_coerce :: "json \<Rightarrow> json" where
  "json_coerce (JStr s) = JStr (utf8_coerce s)"
| "json_coerce (JArr vs) = JArr (map json_coerce vs)"
| "json_coerce (JObj ms) = JObj (map (\<lambda>(k, v). (utf8_coerce k, json_coerce v)) ms)"
| "json_coerce v = v"

definition num_stop :: "string \<Rightarrow> bool" where
  "num_stop r \<longleftrightarrow> (case r of [] \<Rightarrow> True
     | c # _ \<Rightarrow> \<not> is_dec_digit c \<and> c \<noteq> CHR ''.'' \<and> c \<noteq> CHR ''e'' \<and> c \<noteq> CHR ''E'')"

lemma num_stop_simps [simp]:
  "num_stop []" "num_stop (CHR '','' # r)" "num_stop (CHR ''}'' # r)" "num_stop (CHR '']'' # r)"
  by (simp_all add: num_stop_def is_dec_digit_def)

lemma is_ws_simps [simp]:
  "\<not> is_ws dquote" "\<not> is_ws (CHR ''{'')" "\<not> is_ws (CHR ''}'')" "\<not> is_ws (CHR ''['')" "\<not> is_ws (CHR '']'')"
  "\<not> is_ws (CHR '','')" "\<not> is_ws (CHR '':'')" "\<not> is_ws (CHR ''-'')" "\<not> is_ws (CHR ''n'')" "\<not> is_ws (CHR ''t'')"
  "\<not> is_ws (CHR ''f'')"
  by (simp_all add: is_ws_def)

lemma is_dec_digit_not_ws: "is_dec_digit c \<Longrightarrow> \<not> is_ws c"
  by (auto simp: is_ws_def is_dec_digit_def)

lemma takeWhile_digits:
  "list_all is_dec_digit ds \<Longrightarrow> num_stop r \<Longrightarrow> takeWhile is_dec_digit (ds @ r) = ds"
  by (induction ds) (auto simp: num_stop_def split: list.splits)

lemma number_int_digits:
  "\<lbrakk>list_all is_dec_digit ds; ds \<noteq> []; hd ds = CHR ''0'' \<longrightarrow> ds = ''0''; num_stop r\<rbrakk>
   \<Longrightarrow> number_int (ds @ r) = ds"
  by (auto simp: number_int_def takeWhile_digits Let_def)

lemma number_tail: "num_stop r \<Longrightarrow> number_frac r = Some [] \<and> number_exp r = Some []"
  by (auto simp: num_stop_def number_frac_def number_exp_def split: list.splits)

lemma json_number_lit:
  assumes "int_lit l" and "num_stop r"
  shows "json_number (l @ r) = Some (l, r)"
proof -
  define sg where "sg = (if hd l = CHR ''-'' then ''-'' else [])"
  define ds where "ds = (if hd l = CHR ''-'' then tl l else l)"
  have l: "l = sg @ ds" "l \<noteq> []"
    using assms(1) by (cases l; auto simp: sg_def ds_def int_lit_def Let_def split: if_splits)+
  have ds: "list_all is_dec_digit ds" "ds \<noteq> []" "hd ds = CHR ''0'' \<longrightarrow> ds = ''0''"
    using assms(1) l(2) by (auto simp: ds_def int_lit_def Let_def split: if_splits)
  have "(if l @ r \<noteq> [] \<and> hd (l @ r) = CHR ''-'' then ''-'' else []) = sg"
    using l(2) by (simp add: sg_def)
  then show ?thesis
    using number_int_digits [OF ds assms(2)] number_tail [OF assms(2)] ds(2)
    unfolding json_number_def Let_def by (simp add: l(1))
qed

lemma int_lit_hd:
  "int_lit l \<Longrightarrow> \<exists>c cs. l = c # cs \<and> (is_dec_digit c \<or> c = CHR ''-'')"
  by (cases l) (auto simp: int_lit_def Let_def split: if_splits)

lemma json_value_num:
  assumes "int_lit l" and "num_stop r"
  shows "json_value (Suc f) (l @ r) = Some (JNum l, r)"
proof -
  from int_lit_hd [OF assms(1)] obtain c cs
    where l: "l = c # cs" and c: "is_dec_digit c \<or> c = CHR ''-''" by blast
  from c have "\<not> is_ws c" and "c \<notin> {CHR ''{'', CHR ''['', dquote, CHR ''n'', CHR ''t'', CHR ''f''}"
    by (auto simp: is_dec_digit_not_ws, auto simp: is_dec_digit_def)
  with json_number_lit [OF assms] show ?thesis by (simp add: l)
qed

lemma json_str_quote: "json_str (tl (json_quote s) @ r) = Some (utf8_coerce s, r)"
  by (simp add: json_quote_def json_str_esc)

lemma json_quote_Cons: "json_quote s = dquote # tl (json_quote s)"
  by (simp add: json_quote_def)

lemma json_members_one:
  assumes "json_value f (u @ r) = Some (v, d # ds)" and "d = CHR ''}'' \<or> d = CHR '',''"
  shows "json_members (Suc f) (json_quote k @ CHR '':'' # u @ r) =
    (if d = CHR ''}'' then Some ([(utf8_coerce k, v)], ds)
     else map_option (apfst ((#) (utf8_coerce k, v))) (json_members f ds))"
proof -
  have "\<not> is_ws d" using assms(2) by auto
  then show ?thesis
    using assms by (subst json_quote_Cons) (auto simp: json_str_quote)
qed

lemma print_members_Cons:
  "print_members ((k, v) # ms) =
     json_quote k @ CHR '':'' # json_print v @ (if ms = [] then [] else CHR '','' # print_members ms)"
  by (cases ms) auto

lemma print_elems_Cons:
  "print_elems (v # vs) = json_print v @ (if vs = [] then [] else CHR '','' # print_elems vs)"
  by (cases vs) auto

lemma json_print_not_close: "json_ok v \<Longrightarrow> \<exists>c cs. json_print v = c # cs \<and> \<not> is_ws c \<and> c \<noteq> CHR '']''"
  using int_lit_hd by (cases v) (fastforce simp: json_quote_def is_dec_digit_def is_ws_def)+

lemma json_elems_one:
  assumes "json_value f u = Some (v, d # ds)" and "d = CHR '']'' \<or> d = CHR '',''"
  shows "json_elems (Suc f) u =
    (if d = CHR '']'' then Some ([v], ds) else map_option (apfst ((#) v)) (json_elems f ds))"
  using assms by auto

lemma json_value_obj:
  "ms \<noteq> [] \<Longrightarrow> json_value (Suc f) (CHR ''{'' # print_members ms @ t)
     = map_option (apfst JObj) (json_members f (print_members ms @ t))"
  by (cases ms) (auto simp: print_members_Cons json_quote_def)

lemma json_value_arr:
  assumes "vs \<noteq> []" and "list_all json_ok vs"
  shows "json_value (Suc f) (CHR ''['' # print_elems vs @ t)
     = map_option (apfst JArr) (json_elems f (print_elems vs @ t))"
proof -
  from assms obtain v ws where vs: "vs = v # ws" "json_ok v" by (cases vs) auto
  then obtain c cs where "print_elems vs = c # cs" "\<not> is_ws c" "c \<noteq> CHR '']''"
    using json_print_not_close [of v] by (auto simp: print_elems_Cons)
  then show ?thesis by simp
qed

lemma json_value_print_all:
  "json_ok v \<Longrightarrow> num_stop r \<Longrightarrow> 2 * length (json_print v @ r) < f \<Longrightarrow>
     json_value f (json_print v @ r) = Some (json_coerce v, r)"
  "list_all json_ok vs \<Longrightarrow> vs \<noteq> [] \<Longrightarrow> 2 * length (print_elems vs @ CHR '']'' # r) + 1 < f \<Longrightarrow>
     json_elems f (print_elems vs @ CHR '']'' # r) = Some (map json_coerce vs, r)"
  "list_all (\<lambda>(k, v). json_ok v) ms \<Longrightarrow> ms \<noteq> [] \<Longrightarrow> 2 * length (print_members ms @ CHR ''}'' # r) < f \<Longrightarrow>
     json_members f (print_members ms @ CHR ''}'' # r)
       = Some (map (\<lambda>(k, v). (utf8_coerce k, json_coerce v)) ms, r)"
proof (induction v and vs and ms arbitrary: f r and f r and f r
    rule: json_print_print_elems_print_members.induct)
  case (1 f r)
  then show ?case by (cases f) (auto simp: json_word_def)
next
  case (2 b f r)
  then show ?case by (cases f) (auto simp: json_word_def)
next
  case (3 l f r)
  then show ?case by (cases f) (auto simp: json_value_num simp del: json_value.simps)
next
  case (4 s f r)
  then show ?case by (cases f) (simp_all add: json_quote_def json_str_esc)
next
  case (5 vs f r)
  then obtain g where f: "f = Suc g" by (cases f) auto
  show ?case
  proof (cases "vs = []")
    case False
    with 5 json_value_arr [OF False, of g] show ?thesis
      by (simp add: f del: json_value.simps)
  qed (simp add: f)
next
  case (6 ms f r)
  then obtain g where f: "f = Suc g" by (cases f) auto
  show ?case
  proof (cases "ms = []")
    case False
    with 6 json_value_obj [OF False, of g] show ?thesis
      by (simp add: f del: json_value.simps)
  qed (simp add: f)
next
  case (8 v f r)
  then obtain g where f: "f = Suc g" by (cases f) auto
  from 8 show ?case
    by (subst f, subst json_elems_one) (auto simp: f simp del: json_elems.simps)
next
  case (9 v w ws f r)
  then obtain g where f: "f = Suc g" by (cases f) auto
  from 9 show ?case
    by (subst f, subst json_elems_one) (auto simp: f simp del: json_elems.simps)
next
  case (11 k v f r)
  then obtain g where f: "f = Suc g" by (cases f) auto
  from 11 show ?case
    by (subst f, simp del: json_members.simps, subst json_members_one)
      (auto simp: f json_quote_def simp del: json_members.simps)
next
  case (12 k v m ms f r)
  then obtain g where f: "f = Suc g" by (cases f) auto
  from 12 show ?case
    by (subst f, simp del: json_members.simps, subst json_members_one)
      (auto simp: f json_quote_def simp del: json_members.simps)
qed simp_all

text \<open>Parsing a printed document gives it back, with the ill-formed bytes of its strings replaced.\<close>

lemma json_parse_print: "json_ok v \<Longrightarrow> json_parse (json_print v) = Some (json_coerce v)"
  using json_value_print_all(1) [of v "[]" "Suc (2 * length (json_print v))"]
  by (simp add: json_parse_def del: json_value.simps)

section \<open>The fuel is enough for every input\<close>

lemma length_skip_ws: "skip_ws s = c # cs \<Longrightarrow> length cs < length s"
  by (metis Suc_le_lessD length_Cons length_dropWhile_le)

lemma unescape_pos: "unescape s = Some (u, n) \<Longrightarrow> 0 < n"
  by (auto simp: unescape_def split: list.splits if_splits option.splits bool.splits)

lemma json_str_length: "json_str s = Some (u, r) \<Longrightarrow> length r < length s"
proof (induction s arbitrary: u rule: json_str.induct)
  case (1 s)
  show ?case
  proof (cases s)
    case Nil
    with "1.prems" show ?thesis by (simp add: json_str.simps)
  next
    case (Cons c cs)
    have drop: "length (drop n cs) < Suc (length cs)" for n by simp
    from "1.prems" show ?thesis
      unfolding json_str.simps [of s]
      using "1.IH" [OF Cons] drop less_trans by (fastforce simp: Cons split: if_splits option.splits)
  qed
qed

lemma json_number_length: "json_number s = Some (l, r) \<Longrightarrow> length r < length s"
proof -
  assume *: "json_number s = Some (l, r)"
  define sg where "sg = (if s \<noteq> [] \<and> hd s = CHR ''-'' then ''-'' else [])"
  define ip where "ip = number_int (drop (length sg) s)"
  have ip: "ip \<noteq> []" and r: "\<exists>n. r = drop (length (sg @ ip) + n) s"
    using * by (auto simp: json_number_def Let_def sg_def [symmetric] ip_def [symmetric]
        split: if_splits option.splits) (metis add.commute add.left_commute)
  have "s \<noteq> []" using ip by (auto simp: ip_def number_int_def)
  then show ?thesis using ip r by auto
qed

lemma json_word_length: "json_word w v s = Some (u, r) \<Longrightarrow> w \<noteq> [] \<Longrightarrow> length r < length s"
  by (cases w; cases s) (auto simp: json_word_def split: if_splits)

lemma json_lengths:
  "json_value f s = Some (v, r) \<Longrightarrow> length r < length s"
  "json_elems f s = Some (vs, r) \<Longrightarrow> length r < length s"
  "json_members f s = Some (ms, r) \<Longrightarrow> length r < length s"
proof (induction f s and f s and f s arbitrary: v r and vs r and ms r
    rule: json_value_json_elems_json_members.induct)
  case (2 f s)
  then obtain c cs where s: "skip_ws s = c # cs" by (auto split: list.splits)
  note len = length_skip_ws [OF s]
  show ?case
  proof (cases "c = CHR ''{'' \<or> c = CHR ''[''")
    case True
    with "2.prems" obtain d ds where d: "skip_ws cs = d # ds"
      by (cases "skip_ws cs") (auto simp: s simp del: dropWhile_eq_Nil_conv)
    from True "2.IH"(1) [OF s _ d] "2.IH"(2) [OF s _ _ d] "2.prems" len length_skip_ws [OF d]
    show ?thesis by (fastforce simp: s d split: if_splits)
  next
    case False
    with "2.prems" len show ?thesis
      by (auto simp: s split: if_splits dest!: json_str_length json_number_length json_word_length)
  qed
next
  case (4 f s)
  then obtain v u c cs where v: "json_value f s = Some (v, u)" and c: "skip_ws u = c # cs"
    by (auto split: option.splits list.splits)
  from "4.IH"(1) [OF v] length_skip_ws [OF c] "4.IH"(2) [OF v refl c] "4.prems" show ?case
    by (fastforce simp: v c split: if_splits)
next
  case (6 f s)
  then obtain qs k u cs v u2 d ds where q: "skip_ws s = dquote # qs" and k: "json_str qs = Some (k, u)"
    and c: "skip_ws u = CHR '':'' # cs" and v: "json_value f cs = Some (v, u2)" and d: "skip_ws u2 = d # ds"
    by (auto split: option.splits list.splits if_splits)
  from "6.IH"(1) [OF q _ k refl c _ v] "6.IH"(2) [OF q _ k refl c _ v refl d] "6.prems"
    length_skip_ws [OF q] json_str_length [OF k] length_skip_ws [OF c] length_skip_ws [OF d]
  show ?case by (fastforce simp: q k c v d split: if_splits)
qed simp_all

lemma json_fuel:
  "2 * length s < f \<Longrightarrow> json_value (Suc f) s = json_value f s"
  "2 * length s + 1 < f \<Longrightarrow> json_elems (Suc f) s = json_elems f s"
  "2 * length s < f \<Longrightarrow> json_members (Suc f) s = json_members f s"
proof (induction f arbitrary: s)
  case (Suc f)
  {
    case 1
    have "json_elems (Suc f) (d # ds) = json_elems f (d # ds)"
      and "json_members (Suc f) (d # ds) = json_members f (d # ds)"
      if "skip_ws s = c # cs" "skip_ws cs = d # ds" for c cs d ds
      using that [THEN length_skip_ws] 1 by (auto simp del: json_elems.simps json_members.simps intro!: Suc.IH)
    then show ?case
      unfolding json_value.simps
      by (simp split: list.split del: json_elems.simps json_members.simps dropWhile_eq_Nil_conv)
  next
    case 2
    have v: "json_value (Suc f) s = json_value f s" using 2 by (intro Suc.IH) simp
    have "json_elems (Suc f) cs = json_elems f cs"
      if "json_value f s = Some (v, r)" "skip_ws r = c # cs" for v r c cs
      using json_lengths(1) [OF that(1)] length_skip_ws [OF that(2)] 2 by (intro Suc.IH) simp
    then show ?case
      unfolding json_elems.simps v
      by (simp split: list.split option.split del: json_elems.simps json_value.simps dropWhile_eq_Nil_conv)
  next
    case 3
    have v: "json_value (Suc f) cs = json_value f cs"
      if "skip_ws s = q # qs" "json_str qs = Some (k, r)" "skip_ws r = c # cs" for q qs k r c cs
      using length_skip_ws [OF that(1)] json_str_length [OF that(2)] length_skip_ws [OF that(3)] 3
      by (intro Suc.IH) simp
    have "json_members (Suc f) ds = json_members f ds"
      if "skip_ws s = q # qs" "json_str qs = Some (k, r)" "skip_ws r = c # cs"
        "json_value f cs = Some (v, r2)" "skip_ws r2 = d # ds" for q qs k r c cs v r2 d ds
      using length_skip_ws [OF that(1)] json_str_length [OF that(2)] length_skip_ws [OF that(3)]
        json_lengths(1) [OF that(4)] length_skip_ws [OF that(5)] 3
      by (intro Suc.IH) simp
    with v show ?case
      unfolding json_members.simps
      by (simp split: list.split option.split del: json_members.simps json_value.simps dropWhile_eq_Nil_conv)
  }
qed simp_all

text \<open>So the result of \<open>json_parse\<close> does not depend on the fuel, once it is that large.\<close>

lemma json_parse_fuel:
  "2 * length s < f \<Longrightarrow>
   json_parse s = (case json_value f s of
      Some (v, r) \<Rightarrow> if skip_ws r = [] then Some v else None
    | None \<Rightarrow> None)"
proof -
  assume f: "2 * length s < f"
  have "json_value (Suc (2 * length s) + n) s = json_value (Suc (2 * length s)) s" for n
    by (induction n) (simp_all add: json_fuel(1) del: json_value.simps)
  from this [of "f - Suc (2 * length s)"] f show ?thesis
    by (simp add: json_parse_def del: json_value.simps)
qed

section \<open>A complete document does not depend on what follows it\<close>

lemma skip_ws_append: "skip_ws s = c # cs \<Longrightarrow> skip_ws (s @ t) = c # cs @ t"
  by (induction s) (auto split: if_splits)

lemma takeWhile_digits_append:
  "drop (length (takeWhile P xs)) xs \<noteq> [] \<Longrightarrow> takeWhile P (xs @ t) = takeWhile P xs"
  by (induction xs) auto

lemma number_int_append:
  "drop (length (number_int s)) s \<noteq> [] \<Longrightarrow> number_int (s @ t) = number_int s"
proof (cases "drop (length (takeWhile is_dec_digit s)) s = []")
  case True
  assume d: "drop (length (number_int s)) s \<noteq> []"
  with True have h: "takeWhile is_dec_digit s \<noteq> []" "hd (takeWhile is_dec_digit s) = CHR ''0''"
    by (auto simp: number_int_def Let_def split: if_splits)
  then obtain cs where "s = CHR ''0'' # cs" by (cases s) (auto split: if_splits)
  then show ?thesis by (simp add: number_int_def Let_def is_dec_digit_def)
qed (simp add: number_int_def takeWhile_digits_append)

lemma number_frac_append:
  "number_frac s = Some fr \<Longrightarrow> drop (length fr) s \<noteq> [] \<Longrightarrow> number_frac (s @ t) = Some fr"
  by (cases s) (auto simp: number_frac_def Let_def takeWhile_digits_append split: if_splits)

lemma number_exp_append:
  assumes "number_exp s = Some ex" and "drop (length ex) s \<noteq> []"
  shows "number_exp (s @ t) = Some ex"
proof (cases s)
  case (Cons c cs)
  show ?thesis
  proof (cases "c = CHR ''e'' \<or> c = CHR ''E''")
    case True
    define sg where "sg = (case cs of [] \<Rightarrow> [] | d # _ \<Rightarrow> if d = CHR ''+'' \<or> d = CHR ''-'' then [d] else [])"
    have ex: "takeWhile is_dec_digit (drop (length sg) cs) \<noteq> []"
      "ex = c # sg @ takeWhile is_dec_digit (drop (length sg) cs)"
      using assms(1) True by (auto simp: Cons number_exp_def Let_def sg_def split: if_splits)
    have cs: "cs \<noteq> []" "length sg \<le> length cs" using ex(1) by (cases cs; auto simp: sg_def)+
    have "takeWhile is_dec_digit (drop (length sg) (cs @ t)) = takeWhile is_dec_digit (drop (length sg) cs)"
      using assms(2) cs(2) by (simp add: Cons ex(2) takeWhile_digits_append add.commute)
    moreover have "(case cs @ t of [] \<Rightarrow> [] | d # _ \<Rightarrow> if d = CHR ''+'' \<or> d = CHR ''-'' then [d] else []) = sg"
      using cs(1) by (cases cs) (auto simp: sg_def)
    ultimately show ?thesis using ex True by (simp add: Cons number_exp_def Let_def)
  qed (use assms Cons in \<open>simp add: number_exp_def\<close>)
qed (use assms in \<open>simp add: number_exp_def\<close>)

lemma json_number_append:
  assumes "json_number s = Some (l, r)" and "r \<noteq> []"
  shows "json_number (s @ t) = Some (l, r @ t)"
proof -
  define sg where "sg = (if s \<noteq> [] \<and> hd s = CHR ''-'' then ''-'' else [])"
  define ip where "ip = number_int (drop (length sg) s)"
  define s2 where "s2 = drop (length (sg @ ip)) s"
  obtain fr ex where ip: "ip \<noteq> []" and fr: "number_frac s2 = Some fr"
    and ex: "number_exp (drop (length fr) s2) = Some ex"
    and l: "l = sg @ ip @ fr @ ex" and r: "r = drop (length (fr @ ex)) s2"
    using assms(1) unfolding json_number_def Let_def sg_def [symmetric] ip_def [symmetric] s2_def [symmetric]
    by (auto split: if_splits option.splits)
  have ne: "s \<noteq> []" "s2 \<noteq> []" "drop (length fr) s2 \<noteq> []" "drop (length ex) (drop (length fr) s2) \<noteq> []"
    using assms(2) r ip by (auto simp: ip_def number_int_def Let_def add.commute split: if_splits)
  have len: "length (sg @ ip) < length s" using ne(2) by (simp add: s2_def)
  have "(if s @ t \<noteq> [] \<and> hd (s @ t) = CHR ''-'' then ''-'' else []) = sg"
    using ne(1) by (simp add: sg_def)
  moreover have "number_int (drop (length sg) (s @ t)) = ip"
    using number_int_append [of "drop (length sg) s" t] ne(2) len by (simp add: ip_def s2_def add.commute)
  moreover have "drop (length (sg @ ip)) (s @ t) = s2 @ t" using len by (simp add: s2_def)
  moreover have "number_frac (s2 @ t) = Some fr" using number_frac_append [OF fr ne(3)] .
  moreover have "number_exp (drop (length fr) s2 @ t) = Some ex" using number_exp_append [OF ex ne(4)] .
  ultimately show ?thesis
    using ip ne l r unfolding json_number_def Let_def by simp
qed

lemma json_word_append: "json_word w v s = Some (u, r) \<Longrightarrow> json_word w v (s @ t) = Some (u, r @ t)"
  by (auto simp: json_word_def split: if_splits)
    (metis append_Nil2 append_take_drop_id diff_is_0_eq' length_take min_less_iff_conj nle_le take0 take_all_iff take_append)+

definition is_num :: "json \<Rightarrow> bool" where
  "is_num v \<longleftrightarrow> (case v of JNum _ \<Rightarrow> True | _ \<Rightarrow> False)"

lemma json_append:
  "json_value f s = Some (v, r) \<Longrightarrow> is_num v \<longrightarrow> r \<noteq> [] \<Longrightarrow> json_value f (s @ t) = Some (v, r @ t)"
  "json_elems f s = Some (vs, r) \<Longrightarrow> json_elems f (s @ t) = Some (vs, r @ t)"
  "json_members f s = Some (ms, r) \<Longrightarrow> json_members f (s @ t) = Some (ms, r @ t)"
proof (induction f s and f s and f s arbitrary: v r and vs r and ms r
    rule: json_value_json_elems_json_members.induct)
  case (2 f s)
  then obtain c cs where s: "skip_ws s = c # cs" by (auto split: list.splits)
  show ?case
  proof (cases "c = CHR ''{'' \<or> c = CHR ''[''")
    case True
    with "2.prems"(1) obtain d ds where d: "skip_ws cs = d # ds"
      by (cases "skip_ws cs") (auto simp: s simp del: dropWhile_eq_Nil_conv)
    from True "2.IH"(1) [OF s _ d] "2.IH"(2) [OF s _ _ d] "2.prems"(1)
    show ?thesis by (auto simp: s d skip_ws_append split: if_splits)
  next
    case False
    with "2.prems" json_str_append [of cs _ _ t] json_word_append [of _ _ "c # cs" _ _ t]
      json_number_append [of "c # cs" _ _ t]
    show ?thesis by (auto simp: s skip_ws_append is_num_def split: if_splits)
  qed
next
  case (4 f s)
  then obtain v u c cs where v: "json_value f s = Some (v, u)" and c: "skip_ws u = c # cs"
    by (auto split: option.splits list.splits)
  then have "u \<noteq> []" by auto
  with "4.IH"(1) [OF v] have "json_value f (s @ t) = Some (v, u @ t)" by simp
  with "4.IH"(2) [OF v refl c] "4.prems" show ?case
    by (auto simp: v c skip_ws_append split: if_splits)
next
  case (6 f s)
  then obtain qs k u cs v u2 d ds where q: "skip_ws s = dquote # qs" and k: "json_str qs = Some (k, u)"
    and c: "skip_ws u = CHR '':'' # cs" and v: "json_value f cs = Some (v, u2)" and d: "skip_ws u2 = d # ds"
    by (auto split: option.splits list.splits if_splits)
  then have "u2 \<noteq> []" by auto
  with "6.IH"(1) [OF q _ k refl c _ v] have "json_value f (cs @ t) = Some (v, u2 @ t)" by simp
  with "6.IH"(2) [OF q _ k refl c _ v refl d] "6.prems" json_str_append [OF k, of t] show ?case
    by (auto simp: q k c v d skip_ws_append split: if_splits)
qed simp_all

text \<open>No proper prefix of a printed object or array parses: a torn write is recognised.\<close>

lemma json_parse_prefix:
  assumes ok: "json_ok v" and p: "json_print v = p @ t" "t \<noteq> []"
    and br: "case v of JObj _ \<Rightarrow> True | JArr _ \<Rightarrow> True | _ \<Rightarrow> False"
  shows "json_parse p = None"
proof (rule ccontr)
  assume "json_parse p \<noteq> None"
  define f where "f = Suc (2 * length (json_print v))"
  have "2 * length p < f" by (simp add: f_def p(1))
  from json_parse_fuel [OF this] \<open>json_parse p \<noteq> None\<close> obtain w r
    where w: "json_value f p = Some (w, r)" and r: "skip_ws r = []"
    by (auto split: option.splits prod.splits if_splits)
  have full: "json_value f (p @ t) = Some (json_coerce v, [])"
    using json_value_print_all(1) [OF ok, of "[]" f] by (simp add: p(1) f_def del: json_value.simps)
  have "\<not> is_num w"
  proof
    assume num: "is_num w"
    obtain c cs where pv: "json_print v = c # cs" and c: "c = CHR ''{'' \<or> c = CHR ''[''"
      using br by (cases v) auto
    have "p \<noteq> []" using w by (cases f) auto
    then obtain ps where "p = c # ps" using p(1) pv by (cases p) auto
    then show False
      using w c num f_def by (auto simp: is_num_def split: list.splits if_splits)
  qed
  then have "json_value f (p @ t) = Some (w, r @ t)" using json_append(1) [OF w] by simp
  with full p(2) show False by simp
qed

lemma json_quote_printable: "c \<in> set (json_quote s) \<Longrightarrow> 0x20 \<le> (of_char c :: nat)"
  by (auto simp: json_quote_def dest: json_esc_printable)

lemma int_lit_printable: "int_lit l \<Longrightarrow> c \<in> set l \<Longrightarrow> 0x20 \<le> (of_char c :: nat)"
  by (cases l) (auto simp: int_lit_def Let_def is_dec_digit_def list_all_iff split: if_splits)

lemma json_print_printable:
  "json_ok v \<Longrightarrow> c \<in> set (json_print v) \<Longrightarrow> 0x20 \<le> (of_char c :: nat)"
  "list_all json_ok vs \<Longrightarrow> c \<in> set (print_elems vs) \<Longrightarrow> 0x20 \<le> (of_char c :: nat)"
  "list_all (\<lambda>(k, v). json_ok v) ms \<Longrightarrow> c \<in> set (print_members ms) \<Longrightarrow> 0x20 \<le> (of_char c :: nat)"
  by (induction v and vs and ms rule: json_print_print_elems_print_members.induct)
    (auto simp: int_lit_printable json_quote_printable split: if_splits)

end
