(* ===== verification/Wal.thy ===== *)
theory Wal
  imports Json
begin

text \<open>
  The write-ahead log, \<^verbatim>\<open>internal/wal/wal.go\<close>: newline-delimited JSON in one file.

  The file system is a map from paths to contents (\<open>fs\<close>).  An \<open>os.File\<close> opened in append mode writes
  at the end of the content.  What the environment decides (an \<open>os\<close> call fails, a write stops after
  some bytes) is an argument of the operation.  \<open>wal\<close> is the struct \<^verbatim>\<open>WAL\<close>: its path, whether the file
  is still open, and whether its \<^verbatim>\<open>json.Encoder\<close> has failed (an encoder whose write failed refuses
  every later \<^verbatim>\<open>Encode\<close>; \<^verbatim>\<open>Truncate\<close> makes a new one).

  Reading models \<^verbatim>\<open>bufio.Scanner\<close>: lines end at a newline, a trailing carriage return is removed,
  and a line of more than 65535 bytes stops the scan, which \<^verbatim>\<open>ReadAll\<close> does not report.
\<close>

type_synonym fs = "(string, string) gomap"

datatype io = IoOk | IoErr

datatype write_io = WriteOk | WriteFails nat | SyncFails

record wal_entry =
  wTerm :: uint64
  wVersion :: uint64
  wOp :: string
  wKey :: string
  wValue :: string

record wal =
  wPath :: string
  wOpen :: bool
  wEncErr :: bool

datatype wal_error = WalOpenErr | WalEncodeErr | WalSyncErr | WalTruncateErr | WalReadErr

abbreviation newline :: char where "newline \<equiv> CHR 0x0A"

definition fcontent :: "fs \<Rightarrow> string \<Rightarrow> string" where
  "fcontent fs p = (case gm_get fs p of None \<Rightarrow> [] | Some s \<Rightarrow> s)"

section \<open>Encoding\<close>

definition wal_json :: "wal_entry \<Rightarrow> json" where
  "wal_json e = JObj ([(''term'', JNum (dec (unat (wTerm e)))), (''version'', JNum (dec (unat (wVersion e)))),
      (''op'', JStr (wOp e)), (''key'', JStr (wKey e))]
     @ (if wValue e = [] then [] else [(''value'', JStr (wValue e))]))"

definition wal_line :: "wal_entry \<Rightarrow> string" where
  "wal_line e = json_print (wal_json e) @ [newline]"

definition wal_zero :: wal_entry where
  "wal_zero = \<lparr>wTerm = 0, wVersion = 0, wOp = [], wKey = [], wValue = []\<rparr>"

text \<open>Storing one member of the decoded object into the struct; \<open>null\<close> leaves a field as it is.\<close>

definition wal_store :: "wal_entry \<Rightarrow> string \<times> json \<Rightarrow> wal_entry option" where
  "wal_store e m = (case m of (k, v) \<Rightarrow>
     (case field_name [''term'', ''version'', ''op'', ''key'', ''value''] k of
        None \<Rightarrow> Some e
      | Some f \<Rightarrow>
          (case v of
             JNull \<Rightarrow> Some e
           | JNum l \<Rightarrow>
               if f = ''term'' then map_option (\<lambda>n. e\<lparr>wTerm := n\<rparr>) (parse_uint64 l)
               else if f = ''version'' then map_option (\<lambda>n. e\<lparr>wVersion := n\<rparr>) (parse_uint64 l)
               else None
           | JStr s \<Rightarrow>
               if f = ''op'' then Some (e\<lparr>wOp := s\<rparr>)
               else if f = ''key'' then Some (e\<lparr>wKey := s\<rparr>)
               else if f = ''value'' then Some (e\<lparr>wValue := s\<rparr>)
               else None
           | _ \<Rightarrow> None)))"

fun wal_stores :: "wal_entry \<Rightarrow> (string \<times> json) list \<Rightarrow> wal_entry option" where
  "wal_stores e [] = Some e"
| "wal_stores e (m # ms) = Option.bind (wal_store e m) (\<lambda>e'. wal_stores e' ms)"

definition wal_unmarshal :: "string \<Rightarrow> wal_entry option" where
  "wal_unmarshal line = (case json_parse line of
      Some (JObj ms) \<Rightarrow> wal_stores wal_zero ms
    | Some JNull \<Rightarrow> Some wal_zero
    | _ \<Rightarrow> None)"

section \<open>Operations\<close>

definition wal_Open :: "io \<Rightarrow> string \<Rightarrow> fs \<Rightarrow> fs \<times> (wal_error + wal)" where
  "wal_Open io path fs =
     (if io = IoErr then (fs, Inl WalOpenErr)
      else (if gm_get fs path = None then gm_put path [] fs else fs,
            Inr \<lparr>wPath = path, wOpen = True, wEncErr = False\<rparr>))"

definition wal_Append :: "write_io \<Rightarrow> wal \<Rightarrow> wal_entry \<Rightarrow> fs \<Rightarrow> fs \<times> wal \<times> wal_error option" where
  "wal_Append io w e fs =
     (if wEncErr w then (fs, w, Some WalEncodeErr)
      else if \<not> wOpen w then (fs, w\<lparr>wEncErr := True\<rparr>, Some WalEncodeErr)
      else case io of
        WriteFails n \<Rightarrow>
          (gm_put (wPath w) (fcontent fs (wPath w) @ take n (wal_line e)) fs, w\<lparr>wEncErr := True\<rparr>, Some WalEncodeErr)
      | SyncFails \<Rightarrow> (gm_put (wPath w) (fcontent fs (wPath w) @ wal_line e) fs, w, Some WalSyncErr)
      | WriteOk \<Rightarrow> (gm_put (wPath w) (fcontent fs (wPath w) @ wal_line e) fs, w, None))"

definition wal_Truncate :: "io \<Rightarrow> wal \<Rightarrow> fs \<Rightarrow> fs \<times> wal \<times> wal_error option" where
  "wal_Truncate io w fs =
     (if \<not> wOpen w \<or> io = IoErr then (fs, w, Some WalTruncateErr)
      else (gm_put (wPath w) [] fs, w\<lparr>wEncErr := False\<rparr>, None))"

definition wal_Close :: "wal \<Rightarrow> wal" where
  "wal_Close w = w\<lparr>wOpen := False\<rparr>"

definition drop_cr :: "string \<Rightarrow> string" where
  "drop_cr l = (if l \<noteq> [] \<and> last l = CHR 0x0D then butlast l else l)"

function wal_scan :: "string \<Rightarrow> wal_entry list" where
  "wal_scan s =
     (if s = [] then []
      else let line = takeWhile (\<lambda>c. c \<noteq> newline) s; rest = drop (Suc (length line)) s in
        if 65535 < length line then []
        else if drop_cr line = [] then wal_scan rest
        else case wal_unmarshal (drop_cr line) of
          None \<Rightarrow> []
        | Some e \<Rightarrow> e # wal_scan rest)"
  by pat_completeness auto
termination
  by (relation "measure length") auto

definition wal_ReadAll :: "io \<Rightarrow> string \<Rightarrow> fs \<Rightarrow> wal_error + wal_entry list" where
  "wal_ReadAll io path fs =
     (if io = IoErr then Inl WalReadErr
      else case gm_get fs path of None \<Rightarrow> Inr [] | Some s \<Rightarrow> Inr (wal_scan s))"

declare wal_scan.simps [simp del]

section \<open>Round trip\<close>

text \<open>
  An entry is \<^emph>\<open>storable\<close> when its strings are valid UTF-8 and its line fits into the scanner's buffer.
  Nothing in the code checks this: the encoder replaces other bytes (\<open>wal_coerce\<close>), and the scanner stops
  at a longer line.  \<open>wal_holds w fs es\<close>: the log is open, no write to it has failed, and its file
  consists of exactly the lines of the storable entries \<open>es\<close>.
\<close>

definition wal_ok :: "wal_entry \<Rightarrow> bool" where
  "wal_ok e \<longleftrightarrow> utf8_valid (wOp e) \<and> utf8_valid (wKey e) \<and> utf8_valid (wValue e) \<and>
     length (json_print (wal_json e)) \<le> 65535"

definition wal_coerce :: "wal_entry \<Rightarrow> wal_entry" where
  "wal_coerce e = e\<lparr>wOp := utf8_coerce (wOp e), wKey := utf8_coerce (wKey e), wValue := utf8_coerce (wValue e)\<rparr>"

definition wal_holds :: "wal \<Rightarrow> fs \<Rightarrow> wal_entry list \<Rightarrow> bool" where
  "wal_holds w fs es \<longleftrightarrow> wOpen w \<and> \<not> wEncErr w \<and> list_all wal_ok es \<and>
     gm_get fs (wPath w) = Some (concat (map wal_line es))"

lemma dec_0: "dec 0 = ''0''"
  by (simp add: dec.simps [of 0] digit_def char_of_eq_iff)

lemma dec_first: "hd (dec n) = CHR ''0'' \<Longrightarrow> dec n = ''0''"
proof (induction n rule: dec.induct)
  case (1 n)
  show ?case
  proof (cases "n < 10")
    case True
    then show ?thesis using "1.prems" by (auto simp: dec.simps [of n] digit_def char_of_eq_iff)
  next
    case False
    then have "hd (dec n) = hd (dec (n div 10))" by (simp add: dec.simps [of n])
    with False 1 have "dec (n div 10) = ''0''" by simp
    then have "n div 10 = 0" using dec_inject [of "n div 10" 0] by (simp add: dec_0)
    with False show ?thesis by simp
  qed
qed

lemma int_lit_dec [simp]: "int_lit (dec n)"
proof -
  have "hd (dec n) \<noteq> CHR ''-''"
    using dec_digits [of n] by (cases "dec n") (auto simp: is_dec_digit_def)
  then show ?thesis
    using dec_first [of n] by (simp add: int_lit_def dec_digits)
qed

lemma parse_uint64_dec [simp]: "parse_uint64 (dec (unat n)) = Some n"
  using unsigned_less [of n, where 'a = nat] by (simp add: parse_uint64_def)

lemma json_ok_wal [simp]: "json_ok (wal_json e)"
  by (simp add: wal_json_def)

lemma utf8_coerce_Nil [simp]: "utf8_coerce [] = []"
  by (simp add: utf8_coerce.simps)

lemma wal_unmarshal_coerce: "wal_unmarshal (json_print (wal_json e)) = Some (wal_coerce e)"
  by (cases e) (simp add: wal_unmarshal_def json_parse_print, simp add: wal_json_def wal_coerce_def wal_store_def
      field_name_def wal_zero_def utf8_coerce_ascii)

lemma wal_coerce_eq: "wal_coerce e = e \<longleftrightarrow> utf8_valid (wOp e) \<and> utf8_valid (wKey e) \<and> utf8_valid (wValue e)"
  by (cases e) (simp add: wal_coerce_def utf8_valid_def)

lemma wal_ok_iff: "wal_ok e \<longleftrightarrow> wal_coerce e = e \<and> length (json_print (wal_json e)) \<le> 65535"
  by (simp add: wal_ok_def wal_coerce_eq)

lemma wal_print_chars: "c \<in> set (json_print (wal_json e)) \<Longrightarrow> c \<noteq> newline \<and> c \<noteq> CHR 0x0D"
  using json_print_printable(1) [OF json_ok_wal] by fastforce

lemma wal_print_Cons: "\<exists>cs. json_print (wal_json e) = CHR ''{'' # cs"
  by (simp add: wal_json_def)

lemma drop_cr_prefix: "json_print (wal_json e) = p @ t \<Longrightarrow> drop_cr p = p"
  using wal_print_chars [of "last p" e] by (cases "p = []") (auto simp: drop_cr_def)

lemma wal_scan_any_line:
  "wal_scan (wal_line e @ s) =
     (if 65535 < length (json_print (wal_json e)) then [] else wal_coerce e # wal_scan s)"
proof -
  define l where "l = json_print (wal_json e)"
  have tw: "takeWhile (\<lambda>c. c \<noteq> newline) (l @ newline # s) = l"
    using wal_print_chars by (subst takeWhile_append2) (auto simp: l_def)
  have "l \<noteq> []" "drop_cr l = l" "wal_unmarshal l = Some (wal_coerce e)"
    using wal_print_Cons [of e] drop_cr_prefix [of e l "[]"] wal_unmarshal_coerce [of e] by (auto simp: l_def)
  then show ?thesis
    unfolding wal_line_def l_def [symmetric] append_assoc append.simps
    by (subst wal_scan.simps) (simp add: tw)
qed

lemma wal_scan_line: "wal_ok e \<Longrightarrow> wal_scan (wal_line e @ s) = e # wal_scan s"
  by (simp add: wal_scan_any_line wal_ok_iff)

lemma wal_scan_lines: "list_all wal_ok es \<Longrightarrow> wal_scan (concat (map wal_line es) @ s) = es @ wal_scan s"
  by (induction es) (simp_all add: wal_scan_line)

lemma wal_scan_Nil [simp]: "wal_scan [] = []"
  by (simp add: wal_scan.simps)

text \<open>Entries of up to about ten thousand bytes are storable whatever characters need escaping.\<close>

lemma wal_json_length:
  "length (json_print (wal_json e)) \<le> 500 + 6 * (length (wOp e) + length (wKey e) + length (wValue e))"
  using json_esc_length [of "wOp e"] json_esc_length [of "wKey e"] json_esc_length [of "wValue e"]
    json_esc_length [of "''term''"] json_esc_length [of "''version''"] json_esc_length [of "''op''"]
    json_esc_length [of "''key''"] json_esc_length [of "''value''"]
    dec_length_uint64 [of "wTerm e"] dec_length_uint64 [of "wVersion e"]
  by (simp add: wal_json_def json_quote_def)

lemma wal_json_length_ge: "length (wValue e) \<le> length (json_print (wal_json e))"
  using json_esc_length_ge [of "wValue e"] by (simp add: wal_json_def json_quote_def)

lemma wal_ok_size:
  assumes "utf8_valid (wOp e)" "utf8_valid (wKey e)" "utf8_valid (wValue e)"
    and "length (wOp e) + length (wKey e) + length (wValue e) \<le> 10000"
  shows "wal_ok e"
  using assms wal_json_length [of e] by (simp add: wal_ok_def)

text \<open>A line without its newline is read as the entry when it is complete, and as nothing otherwise.\<close>

lemma wal_scan_torn:
  assumes pt: "json_print (wal_json e) = p @ t"
  shows "wal_scan p = (if t = [] \<and> length p \<le> 65535 then [wal_coerce e] else [])"
proof -
  have tw: "takeWhile (\<lambda>c. c \<noteq> newline) p = p"
    using wal_print_chars [of _ e] pt by (auto intro: takeWhile_eq_all_conv [THEN iffD2])
  have un: "wal_unmarshal p = (if t = [] then Some (wal_coerce e) else None)"
    using wal_unmarshal_coerce [of e] json_parse_prefix [OF json_ok_wal pt]
    by (auto simp: pt) (simp add: wal_json_def wal_unmarshal_def)
  show ?thesis
    using un wal_print_Cons [of e] pt
    by (auto simp: wal_scan.simps [of p] tw drop_cr_prefix [OF pt])
qed

section \<open>The contract of a write-ahead log\<close>

text \<open>
  What the rest of the node relies on.  \<open>holds w fs es\<close> says that the log has stored exactly \<open>es\<close>;
  an append that reports success has stored the entry, and one that fails in any way (a partial
  write, a failed sync) leaves a file from which the acknowledged entries are still read.
\<close>

locale write_ahead_log =
  fixes holds :: "'w \<Rightarrow> fs \<Rightarrow> 'e list \<Rightarrow> bool"
    and path :: "'w \<Rightarrow> string"
    and ok :: "'e \<Rightarrow> bool"
    and append :: "write_io \<Rightarrow> 'w \<Rightarrow> 'e \<Rightarrow> fs \<Rightarrow> fs \<times> 'w \<times> wal_error option"
    and trunc :: "io \<Rightarrow> 'w \<Rightarrow> fs \<Rightarrow> fs \<times> 'w \<times> wal_error option"
    and readall :: "io \<Rightarrow> string \<Rightarrow> fs \<Rightarrow> wal_error + 'e list"
  assumes read: "holds w fs es \<Longrightarrow> readall IoOk (path w) fs = Inr es"
    and append_ok: "\<lbrakk>holds w fs es; ok e; append io w e fs = (fs', w', None)\<rbrakk> \<Longrightarrow> holds w' fs' (es @ [e])"
    and append_err: "\<lbrakk>holds w fs es; ok e; append io w e fs = (fs', w', Some err)\<rbrakk>
        \<Longrightarrow> readall IoOk (path w) fs' \<in> {Inr es, Inr (es @ [e])}"
    and append_path: "append io w e fs = (fs', w', r) \<Longrightarrow> path w' = path w"
    and append_frame: "append io w e fs = (fs', w', r) \<Longrightarrow> p \<noteq> path w \<Longrightarrow> gm_get fs' p = gm_get fs p"
    and trunc_ok: "\<lbrakk>holds w fs es; trunc t w fs = (fs', w', None)\<rbrakk> \<Longrightarrow> holds w' fs' []"
    and trunc_err: "trunc t w fs = (fs', w', Some err) \<Longrightarrow> fs' = fs \<and> w' = w"
    and trunc_path: "trunc t w fs = (fs', w', r) \<Longrightarrow> path w' = path w"
    and trunc_frame: "trunc t w fs = (fs', w', r) \<Longrightarrow> p \<noteq> path w \<Longrightarrow> gm_get fs' p = gm_get fs p"
    and frame: "holds w fs es \<Longrightarrow> gm_get fs' (path w) = gm_get fs (path w) \<Longrightarrow> holds w fs' es"
begin

text \<open>Appending a list of entries, stopping at the first error; the result counts the acknowledged ones.\<close>

fun appends :: "(write_io \<times> 'e) list \<Rightarrow> 'w \<Rightarrow> fs \<Rightarrow> fs \<times> 'w \<times> nat" where
  "appends [] w fs = (fs, w, 0)"
| "appends ((io, e) # es) w fs = (case append io w e fs of
      (fs', w', None) \<Rightarrow> (case appends es w' fs' of (fs'', w'', n) \<Rightarrow> (fs'', w'', Suc n))
    | (fs', w', Some _) \<Rightarrow> (fs', w', 0))"

lemma appends_read:
  assumes "holds w fs es" and "list_all ok (map snd xs)" and "appends xs w fs = (fs', w', n)"
  shows "readall IoOk (path w) fs' \<in> {Inr (es @ map snd (take n xs)), Inr (es @ map snd (take (Suc n) xs))}"
  using assms
proof (induction xs arbitrary: w fs es fs' w' n)
  case Nil
  then show ?case by (simp add: read)
next
  case (Cons x xs)
  obtain io e where x: "x = (io, e)" by fastforce
  obtain fs1 w1 r where a: "append io w e fs = (fs1, w1, r)" by (metis prod_cases3)
  show ?case
  proof (cases r)
    case None
    with Cons.prems x a append_ok have "holds w1 fs1 (es @ [e])" by auto
    moreover obtain n' where "appends xs w1 fs1 = (fs', w', n')" "n = Suc n'"
      using Cons.prems(3) x a None by (auto split: prod.splits)
    ultimately show ?thesis
      using Cons.IH Cons.prems(2) append_path [OF a] x by fastforce
  next
    case (Some err)
    with Cons.prems x a show ?thesis
      using append_err [of w fs es e io fs1 w1 err] by auto
  qed
qed

end

lemma wal_Append_err_read_any:
  assumes h: "wal_holds w fs es" and a: "wal_Append io w e fs = (fs', w', Some err)"
  shows "wal_ReadAll IoOk (wPath w) fs' \<in> {Inr es, Inr (es @ [wal_coerce e])}"
proof (cases io)
  case (WriteFails n)
  let ?l = "json_print (wal_json e)"
  have "wal_scan (concat (map wal_line es) @ take n (wal_line e)) \<in> {es, es @ [wal_coerce e]}"
  proof (cases "n \<le> length ?l")
    case True
    then have "?l = take n (wal_line e) @ drop n ?l" by (simp add: wal_line_def)
    with h wal_scan_torn [of e] show ?thesis by (auto simp: wal_holds_def wal_scan_lines)
  next
    case False
    then have "take n (wal_line e) = wal_line e @ []" by (simp add: wal_line_def)
    with h wal_scan_any_line [of e "[]"] show ?thesis by (auto simp: wal_holds_def wal_scan_lines)
  qed
  with h a WriteFails show ?thesis
    by (auto simp: wal_Append_def wal_holds_def wal_ReadAll_def fcontent_def gomap_simps)
qed (use h a wal_scan_any_line [of e "[]"] in
    \<open>auto simp: wal_Append_def wal_holds_def wal_ReadAll_def fcontent_def gomap_simps wal_scan_lines split: if_splits\<close>)

lemma wal_Append_err_read:
  "wal_holds w fs es \<Longrightarrow> wal_ok e \<Longrightarrow> wal_Append io w e fs = (fs', w', Some err) \<Longrightarrow>
   wal_ReadAll IoOk (wPath w) fs' \<in> {Inr es, Inr (es @ [e])}"
  using wal_Append_err_read_any by (fastforce simp: wal_ok_iff)

text \<open>What is read back after an append that returned nil, followed by anything.\<close>

lemma wal_Append_ok_file:
  "wal_holds w fs es \<Longrightarrow> wal_Append io w e fs = (fs', w', None) \<Longrightarrow>
   w' = w \<and> gm_get fs' (wPath w) = Some (concat (map wal_line es) @ wal_line e)"
  by (auto simp: wal_Append_def wal_holds_def fcontent_def gomap_simps split: if_splits write_io.splits)

lemma wal_Append_ok_read:
  assumes h: "wal_holds w fs es" and a: "wal_Append io w e fs = (fs', w', None)"
  shows "wal_ReadAll IoOk (wPath w) fs' =
    Inr (if 65535 < length (json_print (wal_json e)) then es else es @ [wal_coerce e])"
  using h wal_Append_ok_file [OF h a] wal_scan_any_line [of e "[]"]
  by (simp add: wal_holds_def wal_ReadAll_def wal_scan_lines)

interpretation wl: write_ahead_log wal_holds wPath wal_ok wal_Append wal_Truncate wal_ReadAll
proof unfold_locales
  fix w fs es
  assume "wal_holds w fs es"
  then show "wal_ReadAll IoOk (wPath w) fs = Inr es"
    using wal_scan_lines [of es "[]"] by (simp add: wal_holds_def wal_ReadAll_def)
next
  fix w fs es e io fs' w' err
  assume "wal_holds w fs es" "wal_ok e" "wal_Append io w e fs = (fs', w', Some err)"
  then show "wal_ReadAll IoOk (wPath w) fs' \<in> {Inr es, Inr (es @ [e])}"
    by (rule wal_Append_err_read)
qed (auto simp: wal_Append_def wal_Truncate_def wal_holds_def fcontent_def gomap_simps
    split: if_splits write_io.splits)

lemma wal_scan_brace: "wal_scan (CHR ''{'' # wal_line e) = []"
proof -
  let ?l = "CHR ''{'' # json_print (wal_json e)"
  have tw: "takeWhile (\<lambda>c. c \<noteq> newline) (?l @ [newline]) = ?l"
    using wal_print_chars [of _ e] by (subst takeWhile_append2) auto
  obtain cs where cs: "json_print (wal_json e) = CHR ''{'' # cs" using wal_print_Cons by blast
  have "json_parse ?l = None"
    by (simp add: json_parse_def cs)
  moreover have "drop_cr ?l = ?l"
    using drop_cr_prefix [of e _ "[]"] by (auto simp: drop_cr_def split: if_splits)
  ultimately show ?thesis
    using tw unfolding wal_line_def append_Cons [symmetric] by (subst wal_scan.simps) (simp add: wal_unmarshal_def Let_def)
qed

section \<open>Properties\<close>



text \<open>
  Property C0.  A line that is too long hides the rest of the log: after an append of an entry whose
  line has more than 65535 bytes has returned nil, neither that entry nor any entry appended after it
  is read back, and the reader reports no error.
\<close>

theorem long_append_lost:
  assumes "wal_holds w fs es"
    and "wal_Append io w e fs = (fs1, w1, None)" and "65535 < length (json_print (wal_json e))"
    and "wal_Append io' w1 e' fs1 = (fs2, w2, r)"
  shows "wal_ReadAll IoOk (wPath w) fs2 = Inr es"
proof -
  have f: "w1 = w" "gm_get fs1 (wPath w) = Some (concat (map wal_line es) @ wal_line e)"
    using wal_Append_ok_file [OF assms(1,2)] by simp_all
  have "\<exists>s. gm_get fs2 (wPath w) = Some (concat (map wal_line es) @ wal_line e @ s)"
    using assms(4) f by (auto simp: wal_Append_def fcontent_def gomap_simps split: if_splits write_io.splits)
  with assms(1,3) show ?thesis
    by (auto simp: wal_holds_def wal_ReadAll_def wal_scan_lines wal_scan_any_line)
qed

theorem long_append_lost_witness:
  "let w = \<lparr>wPath = ''wal.jsonl'', wOpen = True, wEncErr = False\<rparr>;
       e = \<lparr>wTerm = 1, wVersion = 1, wOp = ''put'', wKey = ''k'', wValue = replicate 70000 CHR ''x''\<rparr>;
       e' = \<lparr>wTerm = 1, wVersion = 2, wOp = ''put'', wKey = ''l'', wValue = ''y''\<rparr>;
       (fs1, w1, r1) = wal_Append WriteOk w e [(''wal.jsonl'', [])];
       (fs2, w2, r2) = wal_Append WriteOk w1 e' fs1
   in r1 = None \<and> r2 = None \<and> wal_ReadAll IoOk (wPath w) fs2 = Inr []"
proof -
  let ?w = "\<lparr>wPath = ''wal.jsonl'', wOpen = True, wEncErr = False\<rparr>"
  let ?e = "\<lparr>wTerm = 1, wVersion = 1, wOp = ''put'', wKey = ''k'', wValue = replicate 70000 CHR ''x''\<rparr>"
  let ?e' = "\<lparr>wTerm = 1, wVersion = 2, wOp = ''put'', wKey = ''l'', wValue = ''y''\<rparr>"
  have h: "wal_holds ?w [(''wal.jsonl'', [])] []" by (simp add: wal_holds_def)
  have "65535 < length (json_print (wal_json ?e))"
    by (rule less_le_trans [OF _ wal_json_length_ge]) simp
  then show ?thesis
    using long_append_lost [OF h, of WriteOk ?e _ ?w WriteOk ?e'] by (auto simp: Let_def wal_Append_def)
qed

text \<open>
  The limit of the recovery from torn writes: after a crash that left one byte of a
  line, the log is reopened and appended to on the same line.  The next append returns nil and its
  entry is never read back.
\<close>

theorem torn_append_lost:
  assumes "wal_holds w fs es"
    and "wal_Append (WriteFails 1) w e fs = (fs1, w1, r1)"
    and "wal_Open IoOk (wPath w) fs1 = (fs2, Inr w2)"
    and "wal_Append WriteOk w2 e' fs2 = (fs3, w3, r3)"
  shows "r3 = None \<and> wal_ReadAll IoOk (wPath w) fs3 = Inr es"
proof -
  obtain cs where "wal_line e = CHR ''{'' # cs" using wal_print_Cons [of e] by (auto simp: wal_line_def)
  with assms(1,2) have 1: "gm_get fs1 (wPath w) = Some (concat (map wal_line es) @ ''{'')"
    by (auto simp: wal_Append_def wal_holds_def fcontent_def gomap_simps)
  with assms(3) have 2: "fs2 = fs1 \<and> w2 = \<lparr>wPath = wPath w, wOpen = True, wEncErr = False\<rparr>"
    by (simp add: wal_Open_def)
  with assms(4) 1 have "r3 = None \<and> gm_get fs3 (wPath w) = Some (concat (map wal_line es) @ CHR ''{'' # wal_line e')"
    by (auto simp: wal_Append_def fcontent_def gomap_simps)
  with assms(1) show ?thesis
    by (simp add: wal_ReadAll_def wal_holds_def wal_scan_lines wal_scan_brace)
qed

theorem torn_append_lost_witness:
  "let w = \<lparr>wPath = ''wal.jsonl'', wOpen = True, wEncErr = False\<rparr>;
       e = \<lparr>wTerm = 1, wVersion = 7, wOp = ''put'', wKey = ''k'', wValue = ''v''\<rparr>;
       (fs1, w1, r1) = wal_Append (WriteFails 1) w e [(''wal.jsonl'', [])];
       (fs3, w3, r3) = wal_Append WriteOk w e fs1
   in r3 = None \<and> wal_ReadAll IoOk (wPath w) fs3 = Inr []"
proof -
  let ?w = "\<lparr>wPath = ''wal.jsonl'', wOpen = True, wEncErr = False\<rparr>"
  have h: "wal_holds ?w [(''wal.jsonl'', [])] []" by (simp add: wal_holds_def)
  show ?thesis
    using torn_append_lost [OF h, of "\<lparr>wTerm = 1, wVersion = 7, wOp = ''put'', wKey = ''k'', wValue = ''v''\<rparr>"]
    by (auto simp: Let_def wal_Append_def wal_Open_def)
qed

end
