(* ===== verification/Snapshot.thy ===== *)
theory Snapshot
  imports Wal
begin

text \<open>
  Snapshot files, \<^verbatim>\<open>internal/snapshot/snapshot.go\<close>.  \<open>snap_Save\<close> writes the JSON encoding into a
  temporary file, syncs it and renames it over the target.  The environment decides at which of these
  steps the call stops (\<open>save_io\<close>); \<^verbatim>\<open>os.Rename\<close> is atomic.  A crash during \<^verbatim>\<open>Save\<close> leaves what the
  corresponding failing call leaves.
\<close>

record snapshot =
  sFormat :: int
  sTerm :: uint64
  sVersion :: uint64
  sKV :: "(string, string) gomap"

datatype save_io = SaveOk | SaveCreateFails | SaveWriteFails nat | SaveSyncFails | SaveCloseFails
  | SaveRenameFails bool

datatype snap_error = SnapFormat | SnapCreate | SnapWrite | SnapSync | SnapClose | SnapRename
  | SnapRead | SnapParse

definition CurrentFormatVersion :: int where "CurrentFormatVersion = 1"

definition snap_zero :: snapshot where
  "snap_zero = \<lparr>sFormat = 0, sTerm = 0, sVersion = 0, sKV = []\<rparr>"

section \<open>Encoding\<close>

text \<open>\<^verbatim>\<open>json.Marshal\<close> writes the members of a map in the order of their keys.\<close>

fun bytes_less :: "string \<Rightarrow> string \<Rightarrow> bool" where
  "bytes_less _ [] = False"
| "bytes_less [] (_ # _) = True"
| "bytes_less (a # as) (b # bs) =
     ((of_char a :: nat) < of_char b \<or> a = b \<and> bytes_less as bs)"

fun insert_kv :: "string \<times> 'a \<Rightarrow> (string \<times> 'a) list \<Rightarrow> (string \<times> 'a) list" where
  "insert_kv x [] = [x]"
| "insert_kv x (y # ys) = (if bytes_less (fst y) (fst x) then y # insert_kv x ys else x # y # ys)"

definition sort_kv :: "(string \<times> 'a) list \<Rightarrow> (string \<times> 'a) list" where
  "sort_kv m = foldr insert_kv m []"

definition int_text :: "int \<Rightarrow> string" where
  "int_text i = (if i < 0 then CHR ''-'' # dec (nat (- i)) else dec (nat i))"

definition snap_json :: "snapshot \<Rightarrow> json" where
  "snap_json s = JObj [(''format_version'', JNum (int_text (sFormat s))),
     (''term'', JNum (dec (unat (sTerm s)))), (''version'', JNum (dec (unat (sVersion s)))),
     (''kv'', JObj (map (\<lambda>(k, v). (k, JStr v)) (sort_kv (sKV s))))]"

text \<open>
  Decoding into the struct.  Members of an object stored into the map \<^verbatim>\<open>KV\<close> are added to it; a null
  value stores the empty string, and \<open>null\<close> for the map itself makes it nil.
\<close>

fun kv_stores :: "(string, string) gomap \<Rightarrow> (string \<times> json) list \<Rightarrow> (string, string) gomap option" where
  "kv_stores m [] = Some m"
| "kv_stores m ((k, JStr s) # ms) = kv_stores (gm_put k s m) ms"
| "kv_stores m ((k, JNull) # ms) = kv_stores (gm_put k [] m) ms"
| "kv_stores m (_ # ms) = None"

definition snap_store :: "snapshot \<Rightarrow> string \<times> json \<Rightarrow> snapshot option" where
  "snap_store s m = (case m of (k, v) \<Rightarrow>
     (case field_name [''format_version'', ''term'', ''version'', ''kv''] k of
        None \<Rightarrow> Some s
      | Some f \<Rightarrow>
          (case v of
             JNull \<Rightarrow> Some (if f = ''kv'' then s\<lparr>sKV := []\<rparr> else s)
           | JNum l \<Rightarrow>
               if f = ''format_version'' then map_option (\<lambda>n. s\<lparr>sFormat := n\<rparr>) (parse_int64 l)
               else if f = ''term'' then map_option (\<lambda>n. s\<lparr>sTerm := n\<rparr>) (parse_uint64 l)
               else if f = ''version'' then map_option (\<lambda>n. s\<lparr>sVersion := n\<rparr>) (parse_uint64 l)
               else None
           | JObj ms \<Rightarrow>
               if f = ''kv'' then map_option (\<lambda>m. s\<lparr>sKV := m\<rparr>) (kv_stores (sKV s) ms) else None
           | _ \<Rightarrow> None)))"

fun snap_stores :: "snapshot \<Rightarrow> (string \<times> json) list \<Rightarrow> snapshot option" where
  "snap_stores s [] = Some s"
| "snap_stores s (m # ms) = Option.bind (snap_store s m) (\<lambda>s'. snap_stores s' ms)"

definition snap_unmarshal :: "string \<Rightarrow> snapshot option" where
  "snap_unmarshal data = (case json_parse data of
      Some (JObj ms) \<Rightarrow> snap_stores snap_zero ms
    | Some JNull \<Rightarrow> Some snap_zero
    | _ \<Rightarrow> None)"

section \<open>Operations\<close>

definition writeAndSync :: "save_io \<Rightarrow> string \<Rightarrow> string \<Rightarrow> fs \<Rightarrow> fs \<times> snap_error option" where
  "writeAndSync io path data fs = (case io of
      SaveCreateFails \<Rightarrow> (fs, Some SnapCreate)
    | SaveWriteFails n \<Rightarrow> (gm_put path (take n data) fs, Some SnapWrite)
    | SaveSyncFails \<Rightarrow> (gm_put path data fs, Some SnapSync)
    | SaveCloseFails \<Rightarrow> (gm_put path data fs, Some SnapClose)
    | _ \<Rightarrow> (gm_put path data fs, None))"

definition os_Rename :: "string \<Rightarrow> string \<Rightarrow> fs \<Rightarrow> fs" where
  "os_Rename old new fs = (case gm_get fs old of
      None \<Rightarrow> fs
    | Some d \<Rightarrow> if old = new then fs else gm_put new d (gm_del old fs))"

definition tmp_path :: "string \<Rightarrow> string" where
  "tmp_path path = path @ ''.tmp''"

text \<open>In \<open>SaveRenameFails b\<close> the removal of the temporary file succeeds if \<open>b\<close> (its error is ignored).\<close>

definition snap_Save :: "save_io \<Rightarrow> string \<Rightarrow> snapshot \<Rightarrow> fs \<Rightarrow> fs \<times> snap_error option" where
  "snap_Save io path s0 fs =
     (let s = (if sFormat s0 = 0 then s0\<lparr>sFormat := CurrentFormatVersion\<rparr> else s0) in
      if sFormat s \<noteq> CurrentFormatVersion then (fs, Some SnapFormat)
      else case writeAndSync io (tmp_path path) (json_print (snap_json s)) fs of
          (fs1, Some e) \<Rightarrow> (fs1, Some e)
        | (fs1, None) \<Rightarrow>
            (case io of
               SaveRenameFails removed \<Rightarrow>
                 (if removed then gm_del (tmp_path path) fs1 else fs1, Some SnapRename)
             | _ \<Rightarrow> (os_Rename (tmp_path path) path fs1, None)))"

definition snap_Load :: "io \<Rightarrow> string \<Rightarrow> fs \<Rightarrow> snapshot \<times> bool \<times> snap_error option" where
  "snap_Load io path fs =
     (if io = IoErr then (snap_zero, False, Some SnapRead)
      else case gm_get fs path of
        None \<Rightarrow> (snap_zero, False, None)
      | Some data \<Rightarrow>
          case snap_unmarshal data of
            None \<Rightarrow> (snap_zero, False, Some SnapParse)
          | Some s0 \<Rightarrow>
              let s = (if sFormat s0 = 0 then s0\<lparr>sFormat := CurrentFormatVersion\<rparr> else s0) in
              if sFormat s \<noteq> CurrentFormatVersion then (snap_zero, False, Some SnapFormat)
              else (s, True, None))"

section \<open>Round trip and atomicity\<close>

lemma set_insert_kv [simp]: "set (insert_kv x ys) = insert x (set ys)"
  by (induction ys) auto

lemma length_insert_kv [simp]: "length (insert_kv x ys) = Suc (length ys)"
  by (induction ys) auto

lemma set_sort_kv [simp]: "set (sort_kv m) = set m"
  unfolding sort_kv_def by (induction m) auto

lemma length_sort_kv [simp]: "length (sort_kv m) = length m"
  unfolding sort_kv_def by (induction m) auto

lemma gm_wf_sort_kv [simp]: "gm_wf m \<Longrightarrow> gm_wf (sort_kv m)"
  unfolding gm_wf_def
  by (metis card_distinct distinct_card length_map length_sort_kv list.set_map set_sort_kv)

lemma map_of_sort_kv [gomap_simps]: "gm_wf m \<Longrightarrow> map_of (sort_kv m) = map_of m"
  using gm_wf_sort_kv [of m] by (simp add: gm_wf_def map_of_inject_set)

definition kv_ok :: "(string, string) gomap \<Rightarrow> bool" where
  "kv_ok m \<longleftrightarrow> gm_wf m \<and> list_all (\<lambda>(k, v). utf8_valid k \<and> utf8_valid v) m"

lemma kv_stores_strings: "kv_stores m (map (\<lambda>(k, v). (k, JStr v)) kvs) = Some (gm_into m kvs)"
  by (induction kvs arbitrary: m) (auto simp: gm_into_def)

lemma int_lit_int_text [simp]: "int_lit (int_text i)"
  using int_lit_dec [of "nat (- i)"] int_lit_dec [of "nat i"] dec_digits [of "nat (- i)"]
  by (cases "dec (nat (- i))") (auto simp: int_text_def int_lit_def Let_def is_dec_digit_def split: if_splits)

lemma json_ok_snap [simp]: "json_ok (snap_json s)"
  by (auto simp: snap_json_def list_all_iff)

lemma parse_int64_1: "parse_int64 (int_text 1) = Some 1"
proof -
  have d: "dec 1 = ''1''" by (simp add: dec.simps [of "Suc 0"] digit_def char_of_eq_iff)
  have "dec_val 0 ''1'' = Some 1" using dec_val_dec [of 1] unfolding d .
  then show ?thesis by (simp add: parse_int64_def int_text_def d [unfolded One_nat_def])
qed

lemma kv_stores_coerce:
  "kv_ok m \<Longrightarrow> kv_stores [] (map ((\<lambda>(k, v). (utf8_coerce k, json_coerce v)) \<circ> (\<lambda>(k, v). (k, JStr v))) (sort_kv m))
     = Some (sort_kv m)"
proof -
  assume ok: "kv_ok m"
  then have "map ((\<lambda>(k, v). (utf8_coerce k, json_coerce v)) \<circ> (\<lambda>(k, v). (k, JStr v))) (sort_kv m)
      = map (\<lambda>(k, v). (k, JStr v)) (sort_kv m)"
    by (intro map_cong) (auto simp: kv_ok_def list_all_iff utf8_valid_def)
  then show ?thesis using ok by (simp only: kv_stores_strings) (simp add: kv_ok_def)
qed

lemma snap_unmarshal_print:
  "kv_ok (sKV s) \<Longrightarrow> sFormat s = 1 \<Longrightarrow>
   snap_unmarshal (json_print (snap_json s)) = Some (s\<lparr>sKV := sort_kv (sKV s)\<rparr>)"
  by (cases s) (simp add: snap_unmarshal_def json_parse_print, simp add: snap_json_def snap_store_def
      field_name_def snap_zero_def utf8_coerce_ascii parse_int64_1 kv_stores_coerce)

lemma tmp_path_neq [simp]: "tmp_path p \<noteq> p" "p \<noteq> tmp_path p"
  by (simp_all add: tmp_path_def)

lemma map_of_os_Rename [gomap_simps]:
  "old \<noteq> new \<Longrightarrow> gm_get (os_Rename old new fs) =
     (case gm_get fs old of None \<Rightarrow> gm_get fs | Some d \<Rightarrow> (gm_get fs)(old := None, new \<mapsto> d))"
  by (auto simp: os_Rename_def gomap_simps split: option.splits)

text \<open>The content of the file that \<^verbatim>\<open>Save\<close> writes for a term, a version and a map.\<close>

definition snap_bytes :: "uint64 \<Rightarrow> uint64 \<Rightarrow> (string, string) gomap \<Rightarrow> string" where
  "snap_bytes t v kv = json_print (snap_json \<lparr>sFormat = 1, sTerm = t, sVersion = v, sKV = kv\<rparr>)"

lemma snap_Save_ok:
  assumes "snap_Save io p \<lparr>sFormat = 0, sTerm = t, sVersion = v, sKV = kv\<rparr> fs = (fs', None)"
  shows "gm_get fs' = (gm_get fs)(tmp_path p := None, p \<mapsto> snap_bytes t v kv)"
  using assms by (auto simp: snap_Save_def writeAndSync_def CurrentFormatVersion_def snap_bytes_def
      Let_def gomap_simps split: save_io.splits if_splits)

lemma snap_Save_err:
  assumes "snap_Save io p s fs = (fs', Some e)" and "q \<noteq> tmp_path p"
  shows "gm_get fs' q = gm_get fs q"
  using assms by (auto simp: snap_Save_def writeAndSync_def Let_def gomap_simps
      split: save_io.splits if_splits)

lemma snap_Load_bytes:
  assumes "gm_get fs p = Some (snap_bytes t v kv)" and "kv_ok kv"
  shows "snap_Load IoOk p fs = (\<lparr>sFormat = 1, sTerm = t, sVersion = v, sKV = sort_kv kv\<rparr>, True, None)"
  using assms snap_unmarshal_print [of "\<lparr>sFormat = 1, sTerm = t, sVersion = v, sKV = kv\<rparr>"]
  by (simp add: snap_Load_def snap_bytes_def CurrentFormatVersion_def)

end
