(* ===== verification/DiskState.thy ===== *)
theory DiskState
  imports Snapshot
begin

text \<open>
  The on-disk state of one shard replica, \<^verbatim>\<open>node/diskstate.go\<close>: a write-ahead log and up to
  \<^verbatim>\<open>snapshotRetention\<close> snapshot files.  \<open>disk_io\<close> collects what the environment decides during one
  operation.  \<open>ds_load\<close> is the state a restarted node would find; the properties state what each
  operation, completed or interrupted anywhere, does to it.
\<close>

record disk_state =
  walFile :: wal
  walPath :: string
  snapshotPath :: string
  writesSinceSnapshot :: int
  snapshotInterval :: int
  snapshotRetention :: nat

record disk_load =
  dTerm :: uint64
  dVersion :: uint64
  dKV :: "(string, string) gomap"
  dValid :: bool

record disk_io =
  ioRemove :: io
  ioStat :: "nat \<Rightarrow> io"
  ioRename :: "nat \<Rightarrow> io"
  ioSave :: save_io
  ioTrunc :: io

datatype disk_error = DiskMkdir | DiskInterval | DiskRetention | DiskWal wal_error | DiskSnap snap_error
  | DiskRotate nat | DiskMonotone nat

definition disk_io_ok :: disk_io where
  "disk_io_ok = \<lparr>ioRemove = IoOk, ioStat = (\<lambda>_. IoOk), ioRename = (\<lambda>_. IoOk), ioSave = SaveOk, ioTrunc = IoOk\<rparr>"

definition disk_load_zero :: disk_load where
  "disk_load_zero = \<lparr>dTerm = 0, dVersion = 0, dKV = [], dValid = False\<rparr>"

text \<open>\<^verbatim>\<open>filepath.Join\<close> of a clean directory name and a file name.\<close>

definition filepath_join :: "string \<Rightarrow> string \<Rightarrow> string" where
  "filepath_join dir f = (if dir = [] then f else dir @ CHR ''/'' # f)"

definition openDiskState ::
  "io \<Rightarrow> io \<Rightarrow> string \<Rightarrow> int \<Rightarrow> int \<Rightarrow> fs \<Rightarrow> fs \<times> (disk_error + disk_state)" where
  "openDiskState mkdir_io open_io dir interval retention fs =
     (if mkdir_io = IoErr then (fs, Inl DiskMkdir)
      else if interval \<le> 0 then (fs, Inl DiskInterval)
      else if retention \<le> 0 then (fs, Inl DiskRetention)
      else let wp = filepath_join dir ''wal.jsonl'' in
        case wal_Open open_io wp fs of
          (fs', Inl e) \<Rightarrow> (fs', Inl (DiskWal e))
        | (fs', Inr w) \<Rightarrow>
            (fs', Inr \<lparr>walFile = w, walPath = wp, snapshotPath = filepath_join dir ''snapshot.json'',
               writesSinceSnapshot = 0, snapshotInterval = interval, snapshotRetention = nat retention\<rparr>))"

section \<open>Loading\<close>

definition snapshotPathFor :: "string \<Rightarrow> nat \<Rightarrow> string" where
  "snapshotPathFor base i = (if i = 0 then base else base @ CHR ''.'' # dec i)"

text \<open>The loop of \<^verbatim>\<open>loadLatestSnapshot\<close>; the accumulator is (best, bestPath, found).\<close>

fun load_latest_loop ::
  "(nat \<Rightarrow> io) \<Rightarrow> string \<Rightarrow> fs \<Rightarrow> nat list \<Rightarrow> snapshot \<times> string \<times> bool \<Rightarrow> snapshot \<times> string \<times> bool" where
  "load_latest_loop rio base fs [] acc = acc"
| "load_latest_loop rio base fs (i # is) (best, bestPath, found) =
     (let path = snapshotPathFor base i in
      case snap_Load (rio i) path fs of
        (snap, exists, err) \<Rightarrow>
          load_latest_loop rio base fs is
            (if err \<noteq> None \<or> \<not> exists then (best, bestPath, found)
             else if \<not> found \<or> sVersion best < sVersion snap then (snap, path, True)
             else (best, bestPath, found)))"

definition loadLatestSnapshot :: "(nat \<Rightarrow> io) \<Rightarrow> string \<Rightarrow> nat \<Rightarrow> fs \<Rightarrow> snapshot \<times> string \<times> bool" where
  "loadLatestSnapshot rio base retention fs =
     load_latest_loop rio base fs [0 ..< retention] (snap_zero, base, False)"

text \<open>\<open>Some i\<close>: the version decreased at index \<open>i\<close>.\<close>

fun monotonic_loop :: "nat \<Rightarrow> uint64 \<Rightarrow> wal_entry list \<Rightarrow> nat option" where
  "monotonic_loop i prev [] = None"
| "monotonic_loop i prev (e # es) =
     (if wVersion e < prev then Some i else monotonic_loop (Suc i) (wVersion e) es)"

definition ensureMonotonicWAL :: "wal_entry list \<Rightarrow> nat option" where
  "ensureMonotonicWAL es = (case es of [] \<Rightarrow> None | e # es' \<Rightarrow> monotonic_loop 1 (wVersion e) es')"

definition replay_step :: "wal_entry \<Rightarrow> disk_load \<Rightarrow> disk_load" where
  "replay_step e r =
     (if wVersion e \<le> dVersion r then r
      else r\<lparr>dKV := (if wOp e = ''put'' then gm_put (wKey e) (wValue e) (dKV r)
                    else if wOp e = ''delete'' then gm_del (wKey e) (dKV r) else dKV r),
             dVersion := (if dVersion r < wVersion e then wVersion e else dVersion r),
             dTerm := (if dTerm r < wTerm e then wTerm e else dTerm r)\<rparr>)"

definition ds_load :: "(nat \<Rightarrow> io) \<Rightarrow> io \<Rightarrow> disk_state \<Rightarrow> fs \<Rightarrow> disk_error + disk_load" where
  "ds_load rio wio ds fs =
     (case loadLatestSnapshot rio (snapshotPath ds) (snapshotRetention ds) fs of
       (snap, _, exists) \<Rightarrow>
         (case wal_ReadAll wio (walPath ds) fs of
            Inl e \<Rightarrow> Inl (DiskWal e)
          | Inr es \<Rightarrow>
              if \<not> exists \<and> es = [] then Inr disk_load_zero
              else (case ensureMonotonicWAL es of
                  Some i \<Rightarrow> Inl (DiskMonotone i)
                | None \<Rightarrow> Inr (fold replay_step es
                    \<lparr>dTerm = sTerm snap, dVersion = sVersion snap, dKV = gm_copy (sKV snap), dValid = True\<rparr>))))"

abbreviation ds_restart :: "disk_state \<Rightarrow> fs \<Rightarrow> disk_error + disk_load" where
  "ds_restart ds fs \<equiv> ds_load (\<lambda>_. IoOk) IoOk ds fs"

section \<open>Writing\<close>

definition ds_appendWAL :: "write_io \<Rightarrow> disk_state \<Rightarrow> wal_entry \<Rightarrow> fs \<Rightarrow> fs \<times> disk_state \<times> disk_error option" where
  "ds_appendWAL io ds e fs = (case wal_Append io (walFile ds) e fs of
      (fs', w, Some err) \<Rightarrow> (fs', ds\<lparr>walFile := w\<rparr>, Some (DiskWal err))
    | (fs', w, None) \<Rightarrow>
        (fs', ds\<lparr>walFile := w, writesSinceSnapshot := writesSinceSnapshot ds + 1\<rparr>, None))"

text \<open>
  The loop of \<^verbatim>\<open>rotateSnapshots\<close>, from index \<open>i\<close> down to 1.  A file is renamed when \<^verbatim>\<open>os.Stat\<close> returns nil,
  that is, when it exists and the call did not fail for another reason (\<open>ioStat\<close>).
\<close>

fun rotate_loop :: "disk_io \<Rightarrow> string \<Rightarrow> nat \<Rightarrow> nat \<Rightarrow> fs \<Rightarrow> fs \<times> disk_error option" where
  "rotate_loop io base retention 0 fs = (fs, None)"
| "rotate_loop io base retention (Suc j) fs =
     (let i = Suc j; oldPath = snapshotPathFor base i; newPath = snapshotPathFor base (i + 1);
          fs1 = (if i = retention - 1 \<and> ioRemove io = IoOk then gm_del newPath fs else fs) in
      if gm_get fs1 oldPath = None \<or> ioStat io i = IoErr then rotate_loop io base retention j fs1
      else if ioRename io i = IoErr then (fs1, Some (DiskRotate i))
      else rotate_loop io base retention j (os_Rename oldPath newPath fs1))"

definition rotateSnapshots :: "disk_io \<Rightarrow> disk_state \<Rightarrow> fs \<Rightarrow> fs \<times> disk_error option" where
  "rotateSnapshots io ds fs =
     (if snapshotRetention ds \<le> 1 then (fs, None)
      else case rotate_loop io (snapshotPath ds) (snapshotRetention ds) (snapshotRetention ds - 1) fs of
          (fs1, Some e) \<Rightarrow> (fs1, Some e)
        | (fs1, None) \<Rightarrow>
            if gm_get fs1 (snapshotPath ds) = None \<or> ioStat io 0 = IoErr then (fs1, None)
            else if ioRename io 0 = IoErr then (fs1, Some (DiskRotate 0))
            else (os_Rename (snapshotPath ds) (snapshotPathFor (snapshotPath ds) 1) fs1, None))"

definition ds_takeSnapshot :: "disk_io \<Rightarrow> disk_state \<Rightarrow> uint64 \<Rightarrow> uint64 \<Rightarrow> (string, string) gomap \<Rightarrow> fs
    \<Rightarrow> fs \<times> disk_state \<times> disk_error option" where
  "ds_takeSnapshot io ds t v kv fs = (case rotateSnapshots io ds fs of
      (fs1, Some e) \<Rightarrow> (fs1, ds, Some e)
    | (fs1, None) \<Rightarrow>
        (case snap_Save (ioSave io) (snapshotPath ds) \<lparr>sFormat = 0, sTerm = t, sVersion = v, sKV = kv\<rparr> fs1 of
           (fs2, Some e) \<Rightarrow> (fs2, ds, Some (DiskSnap e))
         | (fs2, None) \<Rightarrow>
             (case wal_Truncate (ioTrunc io) (walFile ds) fs2 of
                (fs3, w, Some e) \<Rightarrow> (fs3, ds\<lparr>walFile := w\<rparr>, Some (DiskWal e))
              | (fs3, w, None) \<Rightarrow> (fs3, ds\<lparr>walFile := w, writesSinceSnapshot := 0\<rparr>, None))))"

definition ds_maybeSnapshot :: "disk_io \<Rightarrow> disk_state \<Rightarrow> uint64 \<Rightarrow> uint64 \<Rightarrow> (string, string) gomap \<Rightarrow> fs
    \<Rightarrow> fs \<times> disk_state \<times> disk_error option" where
  "ds_maybeSnapshot io ds t v kv fs =
     (if \<not> snapshotInterval ds \<le> writesSinceSnapshot ds then (fs, ds, None)
      else ds_takeSnapshot io ds t v kv fs)"

definition ds_resetSnapshot :: "disk_io \<Rightarrow> disk_state \<Rightarrow> uint64 \<Rightarrow> uint64 \<Rightarrow> (string, string) gomap \<Rightarrow> fs
    \<Rightarrow> fs \<times> disk_state \<times> disk_error option" where
  "ds_resetSnapshot io ds t v kv fs = (case rotateSnapshots io ds fs of
      (fs1, Some e) \<Rightarrow> (fs1, ds, Some e)
    | (fs1, None) \<Rightarrow>
        (case snap_Save (ioSave io) (snapshotPath ds) \<lparr>sFormat = 0, sTerm = t, sVersion = v, sKV = kv\<rparr> fs1 of
           (fs2, Some e) \<Rightarrow> (fs2, ds, Some (DiskSnap e))
         | (fs2, None) \<Rightarrow>
             (case wal_Truncate (ioTrunc io) (walFile ds) fs2 of
                (fs3, w, Some e) \<Rightarrow> (fs3, ds\<lparr>walFile := w\<rparr>, Some (DiskWal e))
              | (fs3, w, None) \<Rightarrow> (fs3, ds\<lparr>walFile := w, writesSinceSnapshot := 0\<rparr>, None))))"

definition ds_close :: "disk_state \<Rightarrow> disk_state" where
  "ds_close ds = ds\<lparr>walFile := wal_Close (walFile ds)\<rparr>"

section \<open>The invariant\<close>

text \<open>
  \<open>ds_wf\<close>: the struct is set up as \<^verbatim>\<open>openDiskState\<close> does, with the log apart from the snapshot files.
  \<open>snap_at ds fs i\<close> is the snapshot that the file with index \<open>i\<close> decodes to.  \<open>newest_first\<close>: when any
  retained snapshot is readable, the one at index 0 is, and none is newer.  \<open>disk_inv ds fs es\<close>: the log
  holds the entries \<open>es\<close>, in version order.
\<close>

definition ds_wf :: "disk_state \<Rightarrow> bool" where
  "ds_wf ds \<longleftrightarrow> walPath ds = wPath (walFile ds) \<and> 0 < snapshotRetention ds \<and>
     \<not> prefix (snapshotPath ds) (walPath ds)"

definition snap_at :: "disk_state \<Rightarrow> fs \<Rightarrow> nat \<Rightarrow> snapshot option" where
  "snap_at ds fs i = (case snap_Load IoOk (snapshotPathFor (snapshotPath ds) i) fs of
      (s, True, None) \<Rightarrow> Some s | _ \<Rightarrow> None)"

definition newest_first :: "disk_state \<Rightarrow> fs \<Rightarrow> bool" where
  "newest_first ds fs \<longleftrightarrow> list_all (\<lambda>i. case snap_at ds fs i of None \<Rightarrow> True
     | Some s \<Rightarrow> (case snap_at ds fs 0 of None \<Rightarrow> False | Some s0 \<Rightarrow> sVersion s \<le> sVersion s0))
     [0 ..< snapshotRetention ds]"

definition newest_at :: "nat \<Rightarrow> disk_state \<Rightarrow> fs \<Rightarrow> bool" where
  "newest_at i ds fs \<longleftrightarrow> i < snapshotRetention ds \<and> (case snap_at ds fs i of None \<Rightarrow> False
     | Some s \<Rightarrow> list_all (\<lambda>j. gm_get fs (snapshotPathFor (snapshotPath ds) j) = None) [0 ..< i] \<and>
         list_all (\<lambda>j. case snap_at ds fs j of None \<Rightarrow> True | Some s' \<Rightarrow> sVersion s' \<le> sVersion s)
           [0 ..< snapshotRetention ds])"

definition newest_within :: "nat \<Rightarrow> disk_state \<Rightarrow> fs \<Rightarrow> bool" where
  "newest_within m ds fs \<longleftrightarrow> list_all (\<lambda>i. snap_at ds fs i = None) [0 ..< snapshotRetention ds] \<or>
     list_ex (\<lambda>i. newest_at i ds fs) [0 ..< Suc m]"

definition disk_inv :: "disk_state \<Rightarrow> fs \<Rightarrow> wal_entry list \<Rightarrow> bool" where
  "disk_inv ds fs es \<longleftrightarrow> ds_wf ds \<and> wal_holds (walFile ds) fs es \<and> sorted (map wVersion es)"

lemma snapshotPathFor_inject [simp]: "snapshotPathFor b i = snapshotPathFor b j \<longleftrightarrow> i = j"
  by (auto simp: snapshotPathFor_def)

lemma snapshotPathFor_0 [simp]: "snapshotPathFor b 0 = b"
  by (simp add: snapshotPathFor_def)

lemma snapshotPathFor_base [simp]: "snapshotPathFor b i = b \<longleftrightarrow> i = 0" "b = snapshotPathFor b i \<longleftrightarrow> i = 0"
  by (simp_all add: snapshotPathFor_def)

lemma snapshotPathFor_neq_tmp [simp]: "snapshotPathFor b i \<noteq> tmp_path b" "tmp_path b \<noteq> snapshotPathFor b i"
proof -
  have "dec i \<noteq> ''tmp''"
    using dec_digits [of i] by (auto simp: is_dec_digit_def)
  then show "snapshotPathFor b i \<noteq> tmp_path b" "tmp_path b \<noteq> snapshotPathFor b i"
    by (auto simp: snapshotPathFor_def tmp_path_def)
qed

lemma ds_wf_paths:
  assumes "ds_wf ds"
  shows "snapshotPathFor (snapshotPath ds) i \<noteq> walPath ds" "tmp_path (snapshotPath ds) \<noteq> walPath ds"
    "snapshotPath ds \<noteq> walPath ds"
proof -
  have "prefix (snapshotPath ds) (snapshotPathFor (snapshotPath ds) i)"
    "prefix (snapshotPath ds) (tmp_path (snapshotPath ds))"
    by (simp_all add: snapshotPathFor_def tmp_path_def)
  with assms show "snapshotPathFor (snapshotPath ds) i \<noteq> walPath ds"
    "tmp_path (snapshotPath ds) \<noteq> walPath ds" "snapshotPath ds \<noteq> walPath ds"
    by (auto simp: ds_wf_def)
qed

text \<open>A freshly opened state satisfies the invariant whatever complete log it finds.\<close>

lemma openDiskState_wf:
  "openDiskState m op dir n r fs = (fs', Inr ds) \<Longrightarrow> ds_wf ds"
  by (auto simp: openDiskState_def wal_Open_def ds_wf_def filepath_join_def Let_def
      split: if_splits prod.splits sum.splits)

section \<open>Which snapshot is loaded\<close>

lemma snap_at_cong:
  "gm_get fs' (snapshotPathFor (snapshotPath ds) i) = gm_get fs (snapshotPathFor (snapshotPath ds) j) \<Longrightarrow>
   snap_at ds fs' i = snap_at ds fs j"
  by (simp add: snap_at_def snap_Load_def)

lemma load_latest_skip:
  "\<forall>i\<in>set is. snap_at ds fs i = None \<or> found \<and> sVersion (the (snap_at ds fs i)) \<le> sVersion best \<Longrightarrow>
   load_latest_loop (\<lambda>_. IoOk) (snapshotPath ds) fs is (best, bp, found) = (best, bp, found)"
  by (induction "is") (auto simp: snap_at_def Let_def not_less split: prod.splits option.splits bool.splits)

lemma load_latest_append:
  "load_latest_loop rio b fs (xs @ ys) acc = load_latest_loop rio b fs ys (load_latest_loop rio b fs xs acc)"
  by (induction xs arbitrary: acc) (auto simp: Let_def split: prod.splits)

lemma loadLatest_none:
  "\<forall>i < snapshotRetention ds. snap_at ds fs i = None \<Longrightarrow>
   loadLatestSnapshot (\<lambda>_. IoOk) (snapshotPath ds) (snapshotRetention ds) fs = (snap_zero, snapshotPath ds, False)"
  by (simp add: loadLatestSnapshot_def load_latest_skip)

lemma loadLatest_some:
  assumes m: "m < snapshotRetention ds" "snap_at ds fs m = Some s"
    and lo: "\<forall>i < m. snap_at ds fs i = None"
    and hi: "\<forall>i. m < i \<and> i < snapshotRetention ds \<longrightarrow> snap_at ds fs i = None \<or> sVersion (the (snap_at ds fs i)) \<le> sVersion s"
  shows "loadLatestSnapshot (\<lambda>_. IoOk) (snapshotPath ds) (snapshotRetention ds) fs
      = (s, snapshotPathFor (snapshotPath ds) m, True)"
proof -
  have split: "[0 ..< snapshotRetention ds] = [0 ..< m] @ m # [Suc m ..< snapshotRetention ds]"
    using m(1) upt_add_eq_append [of 0 m "snapshotRetention ds - m"] by (simp add: upt_conv_Cons)
  have "snap_Load IoOk (snapshotPathFor (snapshotPath ds) m) fs = (s, True, None)"
    using m(2) by (auto simp: snap_at_def split: prod.splits bool.splits option.splits)
  then show ?thesis
    unfolding loadLatestSnapshot_def split load_latest_append
    using lo hi by (simp add: load_latest_skip Let_def)
qed

section \<open>Rotation\<close>

text \<open>
  \<open>rotated c\<close>: of the retained files, those below index \<open>c\<close> are in place, and every other is in place,
  gone, or replaced by the one that was an index below.
\<close>

definition rotated :: "nat \<Rightarrow> disk_state \<Rightarrow> fs \<Rightarrow> fs \<Rightarrow> bool" where
  "rotated c ds fs fs' \<longleftrightarrow> (\<forall>k < snapshotRetention ds.
     gm_get fs' (snapshotPathFor (snapshotPath ds) k) = gm_get fs (snapshotPathFor (snapshotPath ds) k) \<or>
     c \<le> k \<and> gm_get fs' (snapshotPathFor (snapshotPath ds) k) \<in> {None, gm_get fs (snapshotPathFor (snapshotPath ds) (k - 1))})"

lemma rotated_mono: "rotated c ds fs fs' \<Longrightarrow> c' \<le> c \<Longrightarrow> rotated c' ds fs fs'"
  by (auto simp: rotated_def)

lemma rotated_refl [simp]: "rotated c ds fs fs"
  by (simp add: rotated_def)

text \<open>Moving the file with index \<open>j\<close> up, with all files up to there still in place.\<close>

lemma rotated_rename:
  assumes "rotated (Suc j) ds fs g" and "j < snapshotRetention ds"
    and "gm_get g (snapshotPathFor (snapshotPath ds) j) = Some d"
  shows "rotated j ds fs (os_Rename (snapshotPathFor (snapshotPath ds) j) (snapshotPathFor (snapshotPath ds) (Suc j)) g)"
proof -
  have "gm_get fs (snapshotPathFor (snapshotPath ds) j) = Some d"
    using assms by (fastforce simp: rotated_def)
  with assms(1,3) show ?thesis by (auto simp: rotated_def map_of_os_Rename)
qed

lemma rotated_in_place:
  "rotated c ds fs fs' \<Longrightarrow> k < c \<Longrightarrow> k < snapshotRetention ds \<Longrightarrow>
   gm_get fs' (snapshotPathFor (snapshotPath ds) k) = gm_get fs (snapshotPathFor (snapshotPath ds) k)"
  by (fastforce simp: rotated_def)

text \<open>The first of the files that exist is in place or has moved up, as long as there is a file above it to move to.\<close>

definition first_kept :: "nat \<Rightarrow> disk_state \<Rightarrow> fs \<Rightarrow> fs \<Rightarrow> bool" where
  "first_kept k ds fs fs' \<longleftrightarrow>
     (let P = snapshotPathFor (snapshotPath ds) in
      (\<forall>j < k. gm_get fs (P j) = None) \<longrightarrow> Suc k < snapshotRetention ds \<longrightarrow>
      gm_get fs' (P k) = gm_get fs (P k) \<or> gm_get fs' (P k) = None \<and> gm_get fs' (P (Suc k)) = gm_get fs (P k))"

lemma first_kept_rename:
  assumes "rotated (Suc j) ds fs g" and "j < snapshotRetention ds"
    and "gm_get g (snapshotPathFor (snapshotPath ds) j) = Some d" and "first_kept k ds fs g"
  shows "first_kept k ds fs (os_Rename (snapshotPathFor (snapshotPath ds) j) (snapshotPathFor (snapshotPath ds) (Suc j)) g)"
proof -
  have "gm_get fs (snapshotPathFor (snapshotPath ds) j) = Some d"
    using assms(3) rotated_in_place [OF assms(1), of j] assms(2) by simp
  moreover have "gm_get g (snapshotPathFor (snapshotPath ds) k) = gm_get fs (snapshotPathFor (snapshotPath ds) k)"
    if "k < Suc j" using rotated_in_place [OF assms(1) that] assms(2) that by simp
  ultimately show ?thesis
    using assms(3,4) by (cases k j rule: linorder_cases) (auto simp: first_kept_def Let_def map_of_os_Rename)
qed

lemma rotate_loop_rotated:
  assumes "rotate_loop io (snapshotPath ds) (snapshotRetention ds) i fs1 = (fs2, r)"
    and "rotated (Suc i) ds fs fs1" and "i < snapshotRetention ds" and "first_kept n ds fs fs1"
  shows "rotated 1 ds fs fs2 \<and> first_kept n ds fs fs2 \<and>
    (\<forall>q. (\<forall>k. q \<noteq> snapshotPathFor (snapshotPath ds) k) \<longrightarrow> gm_get fs2 q = gm_get fs1 q)"
  using assms
proof (induction i arbitrary: fs1)
  case 0
  then show ?case by auto
next
  case (Suc j)
  let ?P = "snapshotPathFor (snapshotPath ds)"
  define g where "g = (if Suc j = snapshotRetention ds - 1 \<and> ioRemove io = IoOk then gm_del (?P (Suc (Suc j))) fs1 else fs1)"
  have sg: "rotated (Suc (Suc j)) ds fs g" and kg: "first_kept n ds fs g"
    using Suc.prems by (auto simp: rotated_def first_kept_def Let_def g_def gomap_simps)
  have fg: "gm_get g q = gm_get fs1 q" if "\<forall>k. q \<noteq> ?P k" for q
    using that by (auto simp: g_def gomap_simps)
  let ?h = "os_Rename (?P (Suc j)) (?P (Suc (Suc j))) g"
  have fh: "gm_get ?h q = gm_get g q" if "\<forall>k. q \<noteq> ?P k" for q
    using that by (simp add: gomap_simps split: option.splits)
  have "(if gm_get g (?P (Suc j)) = None \<or> ioStat io (Suc j) = IoErr
      then rotate_loop io (snapshotPath ds) (snapshotRetention ds) j g
      else if ioRename io (Suc j) = IoErr then (g, Some (DiskRotate (Suc j)))
      else rotate_loop io (snapshotPath ds) (snapshotRetention ds) j ?h) = (fs2, r)"
    using Suc.prems(1) by (simp only: rotate_loop.simps Let_def g_def Suc_eq_plus1 [symmetric])
  then consider "fs2 = g" | "rotate_loop io (snapshotPath ds) (snapshotRetention ds) j g = (fs2, r)"
    | d where "gm_get g (?P (Suc j)) = Some d" "rotate_loop io (snapshotPath ds) (snapshotRetention ds) j ?h = (fs2, r)"
    by (auto split: if_splits)
  then show ?case
  proof cases
    case 1
    then show ?thesis using rotated_mono [OF sg] fg kg by auto
  next
    case 2
    then show ?thesis using Suc.IH [of g] rotated_mono [OF sg] Suc.prems(3) fg kg by auto
  next
    case 3
    then show ?thesis
      using Suc.IH [of ?h] rotated_rename [OF sg] first_kept_rename [OF sg _ _ kg] Suc.prems(3) fg fh by auto
  qed
qed

lemma rotate_loop_ok:
  "rotate_loop io b n i fs = (fs', r) \<Longrightarrow> ioRename io = (\<lambda>_. IoOk) \<Longrightarrow> r = None"
  by (induction i arbitrary: fs) (auto simp: Let_def split: if_splits)

lemma rotateSnapshots_rotated:
  assumes r: "rotateSnapshots io ds fs = (fs', r)" and ret: "2 \<le> snapshotRetention ds"
  shows "rotated 0 ds fs fs' \<and> first_kept n ds fs fs' \<and>
    (r = None \<longrightarrow> ioStat io 0 = IoOk \<longrightarrow> gm_get fs' (snapshotPath ds) = None \<and>
       (gm_get fs (snapshotPath ds) = None \<or> gm_get fs' (snapshotPathFor (snapshotPath ds) 1) = gm_get fs (snapshotPath ds))) \<and>
    (\<forall>q. (\<forall>k. q \<noteq> snapshotPathFor (snapshotPath ds) k) \<longrightarrow> gm_get fs' q = gm_get fs q)"
proof -
  let ?n = "snapshotRetention ds" and ?P = "snapshotPathFor (snapshotPath ds)"
  obtain fs1 r1 where l: "rotate_loop io (snapshotPath ds) ?n (?n - 1) fs = (fs1, r1)" by fastforce
  note L = rotate_loop_rotated [OF l rotated_refl, of n]
  have s1: "rotated 1 ds fs fs1" and k1: "first_kept n ds fs fs1"
    and q1: "\<And>q. \<forall>k. q \<noteq> ?P k \<Longrightarrow> gm_get fs1 q = gm_get fs q"
    using L ret by (auto simp: first_kept_def)
  have z: "gm_get fs1 (?P 0) = gm_get fs (?P 0)"
    using rotated_in_place [OF s1, of 0] ret by simp
  consider "fs' = fs1" "r = None \<longrightarrow> ioStat io 0 = IoOk \<longrightarrow> gm_get fs1 (?P 0) = None"
    | d where "gm_get fs1 (?P 0) = Some d" "fs' = os_Rename (?P 0) (?P 1) fs1" "r = None"
    using r ret l by (cases r1; cases "gm_get fs1 (snapshotPath ds)"; cases "ioStat io 0"; cases "ioRename io 0")
      (auto simp: rotateSnapshots_def)
  then show ?thesis
  proof cases
    case 1
    then show ?thesis using z k1 rotated_mono [OF s1, of 0] q1 by simp
  next
    case 2
    have m: "rotated 0 ds fs fs'" "first_kept n ds fs fs'"
      using rotated_rename [of 0 ds fs fs1 d] first_kept_rename [of 0 ds fs fs1 d n] s1 k1 ret 2 by simp_all
    have f: "gm_get fs' = (gm_get fs1)(?P 0 := None, ?P 1 \<mapsto> d)" using 2 by (auto simp: map_of_os_Rename fun_upd_def)
    have "gm_get fs' q = gm_get fs q" if "\<forall>k. q \<noteq> ?P k" for q
      using q1 [OF that] that [rule_format, of 0] that [rule_format, of 1] by (simp add: f)
    with m z 2(1) f show ?thesis by simp
  qed
qed

section \<open>What a restart finds\<close>

lemma monotonic_loop_sorted: "monotonic_loop i v es = None \<longleftrightarrow> sorted (v # map wVersion es)"
  by (induction es arbitrary: i v) (auto simp: not_less)

lemma ensureMonotonic_sorted: "ensureMonotonicWAL es = None \<longleftrightarrow> sorted (map wVersion es)"
  by (cases es) (simp_all add: ensureMonotonicWAL_def monotonic_loop_sorted)

lemma replay_version_mono: "dVersion r \<le> dVersion (fold replay_step es r)"
proof (induction es arbitrary: r)
  case (Cons e es)
  have "dVersion r \<le> dVersion (replay_step e r)" by (auto simp: replay_step_def)
  with Cons [of "replay_step e r"] show ?case by auto
qed simp

lemma replay_version_ge: "e \<in> set es \<Longrightarrow> wVersion e \<le> dVersion (fold replay_step es r)"
proof (induction es arbitrary: r)
  case (Cons x es)
  have "wVersion x \<le> dVersion (replay_step x r)" by (auto simp: replay_step_def)
  with Cons replay_version_mono [of "replay_step x r" es] show ?case by fastforce
qed simp

lemma replay_skip: "\<forall>e\<in>set es. wVersion e \<le> dVersion r \<Longrightarrow> fold replay_step es r = r"
  by (induction es) (auto simp: replay_step_def)

text \<open>The state recovered from a snapshot (or none) and a log.\<close>

definition base_load :: "snapshot option \<Rightarrow> disk_load" where
  "base_load so = (case so of
      None \<Rightarrow> \<lparr>dTerm = 0, dVersion = 0, dKV = [], dValid = True\<rparr>
    | Some s \<Rightarrow> \<lparr>dTerm = sTerm s, dVersion = sVersion s, dKV = gm_copy (sKV s), dValid = True\<rparr>)"

definition recovered :: "snapshot option \<Rightarrow> wal_entry list \<Rightarrow> disk_load" where
  "recovered so es = (if so = None \<and> es = [] then disk_load_zero else fold replay_step es (base_load so))"

definition latest :: "disk_state \<Rightarrow> fs \<Rightarrow> snapshot option" where
  "latest ds fs = (case loadLatestSnapshot (\<lambda>_. IoOk) (snapshotPath ds) (snapshotRetention ds) fs of
     (s, _, found) \<Rightarrow> if found then Some s else None)"

lemma load_latest_zero:
  "load_latest_loop rio b fs is (best, bp, found) = (s, p, False) \<Longrightarrow> \<not> found \<and> s = best"
  by (induction "is" arbitrary: best bp found) (auto simp: Let_def split: prod.splits if_splits)

lemma ds_restart_recovered:
  assumes "walPath ds = wPath (walFile ds)" and "wal_ReadAll IoOk (walPath ds) fs = Inr es"
    and "sorted (map wVersion es)"
  shows "ds_restart ds fs = Inr (recovered (latest ds fs) es)"
proof -
  obtain s p f where l: "loadLatestSnapshot (\<lambda>_. IoOk) (snapshotPath ds) (snapshotRetention ds) fs = (s, p, f)"
    by (metis prod_cases3)
  then have "\<not> f \<Longrightarrow> s = snap_zero"
    by (auto simp: loadLatestSnapshot_def dest: load_latest_zero)
  moreover have "ensureMonotonicWAL es = None" using assms(3) by (simp add: ensureMonotonic_sorted)
  ultimately show ?thesis
    using assms l by (auto simp: ds_load_def latest_def recovered_def base_load_def snap_zero_def)
qed

lemma latest_cong:
  "\<forall>i < snapshotRetention ds. snap_at ds fs' i = snap_at ds fs i \<Longrightarrow> latest ds fs' = latest ds fs"
proof -
  assume eq: "\<forall>i < snapshotRetention ds. snap_at ds fs' i = snap_at ds fs i"
  have "set is \<subseteq> {..< snapshotRetention ds} \<Longrightarrow>
      load_latest_loop (\<lambda>_. IoOk) (snapshotPath ds) fs' is acc = load_latest_loop (\<lambda>_. IoOk) (snapshotPath ds) fs is acc"
    for "is" acc
  proof (induction "is" arbitrary: acc)
    case (Cons i "is")
    obtain b bp f where acc: "acc = (b, bp, f)" by (metis prod_cases3)
    have "snap_at ds fs' i = snap_at ds fs i" using eq Cons.prems by simp
    with Cons acc show ?case
      by (auto simp: snap_at_def Let_def split: prod.splits bool.splits option.splits)
  qed simp
  from this [of "[0 ..< snapshotRetention ds]"] show ?thesis
    by (simp add: latest_def loadLatestSnapshot_def lessThan_atLeast0)
qed

lemma newest_first_iff:
  "newest_first ds fs \<longleftrightarrow> (\<forall>i s. i < snapshotRetention ds \<longrightarrow> snap_at ds fs i = Some s \<longrightarrow>
     (\<exists>s0. snap_at ds fs 0 = Some s0 \<and> sVersion s \<le> sVersion s0))"
  by (cases "snap_at ds fs 0") (force simp: newest_first_def list_all_iff split: option.splits)+

lemma latest_newest_first:
  assumes "newest_first ds fs" "0 < snapshotRetention ds"
  shows "latest ds fs = snap_at ds fs 0"
proof (cases "snap_at ds fs 0")
  case None
  with assms have "\<forall>i < snapshotRetention ds. snap_at ds fs i = None"
    by (auto simp: newest_first_def list_all_iff split: option.splits)
  then show ?thesis using None by (simp add: latest_def loadLatest_none)
next
  case (Some s)
  have "\<forall>i. 0 < i \<and> i < snapshotRetention ds \<longrightarrow>
      snap_at ds fs i = None \<or> sVersion (the (snap_at ds fs i)) \<le> sVersion s"
    using assms(1) Some by (metis newest_first_iff option.collapse option.sel)
  from loadLatest_some [OF assms(2) Some _ this] Some show ?thesis
    by (simp add: latest_def)
qed

lemma newest_at_iff:
  "newest_at i ds fs \<longleftrightarrow> i < snapshotRetention ds \<and> (\<exists>s. snap_at ds fs i = Some s \<and>
     (\<forall>j < i. gm_get fs (snapshotPathFor (snapshotPath ds) j) = None) \<and>
     (\<forall>j s'. j < snapshotRetention ds \<longrightarrow> snap_at ds fs j = Some s' \<longrightarrow> sVersion s' \<le> sVersion s))"
  by (auto simp: newest_at_def list_all_iff split: option.splits)

lemma newest_within_iff:
  "newest_within m ds fs \<longleftrightarrow> (\<forall>i < snapshotRetention ds. snap_at ds fs i = None) \<or> (\<exists>i \<le> m. newest_at i ds fs)"
  by (auto simp: newest_within_def list_all_iff list_ex_iff less_Suc_eq_le Bex_def simp del: upt_Suc)

lemma newest_within_0: "newest_within 0 ds fs = newest_first ds fs"
proof (cases "snap_at ds fs 0")
  case None
  then show ?thesis by (auto simp: newest_within_iff newest_at_iff newest_first_iff)
next
  case (Some s)
  then show ?thesis by (cases "0 < snapshotRetention ds") (auto simp: newest_within_iff newest_at_iff newest_first_iff)
qed

lemma newest_within_mono: "newest_within m ds fs \<Longrightarrow> m \<le> m' \<Longrightarrow> newest_within m' ds fs"
  by (auto simp: newest_within_iff intro: order_trans)

lemma snap_at_absent: "gm_get fs (snapshotPathFor (snapshotPath ds) i) = None \<Longrightarrow> snap_at ds fs i = None"
  by (simp add: snap_at_def snap_Load_def)

lemma latest_newest_at:
  assumes "newest_at i ds fs"
  shows "latest ds fs = snap_at ds fs i"
proof -
  obtain s where s: "i < snapshotRetention ds" "snap_at ds fs i = Some s"
    "\<forall>j < i. gm_get fs (snapshotPathFor (snapshotPath ds) j) = None"
    "\<forall>j s'. j < snapshotRetention ds \<longrightarrow> snap_at ds fs j = Some s' \<longrightarrow> sVersion s' \<le> sVersion s"
    using assms by (auto simp: newest_at_iff)
  have "\<forall>j < i. snap_at ds fs j = None" using s(3) snap_at_absent by blast
  moreover have "\<forall>j. i < j \<and> j < snapshotRetention ds \<longrightarrow> snap_at ds fs j = None \<or> sVersion (the (snap_at ds fs j)) \<le> sVersion s"
    using s(4) by (metis option.collapse)
  ultimately show ?thesis using loadLatest_some [OF s(1,2)] s(2) by (simp add: latest_def)
qed

lemma rotated_snap:
  assumes "rotated c ds fs fs'" and "k < snapshotRetention ds" and "snap_at ds fs' k = Some s"
  shows "\<exists>j < snapshotRetention ds. snap_at ds fs j = Some s"
proof -
  let ?P = "snapshotPathFor (snapshotPath ds)"
  have "gm_get fs' (?P k) \<noteq> None" using assms(3) snap_at_absent [of fs' ds k] by auto
  then have "gm_get fs' (?P k) = gm_get fs (?P k) \<or> gm_get fs' (?P k) = gm_get fs (?P (k - 1))"
    using assms(1,2) by (auto simp: rotated_def)
  then show ?thesis
  proof
    assume "gm_get fs' (?P k) = gm_get fs (?P k)"
    then show ?thesis using assms(2,3) snap_at_cong [of fs' ds k fs k] by (intro exI [of _ k]) simp
  next
    assume "gm_get fs' (?P k) = gm_get fs (?P (k - 1))"
    then show ?thesis using assms(2,3) snap_at_cong [of fs' ds k fs "k - 1"] by (intro exI [of _ "k - 1"]) simp
  qed
qed

text \<open>A rotation, complete or not, moves the newest snapshot up by at most one index.\<close>

lemma newest_rotated:
  assumes nw: "newest_within m ds fs" and sh: "rotated 0 ds fs fs'" and k: "\<And>n. first_kept n ds fs fs'"
    and ret: "Suc m < snapshotRetention ds"
  shows "newest_within (Suc m) ds fs' \<and> latest ds fs' = latest ds fs"
  using nw [unfolded newest_within_iff]
proof (elim disjE exE conjE)
  assume none: "\<forall>i < snapshotRetention ds. snap_at ds fs i = None"
  then have "\<forall>i < snapshotRetention ds. snap_at ds fs' i = None"
    using rotated_snap [OF sh] by (metis option.distinct(1) option.exhaust)
  with none show ?thesis by (simp add: newest_within_iff latest_def loadLatest_none)
next
  fix i
  assume i: "i \<le> m" "newest_at i ds fs"
  let ?P = "snapshotPathFor (snapshotPath ds)"
  obtain s where s: "i < snapshotRetention ds" "snap_at ds fs i = Some s" "\<forall>j < i. gm_get fs (?P j) = None"
    "\<forall>j s'. j < snapshotRetention ds \<longrightarrow> snap_at ds fs j = Some s' \<longrightarrow> sVersion s' \<le> sVersion s"
    using i(2) by (auto simp: newest_at_iff)
  have le: "\<forall>j s'. j < snapshotRetention ds \<longrightarrow> snap_at ds fs' j = Some s' \<longrightarrow> sVersion s' \<le> sVersion s"
    using rotated_snap [OF sh] s(4) by blast
  have lo: "gm_get fs' (?P j) = None" if "j < i" for j
  proof -
    have "gm_get fs (?P j) = None" "gm_get fs (?P (j - 1)) = None" using s(3) that by auto
    moreover have "j < snapshotRetention ds" using s(1) that by simp
    ultimately show ?thesis using sh [unfolded rotated_def, rule_format, of j] by auto
  qed
  have "newest_at i ds fs' \<and> snap_at ds fs' i = Some s \<or> newest_at (Suc i) ds fs' \<and> snap_at ds fs' (Suc i) = Some s"
  proof -
    have "gm_get fs' (?P i) = gm_get fs (?P i) \<or> gm_get fs' (?P i) = None \<and> gm_get fs' (?P (Suc i)) = gm_get fs (?P i)"
      using k [of i] s(3) i(1) ret by (simp add: first_kept_def Let_def)
    then show ?thesis
    proof
      assume "gm_get fs' (?P i) = gm_get fs (?P i)"
      then have "snap_at ds fs' i = Some s" using s(2) snap_at_cong [of fs' ds i fs i] by simp
      then show ?thesis using le lo s(1) by (auto simp: newest_at_iff)
    next
      assume a: "gm_get fs' (?P i) = None \<and> gm_get fs' (?P (Suc i)) = gm_get fs (?P i)"
      then have "snap_at ds fs' (Suc i) = Some s" using s(2) snap_at_cong [of fs' ds "Suc i" fs i] by simp
      then show ?thesis using le lo a i(1) ret by (auto simp: newest_at_iff less_Suc_eq)
    qed
  qed
  then show ?thesis
    using i latest_newest_at s(2) by (fastforce simp: newest_within_iff)
qed

end
