(* ===== verification/Durability.thy ===== *)
theory Durability
  imports DiskState
begin

text \<open>
  The contract of the on-disk state and the proof that \<^verbatim>\<open>node/diskstate.go\<close> meets it: what a restart
  finds after every append and snapshot, completed or interrupted, and where the guarantee ends.
\<close>

section \<open>The durable state and its contract\<close>

text \<open>
  \<open>disk_good\<close> is the invariant as a computable predicate; \<open>disk_abs\<close> is the abstract state on disk, what
  a restart recovers: term, version and key-value map.
\<close>

definition disk_good :: "disk_state \<Rightarrow> fs \<Rightarrow> bool" where
  "disk_good ds fs \<longleftrightarrow> newest_first ds fs \<and>
     (case wal_ReadAll IoOk (walPath ds) fs of Inl _ \<Rightarrow> False | Inr es \<Rightarrow> disk_inv ds fs es)"

definition disk_within :: "nat \<Rightarrow> disk_state \<Rightarrow> fs \<Rightarrow> bool" where
  "disk_within n ds fs \<longleftrightarrow> newest_within n ds fs \<and>
     (case wal_ReadAll IoOk (walPath ds) fs of Inl _ \<Rightarrow> False | Inr es \<Rightarrow> disk_inv ds fs es)"

type_synonym shard_abs = "uint64 \<times> uint64 \<times> (string \<rightharpoonup> string)"

definition load_abs :: "disk_load \<Rightarrow> shard_abs" where
  "load_abs r = (dTerm r, dVersion r, map_of (dKV r))"

definition disk_abs :: "disk_state \<Rightarrow> fs \<Rightarrow> shard_abs option" where
  "disk_abs ds fs = (case ds_restart ds fs of Inl _ \<Rightarrow> None | Inr r \<Rightarrow> Some (load_abs r))"

definition abs_step :: "wal_entry \<Rightarrow> shard_abs \<Rightarrow> shard_abs" where
  "abs_step e st = (case st of (t, v, m) \<Rightarrow> (wTerm e, wVersion e,
     if wOp e = ''put'' then m(wKey e \<mapsto> wValue e) else if wOp e = ''delete'' then m(wKey e := None) else m))"

definition abs_next :: "wal_entry \<Rightarrow> shard_abs \<Rightarrow> bool" where
  "abs_next e st \<longleftrightarrow> (case st of (t, v, m) \<Rightarrow> wVersion e = v + 1 \<and> v + 1 \<noteq> 0 \<and> t \<le> wTerm e)"

text \<open>
  \<open>good n d fs\<close> allows the newest snapshot to be \<open>n\<close> files away from the first, as failed snapshots leave
  it; \<open>room n d\<close> says that one more may fail, and \<open>due d\<close> that the next attempt takes a snapshot.
\<close>

locale durable_shard =
  fixes good :: "nat \<Rightarrow> 'd \<Rightarrow> fs \<Rightarrow> bool"
    and room :: "nat \<Rightarrow> 'd \<Rightarrow> bool"
    and due :: "'d \<Rightarrow> bool"
    and abs :: "'d \<Rightarrow> fs \<Rightarrow> shard_abs option"
    and append :: "write_io \<Rightarrow> 'd \<Rightarrow> wal_entry \<Rightarrow> fs \<Rightarrow> fs \<times> 'd \<times> disk_error option"
    and snap :: "disk_io \<Rightarrow> 'd \<Rightarrow> uint64 \<Rightarrow> uint64 \<Rightarrow> (string, string) gomap \<Rightarrow> fs \<Rightarrow> fs \<times> 'd \<times> disk_error option"
  assumes append_ok: "\<lbrakk>good n d fs; abs d fs = Some st; wal_ok e; abs_next e st; append wio d e fs = (fs', d', None)\<rbrakk>
      \<Longrightarrow> good n d' fs' \<and> abs d' fs' = Some (abs_step e st)"
    and append_err: "\<lbrakk>good n d fs; abs d fs = Some st; wal_ok e; abs_next e st; append wio d e fs = (fs', d', Some err)\<rbrakk>
      \<Longrightarrow> abs d' fs' \<in> {Some st, Some (abs_step e st)}"
    and append_room: "append wio d e fs = (fs', d', r) \<Longrightarrow> room n d' = room n d"
    and snap_safe: "\<lbrakk>good n d fs; r = None \<or> room n d; abs d fs = Some (t, v, m); kv_ok kv; map_of kv = m; snap io d t v kv fs = (fs', d', r)\<rbrakk>
      \<Longrightarrow> abs d' fs' = Some (t, v, m) \<and> good (if r \<noteq> None then Suc n else if due d then 0 else n) d' fs'"
begin

text \<open>
  One round of the write flow, an append and then a snapshot attempt, leaves the new state on disk as
  soon as the append has succeeded, whatever becomes of the snapshot.
\<close>

lemma write_flow:
  assumes "good n d fs" "abs d fs = Some st" "wal_ok e" "abs_next e st" "r = None \<or> room n d"
    and a: "append wio d e fs = (fs1, d1, None)"
    and kv: "kv_ok kv" "map_of kv = snd (snd (abs_step e st))"
    and s: "snap io d1 (wTerm e) (wVersion e) kv fs1 = (fs2, d2, r)"
  shows "abs d2 fs2 = Some (abs_step e st) \<and> good (if r \<noteq> None then Suc n else if due d1 then 0 else n) d2 fs2"
proof -
  obtain m where st1: "abs_step e st = (wTerm e, wVersion e, m)" by (cases st) (simp add: abs_step_def)
  have g: "good n d1 fs1" "abs d1 fs1 = Some (abs_step e st)" using append_ok [OF assms(1-4) a] by simp_all
  have "r = None \<or> room n d1" using append_room [OF a] assms(5) by simp
  from snap_safe [OF g(1) this g(2) [unfolded st1] kv(1) kv(2) [unfolded st1 snd_conv] s] st1 show ?thesis by simp
qed

end

section \<open>Appends\<close>

lemma disk_goodI: "disk_inv ds fs es \<Longrightarrow> newest_first ds fs \<Longrightarrow> disk_good ds fs"
  using wl.read [of "walFile ds" fs es] by (auto simp: disk_good_def disk_inv_def ds_wf_def)

lemma disk_goodE:
  assumes "disk_good ds fs"
  obtains es where "disk_inv ds fs es" "newest_first ds fs"
  using assms by (auto simp: disk_good_def split: sum.splits)

lemma disk_within_0: "disk_within 0 = disk_good"
  by (intro ext) (simp add: disk_within_def disk_good_def newest_within_0)

lemma disk_withinI: "disk_inv ds fs es \<Longrightarrow> newest_within n ds fs \<Longrightarrow> disk_within n ds fs"
  using wl.read [of "walFile ds" fs es] by (auto simp: disk_within_def disk_inv_def ds_wf_def)

lemma disk_withinE:
  assumes "disk_within n ds fs"
  obtains es where "disk_inv ds fs es" "newest_within n ds fs"
  using assms by (auto simp: disk_within_def split: sum.splits)

lemma disk_within_mono: "disk_within n ds fs \<Longrightarrow> n \<le> n' \<Longrightarrow> disk_within n' ds fs"
  using newest_within_mono by (auto simp: disk_within_def)

lemma disk_abs_recovered:
  assumes "walPath ds = wPath (walFile ds)" and "wal_ReadAll IoOk (walPath ds) fs = Inr es"
    and "sorted (map wVersion es)"
  shows "disk_abs ds fs = Some (load_abs (recovered (latest ds fs) es))"
  using ds_restart_recovered [OF assms] by (simp add: disk_abs_def)

lemma disk_inv_read:
  "disk_inv ds fs es \<Longrightarrow> walPath ds = wPath (walFile ds) \<and> wal_ReadAll IoOk (walPath ds) fs = Inr es \<and> sorted (map wVersion es)"
  using wl.read [of "walFile ds" fs es] by (simp add: disk_inv_def ds_wf_def)

lemma disk_inv_abs: "disk_inv ds fs es \<Longrightarrow> disk_abs ds fs = Some (load_abs (recovered (latest ds fs) es))"
  using disk_inv_read disk_abs_recovered by blast

lemma recovered_version_ge: "e \<in> set es \<Longrightarrow> wVersion e \<le> dVersion (recovered so es)"
  by (auto simp: recovered_def replay_version_ge)

lemma load_abs_replay:
  "abs_next e (load_abs r) \<Longrightarrow> load_abs (replay_step e r) = abs_step e (load_abs r)"
  using uint64_less_succ [of "dVersion r"]
  by (auto simp: abs_next_def load_abs_def replay_step_def abs_step_def gomap_simps not_le)

lemma recovered_snoc:
  assumes "abs_next e (load_abs (recovered so es))"
  shows "load_abs (recovered so (es @ [e])) = abs_step e (load_abs (recovered so es))"
proof (cases "so = None \<and> es = []")
  case True
  then have "load_abs (recovered so es) = load_abs (base_load None)"
    by (simp add: recovered_def base_load_def disk_load_zero_def load_abs_def)
  with True assms show ?thesis
    using load_abs_replay [of e "base_load None"] by (simp add: recovered_def)
next
  case False
  then show ?thesis using assms load_abs_replay [of e "fold replay_step es (base_load so)"]
    by (auto simp: recovered_def)
qed

lemma snap_at_frame:
  assumes "ds_wf ds" and "\<And>q. q \<noteq> walPath ds \<Longrightarrow> gm_get fs' q = gm_get fs q"
  shows "snap_at ds fs' i = snap_at ds fs i"
  using assms ds_wf_paths(1) by (intro snap_at_cong) auto

lemma same_snapshots:
  assumes "ds_wf ds" and "\<And>q. q \<noteq> walPath ds \<Longrightarrow> gm_get fs' q = gm_get fs q"
  shows "latest ds fs' = latest ds fs" "newest_within n ds fs' = newest_within n ds fs"
proof -
  have s: "snap_at ds fs' i = snap_at ds fs i" for i using snap_at_frame [OF assms] .
  have g: "gm_get fs' (snapshotPathFor (snapshotPath ds) j) = gm_get fs (snapshotPathFor (snapshotPath ds) j)" for j
    using assms(2) ds_wf_paths(1) [OF assms(1)] by simp
  show "newest_within n ds fs' = newest_within n ds fs"
    unfolding newest_within_def newest_at_def by (simp only: s g)
  show "latest ds fs' = latest ds fs" using s by (auto intro!: latest_cong)
qed

text \<open>Only the path and the retention of a disk state matter for what is loaded.\<close>

lemma ds_update_simps [simp]:
  "snap_at (ds\<lparr>walFile := w\<rparr>) fs i = snap_at ds fs i"
  "snap_at (ds\<lparr>writesSinceSnapshot := n\<rparr>) fs i = snap_at ds fs i"
  "latest (ds\<lparr>walFile := w\<rparr>) fs = latest ds fs"
  "latest (ds\<lparr>writesSinceSnapshot := n\<rparr>) fs = latest ds fs"
  "newest_within m (ds\<lparr>walFile := w\<rparr>) fs = newest_within m ds fs"
  "newest_within m (ds\<lparr>writesSinceSnapshot := n\<rparr>) fs = newest_within m ds fs"
  "disk_abs (ds\<lparr>walFile := w\<rparr>) fs = disk_abs ds fs"
  "disk_abs (ds\<lparr>writesSinceSnapshot := n\<rparr>) fs = disk_abs ds fs"
  by (simp_all add: snap_at_def latest_def newest_within_iff newest_at_iff disk_abs_def ds_load_def)

lemma ds_appendWAL_cases:
  assumes "ds_appendWAL io ds e fs = (fs', ds', r)"
  obtains w wr where "wal_Append io (walFile ds) e fs = (fs', w, wr)"
    "ds' = ds\<lparr>walFile := w, writesSinceSnapshot := (if wr = None then writesSinceSnapshot ds + 1 else writesSinceSnapshot ds)\<rparr>"
    "r = map_option DiskWal wr"
  using assms by (cases "wal_Append io (walFile ds) e fs") (auto simp: ds_appendWAL_def split: option.splits)

lemma ds_append_abs:
  assumes inv: "disk_inv ds fs es" "newest_within n ds fs" and ok: "wal_ok e"
    and st: "disk_abs ds fs = Some st" "abs_next e st"
    and a: "ds_appendWAL io ds e fs = (fs', ds', r)"
  shows "case r of None \<Rightarrow> disk_inv ds' fs' (es @ [e]) \<and> newest_within n ds' fs' \<and> disk_abs ds' fs' = Some (abs_step e st)
     | Some _ \<Rightarrow> disk_abs ds' fs' \<in> {Some st, Some (abs_step e st)}"
proof -
  obtain w wr where w: "wal_Append io (walFile ds) e fs = (fs', w, wr)"
    and ds': "ds' = ds\<lparr>walFile := w, writesSinceSnapshot := (if wr = None then writesSinceSnapshot ds + 1 else writesSinceSnapshot ds)\<rparr>"
    and r: "r = map_option DiskWal wr"
    using ds_appendWAL_cases [OF a] .
  have wf: "ds_wf ds" and holds: "wal_holds (walFile ds) fs es" and p: "walPath ds = wPath (walFile ds)"
    using inv by (auto simp: disk_inv_def ds_wf_def)
  have "gm_get fs' q = gm_get fs q" if "q \<noteq> walPath ds" for q
    using wl.append_frame [OF w] that p by simp
  note same = same_snapshots [OF wf this]
  have st_eq: "st = load_abs (recovered (latest ds fs) es)"
    using disk_inv_abs [OF inv(1)] st(1) by simp
  have "wVersion x \<le> wVersion e" if "x \<in> set es" for x
    using recovered_version_ge [OF that, of "latest ds fs"] st(2)
      uint64_less_succ [of "dVersion (recovered (latest ds fs) es)"]
    by (simp add: st_eq abs_next_def load_abs_def)
  then have "sorted (map wVersion (es @ [e]))"
    using inv(1) by (simp add: disk_inv_def sorted_append)
  then have read: "disk_abs ds fs' = Some (abs_step e st)" if "wal_ReadAll IoOk (walPath ds) fs' = Inr (es @ [e])"
    using disk_abs_recovered [OF p that] st(2) st_eq recovered_snoc same(1) by simp
  show ?thesis
  proof (cases wr)
    case None
    then have "wal_holds w fs' (es @ [e])" using wl.append_ok [OF holds ok] w by simp
    moreover have "wPath w = walPath ds" using wl.append_path [OF w] p by simp
    ultimately show ?thesis
      using None r ds' same inv(2) wf read \<open>sorted (map wVersion (es @ [e]))\<close> wl.read [of w fs' "es @ [e]"]
      by (auto simp: disk_inv_def ds_wf_def)
  next
    case (Some err)
    then have "wal_ReadAll IoOk (walPath ds) fs' \<in> {Inr es, Inr (es @ [e])}"
      using wl.append_err [OF holds ok] w p by simp
    moreover have "wal_ReadAll IoOk (walPath ds) fs' = Inr es \<Longrightarrow> disk_abs ds fs' = Some st"
      using disk_abs_recovered [OF p] inv(1) st_eq same(1) by (simp add: disk_inv_def)
    ultimately show ?thesis using Some r ds' read by auto
  qed
qed

text \<open>An entry with the version already reached is stored but changes nothing that a restart finds.\<close>

lemma ds_append_stale:
  assumes inv: "disk_inv ds fs es" and ok: "wal_ok e" and st: "disk_abs ds fs = Some (t, v, m)"
    and e: "wVersion e = v" and a: "ds_appendWAL io ds e fs = (fs', ds', None)"
  shows "disk_abs ds' fs' = disk_abs ds fs"
proof -
  obtain w where w: "wal_Append io (walFile ds) e fs = (fs', w, None)"
    and ds': "ds' = ds\<lparr>walFile := w, writesSinceSnapshot := writesSinceSnapshot ds + 1\<rparr>"
    using ds_appendWAL_cases [OF a] by auto
  have wf: "ds_wf ds" and holds: "wal_holds (walFile ds) fs es" and p: "walPath ds = wPath (walFile ds)"
    using inv by (auto simp: disk_inv_def ds_wf_def)
  have "gm_get fs' q = gm_get fs q" if "q \<noteq> walPath ds" for q
    using wl.append_frame [OF w] that p by simp
  note same = same_snapshots [OF wf this]
  have eq: "load_abs (recovered (latest ds fs) es) = (t, v, m)" using disk_inv_abs [OF inv] st by simp
  have "sorted (map wVersion (es @ [e]))"
    using inv recovered_version_ge [of _ es "latest ds fs"] eq e by (auto simp: disk_inv_def sorted_append load_abs_def)
  moreover have "wal_ReadAll IoOk (walPath ds) fs' = Inr (es @ [e])"
    using wl.read [OF wl.append_ok [OF holds ok w]] wl.append_path [OF w] p by simp
  ultimately have "disk_abs ds fs' = Some (load_abs (recovered (latest ds fs) (es @ [e])))"
    using disk_abs_recovered [OF p] same(1) by simp
  moreover have "load_abs (recovered (latest ds fs) (es @ [e])) = (t, v, m)"
    using eq e by (auto simp: recovered_def replay_step_def load_abs_def disk_load_zero_def base_load_def split: if_splits)
  ultimately show ?thesis using ds' st by simp
qed

section \<open>Snapshots\<close>

lemma rotateSnapshots_one: "snapshotRetention ds \<le> 1 \<Longrightarrow> rotateSnapshots io ds fs = (fs, None)"
  by (simp add: rotateSnapshots_def)

lemma rotate_frame:
  assumes "rotateSnapshots io ds fs = (fs', r)" and "\<forall>k. q \<noteq> snapshotPathFor (snapshotPath ds) k"
  shows "gm_get fs' q = gm_get fs q"
proof (cases "2 \<le> snapshotRetention ds")
  case True
  then show ?thesis using rotateSnapshots_rotated [OF assms(1) True, of 0] assms(2) by simp
qed (use assms rotateSnapshots_one [of ds io fs] in simp)

text \<open>There is room for one more rotation: the newest snapshot is not in the last of the retained files.\<close>

definition room :: "nat \<Rightarrow> disk_state \<Rightarrow> bool" where
  "room n ds \<longleftrightarrow> Suc n < snapshotRetention ds \<or> snapshotRetention ds = 1"

lemma rotate_newest:
  assumes "rotateSnapshots io ds fs = (fs', r)" and "newest_within n ds fs" and "room n ds"
  shows "newest_within (Suc n) ds fs' \<and> latest ds fs' = latest ds fs"
proof (cases "2 \<le> snapshotRetention ds")
  case True
  then show ?thesis using rotateSnapshots_rotated [OF assms(1) True] newest_rotated [OF assms(2), of fs'] assms(3)
    by (auto simp: room_def)
qed (use assms rotateSnapshots_one [of ds io fs] newest_within_mono [OF assms(2), of "Suc n"] in \<open>simp add: room_def\<close>)

lemma rotate_snap:
  assumes "rotateSnapshots io ds fs = (fs', r)" and "k < snapshotRetention ds" and "snap_at ds fs' k = Some s"
  shows "\<exists>j < snapshotRetention ds. snap_at ds fs j = Some s"
proof (cases "2 \<le> snapshotRetention ds")
  case True
  have "rotated 0 ds fs fs'" using rotateSnapshots_rotated [OF assms(1) True, of 0] by simp
  then show ?thesis using rotated_snap [OF _ assms(2,3)] by simp
qed (use assms rotateSnapshots_one [of ds io fs] in auto)

text \<open>The three outcomes of \<^verbatim>\<open>takeSnapshot\<close>: nothing saved, saved with the log left, all done.\<close>

lemma ds_takeSnapshot_cases:
  assumes "ds_takeSnapshot io ds t v kv fs = (fs', ds', r)"
  obtains (failed) e fs1 r1 where "rotateSnapshots io ds fs = (fs1, r1)" "r = Some e" "ds' = ds"
      "\<And>q. q \<noteq> tmp_path (snapshotPath ds) \<Longrightarrow> gm_get fs' q = gm_get fs1 q"
  | (saved) fs1 fs2 w tr where "rotateSnapshots io ds fs = (fs1, None)"
      "gm_get fs2 = (gm_get fs1)(tmp_path (snapshotPath ds) := None, snapshotPath ds \<mapsto> snap_bytes t v kv)"
      "wal_Truncate (ioTrunc io) (walFile ds) fs2 = (fs', w, tr)" "r = map_option DiskWal tr"
      "ds' = ds\<lparr>walFile := w, writesSinceSnapshot := (if tr = None then 0 else writesSinceSnapshot ds)\<rparr>"
proof -
  obtain fs1 r1 where rot: "rotateSnapshots io ds fs = (fs1, r1)" by fastforce
  let ?s = "\<lparr>sFormat = 0, sTerm = t, sVersion = v, sKV = kv\<rparr>"
  obtain fs2 r2 where save: "snap_Save (ioSave io) (snapshotPath ds) ?s fs1 = (fs2, r2)" by fastforce
  obtain fs3 w tr where tru: "wal_Truncate (ioTrunc io) (walFile ds) fs2 = (fs3, w, tr)"
    by (cases "wal_Truncate (ioTrunc io) (walFile ds) fs2")
  show ?thesis
  proof (cases r1)
    case (Some e)
    with assms rot have "fs' = fs1" and r: "r = Some e" "ds' = ds"
      by (simp_all add: ds_takeSnapshot_def)
    then show ?thesis by (intro failed [OF rot r]) simp
  next
    case r1: None
    show ?thesis
    proof (cases r2)
      case (Some e)
      with assms rot r1 save have "fs' = fs2" and r: "r = Some (DiskSnap e)" "ds' = ds"
        by (simp_all add: ds_takeSnapshot_def)
      with snap_Save_err [OF save [unfolded Some]] show ?thesis by (intro failed [OF rot r]) simp
    next
      case None
      with assms rot r1 save tru have "fs' = fs3" and r: "r = map_option DiskWal tr"
        "ds' = ds\<lparr>walFile := w, writesSinceSnapshot := (if tr = None then 0 else writesSinceSnapshot ds)\<rparr>"
        by (auto simp: ds_takeSnapshot_def split: option.splits)
      with tru show ?thesis
        by (intro saved [OF rot [unfolded r1] snap_Save_ok [OF save [unfolded None]] _ r]) simp
    qed
  qed
qed

lemma ds_resetSnapshot_eq: "ds_resetSnapshot = ds_takeSnapshot"
  by (intro ext) (simp add: ds_resetSnapshot_def ds_takeSnapshot_def)

lemma snap_at_saved:
  assumes "gm_get fs (snapshotPath ds) = Some (snap_bytes t v kv)" and "kv_ok kv"
  shows "snap_at ds fs 0 = Some \<lparr>sFormat = 1, sTerm = t, sVersion = v, sKV = sort_kv kv\<rparr>"
  using snap_Load_bytes [OF assms] by (simp add: snap_at_def)

lemma base_load_saved:
  "kv_ok kv \<Longrightarrow> load_abs (base_load (Some \<lparr>sFormat = 1, sTerm = t, sVersion = v, sKV = sort_kv kv\<rparr>)) = (t, v, map_of kv)"
  by (simp add: base_load_def load_abs_def kv_ok_def map_of_sort_kv)

text \<open>Saving a snapshot that is not older than the retained ones puts the newest at index 0.\<close>

lemma saved_newest_first:
  assumes wf: "ds_wf ds" and kv: "kv_ok kv"
    and rot: "rotateSnapshots io ds fs = (fs1, None)"
    and sv: "gm_get fs2 = (gm_get fs1)(tmp_path (snapshotPath ds) := None, snapshotPath ds \<mapsto> snap_bytes t v kv)"
    and same: "\<And>q. q \<noteq> walPath ds \<Longrightarrow> gm_get fs' q = gm_get fs2 q"
    and le: "\<And>i s. i < snapshotRetention ds \<Longrightarrow> snap_at ds fs i = Some s \<Longrightarrow> sVersion s \<le> v"
  shows "newest_first ds fs'" "snap_at ds fs' 0 = Some \<lparr>sFormat = 1, sTerm = t, sVersion = v, sKV = sort_kv kv\<rparr>"
proof -
  have b: "gm_get fs' (snapshotPath ds) = Some (snap_bytes t v kv)"
    using same [OF ds_wf_paths(3) [OF wf]] sv by simp
  show z: "snap_at ds fs' 0 = Some \<lparr>sFormat = 1, sTerm = t, sVersion = v, sKV = sort_kv kv\<rparr>"
    using snap_at_saved [OF b kv] .
  have k: "snap_at ds fs' k = snap_at ds fs1 k" if "0 < k" for k
    using that same [OF ds_wf_paths(1) [OF wf]] sv by (intro snap_at_cong) simp
  have "sVersion s \<le> v" if "k < snapshotRetention ds" "snap_at ds fs' k = Some s" for k s
  proof (cases "k = 0")
    case False
    then show ?thesis using rotate_snap [OF rot that(1), of s] that(2) k [of k] le by auto
  qed (use z that in auto)
  then show "newest_first ds fs'" using z by (auto simp: newest_first_iff)
qed

lemma newest_version:
  assumes "newest_within n ds fs" and "i < snapshotRetention ds" and "snap_at ds fs i = Some s"
  shows "\<exists>s0. latest ds fs = Some s0 \<and> sVersion s \<le> sVersion s0"
  using assms latest_newest_at [of _ ds fs] unfolding newest_within_iff
  by (elim disjE exE conjE) (auto simp: newest_at_iff)

lemma ds_takeSnapshot_abs:
  assumes inv: "disk_inv ds fs es" "newest_within n ds fs" and room: "r = None \<or> room n ds" and st: "disk_abs ds fs = Some (t, v, m)"
    and kv: "kv_ok kv" "map_of kv = m" and a: "ds_takeSnapshot io ds t v kv fs = (fs', ds', r)"
  shows "disk_abs ds' fs' = Some (t, v, m) \<and> disk_within (if r = None then 0 else Suc n) ds' fs'"
proof -
  have wf: "ds_wf ds" and holds: "wal_holds (walFile ds) fs es" and p: "walPath ds = wPath (walFile ds)"
    and so: "sorted (map wVersion es)"
    using inv by (auto simp: disk_inv_def ds_wf_def)
  have ver: "dVersion (recovered (latest ds fs) es) = v" and eq: "load_abs (recovered (latest ds fs) es) = (t, v, m)"
    using disk_inv_abs [OF inv(1)] st by (auto simp: load_abs_def)
  have wp: "gm_get fs1 (walPath ds) = gm_get fs (walPath ds)" if "rotateSnapshots io ds fs = (fs1, r1)" for fs1 r1
    using rotate_frame [OF that] ds_wf_paths(1) [OF wf] by metis
  from a show ?thesis
  proof (cases rule: ds_takeSnapshot_cases)
    case (failed e fs1 r1)
    have h: "wal_holds (walFile ds) fs' es"
      using wl.frame [OF holds] failed(4) [of "walPath ds"] wp [OF failed(1)] ds_wf_paths(2) [OF wf] p by simp
    have s1: "snap_at ds fs' i = snap_at ds fs1 i" for i using failed(4) by (intro snap_at_cong) simp
    have g1: "gm_get fs' (snapshotPathFor (snapshotPath ds) i) = gm_get fs1 (snapshotPathFor (snapshotPath ds) i)" for i
      using failed(4) by simp
    have "newest_within (Suc n) ds fs'" "latest ds fs' = latest ds fs"
      using rotate_newest [OF failed(1) inv(2)] room failed(2) latest_cong [of ds fs' fs1] s1 g1
      by (simp_all add: newest_within_iff newest_at_iff)
    then show ?thesis
      using failed(2,3) disk_abs_recovered [OF p, of fs' es] wl.read [OF h] p so eq h wf
      by (auto intro: disk_withinI simp: disk_inv_def)
  next
    case (saved fs1 fs2 w tr)
    have lev: "sVersion s \<le> v" if i: "i < snapshotRetention ds" "snap_at ds fs i = Some s" for i s
    proof -
      obtain s0 where "latest ds fs = Some s0" "sVersion s \<le> sVersion s0"
        using newest_version [OF inv(2) i] by blast
      then show ?thesis using replay_version_mono [of "base_load (Some s0)" es] ver by (simp add: recovered_def base_load_def)
    qed
    have fr: "gm_get fs' q = gm_get fs2 q" if "q \<noteq> walPath ds" for q
      using wl.trunc_frame [OF saved(3)] that p by simp
    have nf: "newest_first ds fs'" "snap_at ds fs' 0 = Some \<lparr>sFormat = 1, sTerm = t, sVersion = v, sKV = sort_kv kv\<rparr>"
      by (rule saved_newest_first [OF wf kv(1) saved(1,2)]; use fr lev in blast)+
    have lat: "latest ds fs' = Some \<lparr>sFormat = 1, sTerm = t, sVersion = v, sKV = sort_kv kv\<rparr>"
      using latest_newest_first [OF nf(1)] nf(2) wf by (simp add: ds_wf_def)
    have h2: "wal_holds (walFile ds) fs2 es"
      using wl.frame [OF holds] saved(2) wp [OF saved(1)] ds_wf_paths [OF wf] p by simp
    have wpath: "wPath w = walPath ds" using wl.trunc_path [OF saved(3)] p by simp
    show ?thesis
    proof (cases tr)
      case None
      then have hw: "wal_holds w fs' []" using wl.trunc_ok [OF h2] saved(3) by simp
      then have "disk_abs ds fs' = Some (load_abs (recovered (latest ds fs') []))"
        using disk_abs_recovered [OF p, of fs' "[]"] wl.read [OF hw] wpath by simp
      moreover have "disk_within 0 ds' fs'"
        using None saved(5) hw wpath wf nf(1)
        by (intro disk_withinI [of _ _ "[]"]) (auto simp: newest_within_0 [symmetric] disk_inv_def ds_wf_def)
      ultimately show ?thesis
        using None saved(4,5) base_load_saved [OF kv(1), of t v] kv(2)
        by (simp add: lat recovered_def)
    next
      case (Some err)
      then have "fs' = fs2" "w = walFile ds" using wl.trunc_err saved(3) by auto
      have "disk_within (Suc n) ds fs2"
        using h2 wf so nf(1) \<open>fs' = fs2\<close> newest_within_mono [of 0 ds fs2 "Suc n"]
        by (intro disk_withinI [of _ _ es]) (simp_all add: newest_within_0 disk_inv_def)
      have "fold replay_step es (base_load (latest ds fs')) = base_load (latest ds fs')"
        using recovered_version_ge [of _ es "latest ds fs"] ver by (intro replay_skip) (simp add: lat base_load_def)
      then show ?thesis
        using Some saved(4,5) disk_abs_recovered [OF p, of fs' es] wl.read [OF h2] \<open>fs' = fs2\<close> p so
          base_load_saved [OF kv(1), of t v] kv(2) lat \<open>w = walFile ds\<close> \<open>disk_within (Suc n) ds fs2\<close>
        by (simp add: recovered_def)
    qed
  qed
qed

definition snapshot_due :: "disk_state \<Rightarrow> bool" where
  "snapshot_due ds \<longleftrightarrow> snapshotInterval ds \<le> writesSinceSnapshot ds"

lemma ds_maybeSnapshot_within:
  assumes "disk_within n ds fs" and "r = None \<or> room n ds" and "disk_abs ds fs = Some (t, v, m)" and "kv_ok kv" "map_of kv = m"
    and "ds_maybeSnapshot io ds t v kv fs = (fs', ds', r)"
  shows "disk_abs ds' fs' = Some (t, v, m) \<and>
    disk_within (if r \<noteq> None then Suc n else if snapshot_due ds then 0 else n) ds' fs'"
proof -
  obtain es where "disk_inv ds fs es" "newest_within n ds fs" using disk_withinE [OF assms(1)] .
  note snap = ds_takeSnapshot_abs [OF this assms(2-5), of io fs' ds']
  show ?thesis
  proof (cases "snapshot_due ds")
    case True
    with assms(6) snap show ?thesis by (cases r) (simp_all add: ds_maybeSnapshot_def snapshot_due_def)
  qed (use assms in \<open>simp add: ds_maybeSnapshot_def snapshot_due_def\<close>)
qed

interpretation dur: durable_shard disk_within room snapshot_due disk_abs ds_appendWAL ds_maybeSnapshot
proof unfold_locales
  fix n ds fs st e io fs' ds'
  assume *: "disk_within n ds fs" "disk_abs ds fs = Some st" "wal_ok e" "abs_next e st"
  obtain es where inv: "disk_inv ds fs es" "newest_within n ds fs" using disk_withinE [OF *(1)] .
  note step = ds_append_abs [OF inv *(3,2,4)]
  { assume "ds_appendWAL io ds e fs = (fs', ds', None)"
    from step [OF this] show "disk_within n ds' fs' \<and> disk_abs ds' fs' = Some (abs_step e st)"
      by (auto intro: disk_withinI) }
  { fix err
    assume "ds_appendWAL io ds e fs = (fs', ds', Some err)"
    from step [OF this] show "disk_abs ds' fs' \<in> {Some st, Some (abs_step e st)}" by simp }
next
  fix n d fs t v m kv io fs' d' r
  assume "disk_within n d fs" "r = None \<or> room n d" "disk_abs d fs = Some (t, v, m)" "kv_ok kv" "map_of kv = m"
    "ds_maybeSnapshot io d t v kv fs = (fs', d', r)"
  then show "disk_abs d' fs' = Some (t, v, m) \<and>
      disk_within (if r \<noteq> None then Suc n else if snapshot_due d then 0 else n) d' fs'"
    by (rule ds_maybeSnapshot_within)
qed (auto simp: room_def elim: ds_appendWAL_cases)

lemma ds_takeSnapshot_io_ok:
  assumes "wOpen (walFile ds)" and "ds_takeSnapshot disk_io_ok ds t v kv fs = (fs', ds', r)"
  shows "r = None"
proof -
  obtain fs1 r1 where l: "rotate_loop disk_io_ok (snapshotPath ds) (snapshotRetention ds) (snapshotRetention ds - 1) fs = (fs1, r1)"
    by fastforce
  then have "r1 = None" by (rule rotate_loop_ok) (simp add: disk_io_ok_def)
  with assms l show ?thesis
    by (auto simp: ds_takeSnapshot_def rotateSnapshots_def disk_io_ok_def snap_Save_def writeAndSync_def
        wal_Truncate_def CurrentFormatVersion_def Let_def split: if_splits prod.splits)
qed

text \<open>When index 0 holds an older snapshot than index 1, the latter is loaded.\<close>

lemma latest_second:
  assumes ret: "2 \<le> snapshotRetention ds" and z: "snap_at ds fs 0 = Some s" and lt: "sVersion s < sVersion s0"
    and one: "snap_at ds fs 1 = Some s0"
    and le: "\<And>k s. k < snapshotRetention ds \<Longrightarrow> 1 < k \<Longrightarrow> snap_at ds fs k = Some s \<Longrightarrow> sVersion s \<le> sVersion s0"
  shows "latest ds fs = Some s0"
proof -
  let ?P = "snapshotPathFor (snapshotPath ds)"
  have split: "[0 ..< snapshotRetention ds] = 0 # 1 # [2 ..< snapshotRetention ds]"
    using ret by (simp add: upt_conv_Cons numeral_2_eq_2)
  have l0: "snap_Load IoOk (?P 0) fs = (s, True, None)" and l1: "snap_Load IoOk (?P 1) fs = (s0, True, None)"
    using z one by (auto simp: snap_at_def split: prod.splits bool.splits option.splits)
  have "load_latest_loop (\<lambda>_. IoOk) (snapshotPath ds) fs [2 ..< snapshotRetention ds] (s0, ?P 1, True) = (s0, ?P 1, True)"
  proof (rule load_latest_skip, intro ballI)
    fix i assume "i \<in> set [2 ..< snapshotRetention ds]"
    then show "snap_at ds fs i = None \<or> True \<and> sVersion (the (snap_at ds fs i)) \<le> sVersion s0"
      using le [of i] by (cases "snap_at ds fs i") auto
  qed
  then show ?thesis
    using l0 l1 lt by (simp add: latest_def loadLatestSnapshot_def split Let_def)
qed

section \<open>Properties\<close>

lemma disk_fresh:
  assumes "ds_wf ds" "wOpen (walFile ds)" "\<not> wEncErr (walFile ds)" "fs = [(walPath ds, [])]"
  shows "disk_good ds fs \<and> disk_abs ds fs = Some (0, 0, Map.empty)"
proof -
  have inv: "disk_inv ds fs []" using assms by (auto simp: disk_inv_def wal_holds_def ds_wf_def)
  have none: "snap_at ds fs i = None" for i
    using ds_wf_paths(1) [OF assms(1), of i] assms(4) by (simp add: snap_at_def snap_Load_def)
  then have "latest ds fs = None" by (simp add: latest_def loadLatest_none)
  with inv none show ?thesis
    using disk_inv_abs [OF inv] by (auto simp: disk_goodI newest_first_iff recovered_def load_abs_def disk_load_zero_def)
qed

lemma disk_one_snapshot:
  assumes wf: "ds_wf ds" "wOpen (walFile ds)" "\<not> wEncErr (walFile ds)"
    and fs: "fs = [(walPath ds, concat (map wal_line es)), (snapshotPath ds, snap_bytes t v kv)]"
    and es: "list_all wal_ok es" "sorted (map wVersion es)" and kv: "kv_ok kv"
  shows "disk_inv ds fs es \<and> newest_first ds fs \<and>
    snap_at ds fs 0 = Some \<lparr>sFormat = 1, sTerm = t, sVersion = v, sKV = sort_kv kv\<rparr>"
proof -
  have inv: "disk_inv ds fs es"
    using wf fs es by (auto simp: disk_inv_def wal_holds_def ds_wf_def)
  have z: "snap_at ds fs 0 = Some \<lparr>sFormat = 1, sTerm = t, sVersion = v, sKV = sort_kv kv\<rparr>"
    using fs ds_wf_paths(3) [OF wf(1)] by (intro snap_at_saved [OF _ kv]) simp
  have "i = 0" if "snap_at ds fs i = Some s" for i s
    using ds_wf_paths(1) [OF wf(1), of i] fs that by (cases "i = 0") (auto simp: snap_at_def snap_Load_def)
  then have "newest_first ds fs" using z by (fastforce simp: newest_first_iff)
  with inv z show ?thesis by simp
qed

lemma disk_demo:
  assumes "0 < r"
  shows "let ds = \<lparr>walFile = \<lparr>wPath = ''d/wal.jsonl'', wOpen = True, wEncErr = False\<rparr>, walPath = ''d/wal.jsonl'',
      snapshotPath = ''d/snapshot.json'', writesSinceSnapshot = w, snapshotInterval = i, snapshotRetention = r\<rparr>;
      e = \<lparr>wTerm = 1, wVersion = 6, wOp = ''put'', wKey = ''x'', wValue = ''y''\<rparr>;
      fs = [(''d/wal.jsonl'', wal_line e), (''d/snapshot.json'', snap_bytes 1 5 [(''k'', ''v'')])]
    in disk_inv ds fs [e] \<and> newest_first ds fs \<and> disk_abs ds fs = Some (1, 6, [''x'' \<mapsto> ''y'', ''k'' \<mapsto> ''v''])"
proof -
  let ?ds = "\<lparr>walFile = \<lparr>wPath = ''d/wal.jsonl'', wOpen = True, wEncErr = False\<rparr>, walPath = ''d/wal.jsonl'',
    snapshotPath = ''d/snapshot.json'', writesSinceSnapshot = w, snapshotInterval = i, snapshotRetention = r\<rparr>"
  let ?e = "\<lparr>wTerm = 1, wVersion = 6, wOp = ''put'', wKey = ''x'', wValue = ''y''\<rparr>"
  let ?fs = "[(''d/wal.jsonl'', wal_line ?e), (''d/snapshot.json'', snap_bytes 1 5 [(''k'', ''v'')])]"
  have kv: "kv_ok [(''k'', ''v'')]" by (simp add: kv_ok_def gm_wf_def utf8_valid_ascii)
  have ok: "wal_ok ?e" by (rule wal_ok_size) (simp_all add: utf8_valid_ascii)
  have one: "disk_inv ?ds ?fs [?e] \<and> newest_first ?ds ?fs \<and>
      snap_at ?ds ?fs 0 = Some \<lparr>sFormat = 1, sTerm = 1, sVersion = 5, sKV = sort_kv [(''k'', ''v'')]\<rparr>"
    by (rule disk_one_snapshot) (simp_all add: ds_wf_def kv ok assms)
  then have "disk_abs ?ds ?fs = Some (1, 6, [''x'' \<mapsto> ''y'', ''k'' \<mapsto> ''v''])"
    using disk_inv_abs [of ?ds ?fs "[?e]"] latest_newest_first [of ?ds ?fs] assms
    by (simp add: recovered_def base_load_def replay_step_def load_abs_def sort_kv_def gm_into_def)
  with one show ?thesis by (simp add: Let_def)
qed



text \<open>
  Property C37.  Installing an older state is not durable: when a replica is reset to a version below
  that of its newest snapshot and at least two snapshots are retained, the reset returns nil, and a
  restart finds the old snapshot instead of the installed state.
\<close>

theorem reset_to_older_not_durable:
  assumes good: "disk_good ds fs" and ret: "2 \<le> snapshotRetention ds"
    and s0: "snap_at ds fs 0 = Some s0" and older: "v < sVersion s0" and kv: "kv_ok kv" and stat: "ioStat io 0 = IoOk"
    and a: "ds_resetSnapshot io ds t v kv fs = (fs', ds', None)"
  shows "disk_abs ds' fs' = Some (load_abs (base_load (Some s0)))"
proof -
  obtain es where inv: "disk_inv ds fs es" "newest_first ds fs" using disk_goodE [OF good] .
  then have wf: "ds_wf ds" and p: "walPath ds = wPath (walFile ds)" and holds: "wal_holds (walFile ds) fs es"
    by (auto simp: disk_inv_def ds_wf_def)
  from a [unfolded ds_resetSnapshot_eq] show ?thesis
  proof (cases rule: ds_takeSnapshot_cases)
    case (saved fs1 fs2 w tr)
    have fr: "gm_get fs' q = gm_get fs2 q" if "q \<noteq> walPath ds" for q
      using wl.trunc_frame [OF saved(3)] that p by simp
    have k: "snap_at ds fs' k = snap_at ds fs1 k" if "0 < k" for k
      using that fr [OF ds_wf_paths(1) [OF wf]] saved(2) by (intro snap_at_cong) simp
    have z: "snap_at ds fs' 0 = Some \<lparr>sFormat = 1, sTerm = t, sVersion = v, sKV = sort_kv kv\<rparr>"
      using fr [OF ds_wf_paths(3) [OF wf]] saved(2) by (intro snap_at_saved [OF _ kv]) simp
    have "gm_get fs (snapshotPath ds) \<noteq> None" using s0 snap_at_absent [of fs ds 0] by auto
    then have "gm_get fs1 (snapshotPathFor (snapshotPath ds) 1) = gm_get fs (snapshotPathFor (snapshotPath ds) 0)"
      using rotateSnapshots_rotated [OF saved(1) ret, of 0] stat by auto
    then have "snap_at ds fs' 1 = Some s0" using k [of 1] s0 snap_at_cong [of fs1 ds 1 fs 0] by simp
    then have "latest ds fs' = Some s0"
    proof (rule latest_second [OF ret z, rotated])
      fix k s assume "k < snapshotRetention ds" "1 < k" "snap_at ds fs' k = Some s"
      then obtain j where "j < snapshotRetention ds" "snap_at ds fs j = Some s" using rotate_snap [OF saved(1)] k [of k] by auto
      then show "sVersion s \<le> sVersion s0" using inv(2) s0 by (auto simp: newest_first_iff)
    qed (use older in simp)
    moreover have "wal_holds w fs' []"
      using wl.trunc_ok [OF wl.frame [OF holds], of fs2] saved rotate_frame [OF saved(1)] ds_wf_paths [OF wf] p
      by (metis fun_upd_other map_option_is_None)
    ultimately show ?thesis
      using saved(5) disk_abs_recovered [OF p, of fs' "[]"] wl.read [of w fs' "[]"] wl.trunc_path [OF saved(3)] p
      by (simp add: recovered_def)
  qed simp
qed

theorem reset_to_older_not_durable_witness:
  "let ds = \<lparr>walFile = \<lparr>wPath = ''d/wal.jsonl'', wOpen = True, wEncErr = False\<rparr>, walPath = ''d/wal.jsonl'',
         snapshotPath = ''d/snapshot.json'', writesSinceSnapshot = 0, snapshotInterval = 10, snapshotRetention = 2\<rparr>;
       fs = [(''d/wal.jsonl'', []), (''d/snapshot.json'', snap_bytes 1 5 [(''k'', ''v'')])];
       (fs', ds', r) = ds_resetSnapshot disk_io_ok ds 1 3 [] fs
   in r = None \<and> disk_abs ds' fs' = Some (1, 5, [''k'' \<mapsto> ''v''])"
proof -
  let ?ds = "\<lparr>walFile = \<lparr>wPath = ''d/wal.jsonl'', wOpen = True, wEncErr = False\<rparr>, walPath = ''d/wal.jsonl'',
         snapshotPath = ''d/snapshot.json'', writesSinceSnapshot = 0, snapshotInterval = 10, snapshotRetention = 2\<rparr>"
  let ?fs = "[(''d/wal.jsonl'', []), (''d/snapshot.json'', snap_bytes 1 5 [(''k'', ''v'')])]"
  have kv: "kv_ok [(''k'', ''v'')]" by (simp add: kv_ok_def gm_wf_def utf8_valid_ascii)
  have one: "disk_inv ?ds ?fs [] \<and> newest_first ?ds ?fs \<and>
      snap_at ?ds ?fs 0 = Some \<lparr>sFormat = 1, sTerm = 1, sVersion = 5, sKV = sort_kv [(''k'', ''v'')]\<rparr>"
    by (rule disk_one_snapshot) (simp_all add: ds_wf_def kv)
  obtain fs' ds' r where d: "ds_resetSnapshot disk_io_ok ?ds 1 3 [] ?fs = (fs', ds', r)"
    by (cases "ds_resetSnapshot disk_io_ok ?ds 1 3 [] ?fs")
  then have r: "r = None"
    using ds_takeSnapshot_io_ok [of ?ds] by (simp add: ds_resetSnapshot_eq)
  have good: "disk_good ?ds ?fs" and ret: "2 \<le> snapshotRetention ?ds" and kv0: "kv_ok []"
    and at: "snap_at ?ds ?fs 0 = Some \<lparr>sFormat = 1, sTerm = 1, sVersion = 5, sKV = sort_kv [(''k'', ''v'')]\<rparr>"
    using one disk_goodI by (auto simp: kv_ok_def)
  have "disk_abs ds' fs' = Some (1, 5, [''k'' \<mapsto> ''v''])"
    using reset_to_older_not_durable [OF good ret at _ kv0 _ d [unfolded r]] base_load_saved [OF kv, of 1 5]
    by (simp add: disk_io_ok_def)
  with d r show ?thesis by simp
qed

text \<open>
  Two failed snapshots lose the base state: with a retention of two, two calls of
  \<^verbatim>\<open>takeSnapshot\<close> that fail to write the new file have rotated the last good snapshot beyond the files
  that are loaded.  The log holds only the writes after it, and a restart replays them on an empty map
  and reports the result as valid.
\<close>

theorem failed_saves_lose_snapshot:
  assumes inv: "disk_inv ds fs es" and ret: "snapshotRetention ds = 2" and es: "es \<noteq> []"
    and io: "ioSave io = SaveCreateFails" "ioRename io = (\<lambda>_. IoOk)" "ioStat io = (\<lambda>_. IoOk)"
    and a: "ds_takeSnapshot io ds t v kv fs = (fs1, ds1, r1)"
    and b: "ds_takeSnapshot io ds1 t' v' kv' fs1 = (fs2, ds2, r2)"
  shows "ds_restart ds2 fs2 = Inr (fold replay_step es \<lparr>dTerm = 0, dVersion = 0, dKV = [], dValid = True\<rparr>)"
proof -
  have wf: "ds_wf ds" using inv by (simp add: disk_inv_def)
  let ?P = "snapshotPathFor (snapshotPath ds)"
  have step: "gm_get g' (?P 0) = None \<and> gm_get g' (?P 1) = gm_get g (?P 0) \<and> d' = ds \<and>
      gm_get g' (walPath ds) = gm_get g (walPath ds)"
    if t: "ds_takeSnapshot io ds t v kv g = (g', d', r)" for g g' d' r t v kv
  proof -
    obtain h r' where h: "rotateSnapshots io ds g = (h, r')" by fastforce
    then have "r' = None" and hg: "gm_get h (?P 0) = None \<and> gm_get h (?P 1) = gm_get g (?P 0)"
      using ret io(2,3) snapshotPathFor_inject [of "snapshotPath ds" 1 2]
      by (auto simp: rotateSnapshots_def numeral_2_eq_2 Let_def gomap_simps split: if_splits option.splits)
    then have "g' = h \<and> d' = ds" using t h io(1)
      by (auto simp: ds_takeSnapshot_def snap_Save_def writeAndSync_def CurrentFormatVersion_def Let_def)
    moreover have "gm_get h (walPath ds) = gm_get g (walPath ds)"
      by (rule rotate_frame [OF h]) (auto dest: ds_wf_paths(1) [OF wf, THEN notE, OF sym])
    ultimately show ?thesis using hg by simp
  qed
  from step [OF a] have 1: "gm_get fs1 (?P 0) = None" "ds1 = ds" "gm_get fs1 (walPath ds) = gm_get fs (walPath ds)" by auto
  from step [OF b [unfolded 1(2)]] have 2: "gm_get fs2 (?P 0) = None" "gm_get fs2 (?P 1) = None" "ds2 = ds"
    "gm_get fs2 (walPath ds) = gm_get fs1 (walPath ds)"
    using 1(1) by auto
  have "snap_at ds fs2 i = None" if "i < 2" for i
    using 2(1,2) that snap_at_absent [of fs2 ds i] by (auto simp: less_2_cases_iff)
  then have none: "latest ds fs2 = None" using loadLatest_none [of ds fs2] by (simp add: latest_def ret)
  have "disk_inv ds fs2 es"
    using inv 1(3) 2(4) wl.frame [of "walFile ds" fs es fs2] by (auto simp: disk_inv_def ds_wf_def)
  from disk_inv_read [OF this] show ?thesis
    using ds_restart_recovered [of ds fs2 es] none es 2(3) by (auto simp: recovered_def base_load_def)
qed

theorem failed_saves_lose_snapshot_witness:
  "let ds = \<lparr>walFile = \<lparr>wPath = ''d/wal.jsonl'', wOpen = True, wEncErr = False\<rparr>, walPath = ''d/wal.jsonl'',
         snapshotPath = ''d/snapshot.json'', writesSinceSnapshot = 9, snapshotInterval = 1, snapshotRetention = 2\<rparr>;
       e = \<lparr>wTerm = 1, wVersion = 6, wOp = ''put'', wKey = ''x'', wValue = ''y''\<rparr>;
       fs = [(''d/wal.jsonl'', wal_line e), (''d/snapshot.json'', snap_bytes 1 5 [(''k'', ''v'')])];
       io = disk_io_ok\<lparr>ioSave := SaveCreateFails\<rparr>; kv = [(''k'', ''v''), (''x'', ''y'')];
       (fs1, ds1, r1) = ds_takeSnapshot io ds 1 6 kv fs;
       (fs2, ds2, r2) = ds_takeSnapshot io ds1 1 6 kv fs1
   in disk_abs ds fs = Some (1, 6, [''x'' \<mapsto> ''y'', ''k'' \<mapsto> ''v'']) \<and>
      ds_restart ds2 fs2 = Inr \<lparr>dTerm = 1, dVersion = 6, dKV = [(''x'', ''y'')], dValid = True\<rparr>"
proof -
  let ?ds = "\<lparr>walFile = \<lparr>wPath = ''d/wal.jsonl'', wOpen = True, wEncErr = False\<rparr>, walPath = ''d/wal.jsonl'',
         snapshotPath = ''d/snapshot.json'', writesSinceSnapshot = 9, snapshotInterval = 1, snapshotRetention = 2\<rparr>"
  let ?e = "\<lparr>wTerm = 1, wVersion = 6, wOp = ''put'', wKey = ''x'', wValue = ''y''\<rparr>"
  let ?fs = "[(''d/wal.jsonl'', wal_line ?e), (''d/snapshot.json'', snap_bytes 1 5 [(''k'', ''v'')])]"
  let ?io = "disk_io_ok\<lparr>ioSave := SaveCreateFails\<rparr>" and ?kv = "[(''k'', ''v''), (''x'', ''y'')]"
  have one: "disk_inv ?ds ?fs [?e]" "disk_abs ?ds ?fs = Some (1, 6, [''x'' \<mapsto> ''y'', ''k'' \<mapsto> ''v''])"
    using disk_demo [of 2 9 1] by (auto simp: Let_def)
  obtain fs1 ds1 r1 where a: "ds_takeSnapshot ?io ?ds 1 6 ?kv ?fs = (fs1, ds1, r1)"
    by (cases "ds_takeSnapshot ?io ?ds 1 6 ?kv ?fs")
  obtain fs2 ds2 r2 where b: "ds_takeSnapshot ?io ds1 1 6 ?kv fs1 = (fs2, ds2, r2)"
    by (cases "ds_takeSnapshot ?io ds1 1 6 ?kv fs1")
  have "ds_restart ds2 fs2 = Inr \<lparr>dTerm = 1, dVersion = 6, dKV = [(''x'', ''y'')], dValid = True\<rparr>"
    using failed_saves_lose_snapshot [OF one(1) _ _ _ _ _ a b]
    by (simp add: disk_io_ok_def replay_step_def)
  with one(2) a b show ?thesis by (simp add: Let_def)
qed

end
