(* ===== verification/StateMachine.thy ===== *)
theory StateMachine
  imports ReplicationLog Storage Durability
begin

text \<open>
  The shard state machine, \<^verbatim>\<open>node/statemachine.go\<close>: the single entry point for applying log entries and
  snapshots to the storage, the replication log and the disk.

  The struct points at the replica's \<^verbatim>\<open>Term\<close> and \<^verbatim>\<open>Version\<close>; here the two counters are fields of
  \<open>shard_sm\<close> and a replica reads them through it.  The file system is threaded through the operations
  that reach the disk.  \<open>sm_abs\<close> is the abstract state: term, version and key-value map.
\<close>

datatype apply_mode = ApplyWithWAL | ApplyWithoutWAL
datatype snapshot_mode = SnapshotPersist | SnapshotNoPersist

record state_snapshot =
  snTerm :: uint64
  snVersion :: uint64
  snKV :: "(string, string) gomap"

record shard_sm =
  smKv :: store
  smLog :: rlog
  smTerm :: uint64
  smVersion :: uint64
  smDs :: "disk_state option"

datatype sm_error = NonMonotonicApply uint64 uint64 | StaleTermApply uint64 uint64 | WalAppendFailed disk_error
  | UnknownOp string | DiskResetFailed disk_error

definition newShardStateMachine :: "store \<Rightarrow> rlog \<Rightarrow> uint64 \<Rightarrow> uint64 \<Rightarrow> disk_state option \<Rightarrow> shard_sm" where
  "newShardStateMachine kv repLog t v ds = \<lparr>smKv = kv, smLog = repLog, smTerm = t, smVersion = v, smDs = ds\<rparr>"

definition sm_SetDiskState :: "shard_sm \<Rightarrow> disk_state \<Rightarrow> shard_sm" where
  "sm_SetDiskState sm ds = sm\<lparr>smDs := Some ds\<rparr>"

definition sm_Get :: "shard_sm \<Rightarrow> string \<Rightarrow> string \<times> bool" where
  "sm_Get sm key = mem_Get (smKv sm) key"

definition sm_Size :: "shard_sm \<Rightarrow> int" where
  "sm_Size sm = mem_Size (smKv sm)"

definition sm_Snapshot :: "shard_sm \<Rightarrow> state_snapshot" where
  "sm_Snapshot sm = \<lparr>snTerm = smTerm sm, snVersion = smVersion sm, snKV = mem_Snapshot (smKv sm)\<rparr>"

definition walEntryFrom :: "string \<Rightarrow> string \<Rightarrow> string \<Rightarrow> uint64 \<Rightarrow> uint64 \<Rightarrow> wal_entry" where
  "walEntryFrom op key v t ver = \<lparr>wTerm = t, wVersion = ver, wOp = op, wKey = key, wValue = v\<rparr>"

definition sm_Apply :: "write_io \<Rightarrow> shard_sm \<Rightarrow> entry \<Rightarrow> apply_mode \<Rightarrow> fs \<Rightarrow> fs \<times> shard_sm \<times> sm_error option" where
  "sm_Apply io sm e mode fs =
     (if eVersion e \<noteq> smVersion sm + 1 then (fs, sm, Some (NonMonotonicApply (smVersion sm) (eVersion e)))
      else if eTerm e < smTerm sm then (fs, sm, Some (StaleTermApply (smTerm sm) (eTerm e)))
      else
        (case (case (if mode = ApplyWithWAL then smDs sm else None) of
                 None \<Rightarrow> (fs, sm, None)
               | Some ds \<Rightarrow>
                   (case ds_appendWAL io ds (walEntryFrom (eOp e) (eKey e) (eValue e) (eTerm e) (eVersion e)) fs of
                      (fs', ds', err) \<Rightarrow> (fs', sm\<lparr>smDs := Some ds'\<rparr>, map_option WalAppendFailed err))) of
           (fs1, sm1, Some err) \<Rightarrow> (fs1, sm1, Some err)
         | (fs1, sm1, None) \<Rightarrow>
             if eOp e = ''put'' \<or> eOp e = ''delete'' then
               (fs1, sm1\<lparr>smKv := (if eOp e = ''put'' then mem_Put (smKv sm1) (eKey e) (eValue e)
                                  else mem_Delete (smKv sm1) (eKey e)),
                         smVersion := eVersion e, smTerm := eTerm e, smLog := rlog_Append (smLog sm1) e\<rparr>, None)
             else (fs1, sm1, Some (UnknownOp (eOp e)))))"

definition sm_ApplySnapshot :: "disk_io \<Rightarrow> shard_sm \<Rightarrow> state_snapshot \<Rightarrow> snapshot_mode \<Rightarrow> fs
    \<Rightarrow> fs \<times> shard_sm \<times> sm_error option" where
  "sm_ApplySnapshot io sm sn mode fs =
     (let sm1 = sm\<lparr>smKv := mem_ApplySnapshot (smKv sm) (snKV sn), smVersion := snVersion sn,
                   smTerm := snTerm sn, smLog := rlog_Reset (smLog sm)\<rparr> in
      case (if mode = SnapshotPersist then smDs sm1 else None) of
        None \<Rightarrow> (fs, sm1, None)
      | Some ds \<Rightarrow>
          (case ds_resetSnapshot io ds (snTerm sn) (snVersion sn) (snKV sn) fs of
             (fs', ds', err) \<Rightarrow> (fs', sm1\<lparr>smDs := Some ds'\<rparr>, map_option DiskResetFailed err)))"

definition sm_EntriesSince :: "shard_sm \<Rightarrow> uint64 \<Rightarrow> entry list \<times> bool" where
  "sm_EntriesSince sm v = rlog_Since (smLog sm) v"

definition sm_ResetLog :: "shard_sm \<Rightarrow> shard_sm" where
  "sm_ResetLog sm = sm\<lparr>smLog := rlog_Reset (smLog sm)\<rparr>"

definition sm_LogLen :: "shard_sm \<Rightarrow> int" where
  "sm_LogLen sm = rlog_Len (smLog sm)"

text \<open>The snapshot step of the write path: \<^verbatim>\<open>if ds != nil { ds.maybeSnapshot(term, version, SM.Snapshot().KV) }\<close>.\<close>

definition sm_maybeSnapshot :: "disk_io \<Rightarrow> shard_sm \<Rightarrow> uint64 \<Rightarrow> uint64 \<Rightarrow> fs \<Rightarrow> fs \<times> shard_sm \<times> disk_error option" where
  "sm_maybeSnapshot io sm t v fs = (case smDs sm of
      None \<Rightarrow> (fs, sm, None)
    | Some ds \<Rightarrow> (case ds_maybeSnapshot io ds t v (snKV (sm_Snapshot sm)) fs of
        (fs', ds', err) \<Rightarrow> (fs', sm\<lparr>smDs := Some ds'\<rparr>, err)))"

section \<open>Abstract behaviour\<close>

definition sm_abs :: "shard_sm \<Rightarrow> shard_abs" where
  "sm_abs sm = (smTerm sm, smVersion sm, mem_abs (smKv sm))"

definition entry_wal :: "entry \<Rightarrow> wal_entry" where
  "entry_wal e = walEntryFrom (eOp e) (eKey e) (eValue e) (eTerm e) (eVersion e)"

definition known_op :: "entry \<Rightarrow> bool" where
  "known_op e \<longleftrightarrow> eOp e = ''put'' \<or> eOp e = ''delete''"

text \<open>The abstract effect of one entry, and of a list of entries.\<close>

definition apply_abs :: "entry \<Rightarrow> shard_abs \<Rightarrow> shard_abs" where
  "apply_abs e st = abs_step (entry_wal e) st"

definition storable :: "entry \<Rightarrow> bool" where
  "storable e \<longleftrightarrow> wal_ok (entry_wal e)"

text \<open>
  \<open>sm_durable sm fs\<close>: a replica with a disk would recover from it exactly the state it has in memory, and
  its newest snapshot is in the first file; \<open>sm_within n sm fs\<close>: the same with the newest snapshot at most
  \<open>n\<close> files away from the first.
  \<open>sm_hist b h sm\<close>: since version \<open>b\<close> the machine has applied exactly the entries \<open>h\<close>.
\<close>

definition sm_durable :: "shard_sm \<Rightarrow> fs \<Rightarrow> bool" where
  "sm_durable sm fs \<longleftrightarrow> kv_ok (sdata (smKv sm)) \<and>
     (case smDs sm of None \<Rightarrow> True | Some d \<Rightarrow> disk_good d fs \<and> disk_abs d fs = Some (sm_abs sm))"

definition sm_within :: "nat \<Rightarrow> shard_sm \<Rightarrow> fs \<Rightarrow> bool" where
  "sm_within n sm fs \<longleftrightarrow> kv_ok (sdata (smKv sm)) \<and>
     (case smDs sm of None \<Rightarrow> True | Some d \<Rightarrow> disk_within n d fs \<and> disk_abs d fs = Some (sm_abs sm))"

definition sm_hist :: "uint64 \<Rightarrow> entry list \<Rightarrow> shard_sm \<Rightarrow> bool" where
  "sm_hist b h sm \<longleftrightarrow> rlog_rep h (smLog sm) \<and> consecutive b h \<and>
     unat (smVersion sm) = unat b + length h \<and> mem_wf (smKv sm)"

lemma apply_abs_simps:
  "apply_abs e (t, v, m) = (eTerm e, eVersion e,
     if eOp e = ''put'' then m(eKey e \<mapsto> eValue e) else if eOp e = ''delete'' then m(eKey e := None) else m)"
  by (simp add: apply_abs_def abs_step_def entry_wal_def walEntryFrom_def)

lemma sm_Apply_ok_iff:
  assumes "sm_Apply io sm e mode fs = (fs', sm', None)"
  shows "eVersion e = smVersion sm + 1 \<and> smTerm sm \<le> eTerm e \<and> known_op e"
  using assms by (auto simp: sm_Apply_def known_op_def not_less split: if_splits option.splits prod.splits)

lemma sm_Apply_abs:
  assumes "sm_Apply io sm e mode fs = (fs', sm', None)" and "mem_wf (smKv sm)"
  shows "sm_abs sm' = apply_abs e (sm_abs sm) \<and> mem_wf (smKv sm') \<and> smLog sm' = rlog_Append (smLog sm) e"
  using assms st.put [of "smKv sm" "eKey e" "eValue e"] st.delete [of "smKv sm" "eKey e"]
  by (auto simp: sm_Apply_def sm_abs_def apply_abs_simps split: if_splits option.splits prod.splits)

lemma sm_Apply_err:
  assumes "sm_Apply io sm e mode fs = (fs', sm', Some err)"
  shows "sm_abs sm' = sm_abs sm \<and> smKv sm' = smKv sm \<and> smLog sm' = smLog sm"
  using assms by (auto simp: sm_Apply_def sm_abs_def split: if_splits option.splits prod.splits)

lemma sm_Apply_hist:
  assumes "sm_hist b h sm" and a: "sm_Apply io sm e mode fs = (fs', sm', None)" and "smVersion sm \<noteq> - 1"
  shows "sm_hist b (h @ [e]) sm'"
proof -
  have e: "eVersion e = smVersion sm + 1" using sm_Apply_ok_iff [OF a] by simp
  have w: "mem_wf (smKv sm)" using assms(1) by (simp add: sm_hist_def)
  have "unat (smVersion sm + 1) = Suc (unat (smVersion sm))"
    using assms(3) by (simp add: uint64_unat_succ uint64_succ_neq0_iff)
  moreover have "smVersion sm' = eVersion e" using sm_Apply_abs [OF a w] by (simp add: sm_abs_def apply_abs_simps)
  ultimately show ?thesis
    using assms(1) sm_Apply_abs [OF a w] e lq.rep_append [of h "smLog sm" e] by (simp add: sm_hist_def consecutive_snoc)
qed

section \<open>Durability of applied entries\<close>

text \<open>
  The life of a state machine with a disk: storable entries applied with the log, returning nil,
  attempts to take a snapshot, and resets of the in-memory log.  A snapshot may fail at any point, as
  long as there are fewer failures since the last one taken than retained files (\<open>room\<close>); the number
  in the relation counts them.
\<close>

definition sm_room :: "nat \<Rightarrow> shard_sm \<Rightarrow> bool" where
  "sm_room n sm \<longleftrightarrow> (case smDs sm of None \<Rightarrow> True | Some d \<Rightarrow> room n d)"

definition failures :: "nat \<Rightarrow> shard_sm \<Rightarrow> disk_error option \<Rightarrow> nat" where
  "failures n sm r = (if r \<noteq> None then Suc n
     else case smDs sm of None \<Rightarrow> n | Some d \<Rightarrow> if snapshot_due d then 0 else n)"

inductive sm_steps :: "shard_sm \<Rightarrow> fs \<Rightarrow> nat \<Rightarrow> shard_sm \<Rightarrow> fs \<Rightarrow> bool" where
  steps_refl: "sm_steps sm fs 0 sm fs"
| steps_apply: "\<lbrakk>sm_steps sm fs n sm1 fs1; storable e; smVersion sm1 \<noteq> - 1;
      sm_Apply io sm1 e ApplyWithWAL fs1 = (fs2, sm2, None)\<rbrakk> \<Longrightarrow> sm_steps sm fs n sm2 fs2"
| steps_snapshot: "\<lbrakk>sm_steps sm fs n sm1 fs1; r = None \<or> sm_room n sm1;
      sm_maybeSnapshot dio sm1 (smTerm sm1) (smVersion sm1) fs1 = (fs2, sm2, r)\<rbrakk>
    \<Longrightarrow> sm_steps sm fs (failures n sm1 r) sm2 fs2"
| steps_reset: "sm_steps sm fs n sm1 fs1 \<Longrightarrow> sm_steps sm fs n (sm_ResetLog sm1) fs1"

lemma sm_within_0: "sm_within 0 = sm_durable"
  by (intro ext) (simp add: sm_within_def sm_durable_def disk_within_0 split: option.splits)

lemma kv_ok_put: "kv_ok m \<Longrightarrow> utf8_valid k \<Longrightarrow> utf8_valid v \<Longrightarrow> kv_ok (gm_put k v m)"
proof -
  assume a: "kv_ok m" "utf8_valid k" "utf8_valid v"
  then have "gm_wf (gm_put k v m)" by (simp add: kv_ok_def)
  moreover have "set (gm_put k v m) \<subseteq> insert (k, v) (set m)" by (induction m) auto
  ultimately show ?thesis using a by (auto simp: kv_ok_def list_all_iff)
qed

lemma kv_ok_del: "kv_ok m \<Longrightarrow> kv_ok (gm_del k m)"
  using gm_wf_del [of m k] by (auto simp: kv_ok_def list_all_iff AList.delete_eq)

lemma storable_utf8: "storable e \<Longrightarrow> utf8_valid (eKey e) \<and> utf8_valid (eValue e)"
  by (simp add: storable_def wal_ok_def entry_wal_def walEntryFrom_def)

lemma kv_ok_mem_wf: "kv_ok (sdata s) \<Longrightarrow> mem_wf s"
  by (simp add: kv_ok_def mem_wf_def)

lemma sm_Apply_kv_ok:
  assumes "sm_Apply io sm e mode fs = (fs', sm', None)" and "kv_ok (sdata (smKv sm))" and "storable e"
  shows "kv_ok (sdata (smKv sm'))"
  using assms storable_utf8 [OF assms(3)]
  by (auto simp: sm_Apply_def mem_Put_def mem_Delete_def kv_ok_put kv_ok_del split: if_splits option.splits prod.splits)

text \<open>What \<^verbatim>\<open>Apply\<close> does to the disk of a machine that has one.\<close>

lemma sm_Apply_disk:
  assumes "sm_Apply io sm e ApplyWithWAL fs = (fs', sm', r)" and "smDs sm = Some d"
    and "eVersion e = smVersion sm + 1" "smTerm sm \<le> eTerm e"
  obtains d' dr where "ds_appendWAL io d (entry_wal e) fs = (fs', d', dr)" "smDs sm' = Some d'"
    "r = None \<longleftrightarrow> dr = None \<and> known_op e"
  using assms by (cases "ds_appendWAL io d (entry_wal e) fs")
    (auto simp: sm_Apply_def entry_wal_def known_op_def not_less split: if_splits option.splits)

lemma entry_wal_next:
  "eVersion e = smVersion sm + 1 \<Longrightarrow> smTerm sm \<le> eTerm e \<Longrightarrow> smVersion sm \<noteq> - 1 \<Longrightarrow> abs_next (entry_wal e) (sm_abs sm)"
  by (simp add: abs_next_def sm_abs_def entry_wal_def walEntryFrom_def uint64_succ_neq0_iff)

lemma sm_Apply_within:
  assumes dur: "sm_within n sm fs" and e: "storable e" "smVersion sm \<noteq> - 1"
    and a: "sm_Apply io sm e ApplyWithWAL fs = (fs', sm', None)"
  shows "sm_within n sm' fs'"
proof -
  have ok: "eVersion e = smVersion sm + 1" "smTerm sm \<le> eTerm e" using sm_Apply_ok_iff [OF a] by auto
  have kv: "kv_ok (sdata (smKv sm))" using dur by (simp add: sm_within_def)
  have abs: "sm_abs sm' = abs_step (entry_wal e) (sm_abs sm)"
    using sm_Apply_abs [OF a kv_ok_mem_wf [OF kv]] by (simp add: apply_abs_def)
  show ?thesis
  proof (cases "smDs sm")
    case None
    then have "smDs sm' = None" using a by (auto simp: sm_Apply_def split: if_splits)
    with sm_Apply_kv_ok [OF a kv e(1)] show ?thesis by (simp add: sm_within_def)
  next
    case (Some d)
    obtain d' where d': "ds_appendWAL io d (entry_wal e) fs = (fs', d', None)" "smDs sm' = Some d'"
      using sm_Apply_disk [OF a Some ok] by auto
    have "disk_within n d' fs' \<and> disk_abs d' fs' = Some (sm_abs sm')"
      unfolding abs
      by (rule dur.append_ok [OF _ _ _ _ d'(1)])
        (use dur Some e ok in \<open>auto simp: sm_within_def storable_def entry_wal_next\<close>)
    with d'(2) sm_Apply_kv_ok [OF a kv e(1)] show ?thesis by (simp add: sm_within_def)
  qed
qed

lemmas sm_Apply_durable = sm_Apply_within [of 0, unfolded sm_within_0]

lemma sm_maybeSnapshot_within:
  assumes dur: "sm_within n sm fs" and room: "r = None \<or> sm_room n sm"
    and a: "sm_maybeSnapshot io sm (smTerm sm) (smVersion sm) fs = (fs', sm', r)"
  shows "sm_within (failures n sm r) sm' fs' \<and> sm_abs sm' = sm_abs sm"
proof (cases "smDs sm")
  case None
  then show ?thesis using a dur by (auto simp: sm_maybeSnapshot_def failures_def)
next
  case (Some d)
  let ?kv = "snKV (sm_Snapshot sm)"
  obtain d' where d': "ds_maybeSnapshot io d (smTerm sm) (smVersion sm) ?kv fs = (fs', d', r)" "sm' = sm\<lparr>smDs := Some d'\<rparr>"
    using a Some by (auto simp: sm_maybeSnapshot_def split: prod.splits)
  have kv: "?kv = sdata (smKv sm)" using dur by (simp add: sm_Snapshot_def mem_Snapshot_def sm_within_def kv_ok_def)
  have "disk_abs d' fs' = Some (smTerm sm, smVersion sm, mem_abs (smKv sm)) \<and> disk_within (failures n sm r) d' fs'"
    using dur.snap_safe [of n d fs r "smTerm sm" "smVersion sm" "mem_abs (smKv sm)" ?kv io fs' d'] d'(1) dur Some kv room
    by (cases r; cases "snapshot_due d") (simp_all add: sm_within_def sm_abs_def mem_abs_def failures_def sm_room_def)
  with d' dur show ?thesis by (simp add: sm_within_def sm_abs_def)
qed

lemma sm_abs_reset [simp]: "sm_abs (sm_ResetLog sm) = sm_abs sm" "smDs (sm_ResetLog sm) = smDs sm" "smKv (sm_ResetLog sm) = smKv sm"
  by (simp_all add: sm_ResetLog_def sm_abs_def)

lemma sm_steps_within: "sm_steps sm fs n sm' fs' \<Longrightarrow> sm_durable sm fs \<Longrightarrow> sm_within n sm' fs'"
proof (induction rule: sm_steps.induct)
  case (steps_apply sm fs n sm1 fs1 e io fs2 sm2)
  then show ?case using sm_Apply_within by blast
next
  case (steps_snapshot sm fs n sm1 fs1 r dio fs2 sm2)
  then show ?case using sm_maybeSnapshot_within by blast
next
  case (steps_reset sm fs n sm1 fs1)
  then show ?case by (simp add: sm_within_def split: option.splits)
qed (simp add: sm_within_0)


definition demo_disk :: disk_state where
  "demo_disk = \<lparr>walFile = \<lparr>wPath = ''d/wal.jsonl'', wOpen = True, wEncErr = False\<rparr>, walPath = ''d/wal.jsonl'',
     snapshotPath = ''d/snapshot.json'', writesSinceSnapshot = 0, snapshotInterval = 10, snapshotRetention = 2\<rparr>"

definition demo_sm :: shard_sm where
  "demo_sm = newShardStateMachine mem_New (rlog_New 0) 0 0 (Some demo_disk)"

definition demo_fs :: fs where
  "demo_fs = [(''d/wal.jsonl'', [])]"

definition demo_entry :: "uint64 \<Rightarrow> string \<Rightarrow> string \<Rightarrow> entry" where
  "demo_entry v k x = \<lparr>eTerm = 1, eVersion = v, eOp = ''put'', eKey = k, eValue = x\<rparr>"

lemma demo_durable: "sm_durable demo_sm demo_fs"
proof -
  have "disk_good demo_disk demo_fs \<and> disk_abs demo_disk demo_fs = Some (0, 0, Map.empty)"
    by (rule disk_fresh) (simp_all add: ds_wf_def demo_disk_def demo_fs_def)
  then show ?thesis
    using st.new by (simp add: sm_durable_def demo_sm_def newShardStateMachine_def sm_abs_def mem_New_def kv_ok_def mem_abs_def)
qed

lemma demo_storable: "storable (demo_entry v ''k'' ''x'')"
  unfolding storable_def
  by (rule wal_ok_size) (simp_all add: entry_wal_def walEntryFrom_def demo_entry_def utf8_valid_ascii)


text \<open>
  Property C36.  The limit of the guarantee: a write whose log append failed in the sync is reported as
  failed but is in the log.  The next write gets the same version, is applied and acknowledged, and a
  restart finds the failed write in its place.
\<close>

theorem failed_sync_shadows_next_write:
  assumes "sm_durable sm fs" and d: "smDs sm = Some d" and v: "smVersion sm \<noteq> - 1"
    and e1: "storable e1" "known_op e1" "eVersion e1 = smVersion sm + 1" "smTerm sm \<le> eTerm e1"
    and e2: "storable e2" "known_op e2" "eVersion e2 = smVersion sm + 1" "smTerm sm \<le> eTerm e2"
    and a1: "sm_Apply SyncFails sm e1 ApplyWithWAL fs = (fs1, sm1, r1)"
    and a2: "sm_Apply WriteOk sm1 e2 ApplyWithWAL fs1 = (fs2, sm2, r2)"
  shows "r1 \<noteq> None \<and> r2 = None \<and> sm_abs sm2 = apply_abs e2 (sm_abs sm) \<and>
    (\<exists>d2. smDs sm2 = Some d2 \<and> disk_abs d2 fs2 = Some (apply_abs e1 (sm_abs sm)))"
proof -
  have good: "disk_good d fs" "disk_abs d fs = Some (sm_abs sm)" using assms(1) d by (auto simp: sm_durable_def)
  obtain es where inv: "disk_inv d fs es" "newest_within 0 d fs"
    using disk_goodE [OF good(1)] by (auto simp: newest_within_0)
  have n1: "wal_ok (entry_wal e1)" "abs_next (entry_wal e1) (sm_abs sm)"
    using e1 v entry_wal_next by (auto simp: storable_def)
  obtain d1 dr1 where d1: "ds_appendWAL SyncFails d (entry_wal e1) fs = (fs1, d1, dr1)" "smDs sm1 = Some d1"
    "r1 = None \<longleftrightarrow> dr1 = None \<and> known_op e1"
    using sm_Apply_disk [OF a1 d e1(3,4)] .
  have w: "wOpen (walFile d)" "\<not> wEncErr (walFile d)" using inv by (auto simp: disk_inv_def wal_holds_def)
  then have r1: "dr1 \<noteq> None" "d1 = d" using d1(1) by (auto simp: ds_appendWAL_def wal_Append_def)
  have "ds_appendWAL WriteOk d (entry_wal e1) fs = (fs1, d\<lparr>writesSinceSnapshot := writesSinceSnapshot d + 1\<rparr>, None)"
    using d1(1) w by (auto simp: ds_appendWAL_def wal_Append_def)
  note one = ds_append_abs [OF inv n1(1) good(2) n1(2) this, simplified]
  have inv1: "disk_inv d fs1 (es @ [entry_wal e1])" "newest_within 0 d fs1" "disk_abs d fs1 = Some (apply_abs e1 (sm_abs sm))"
    using one by (auto simp: disk_inv_def ds_wf_def apply_abs_def)
  have sm1: "sm_abs sm1 = sm_abs sm" "smKv sm1 = smKv sm"
    using a1 d1(3) r1(1) sm_Apply_err [of SyncFails sm e1 ApplyWithWAL fs fs1 sm1] by auto
  then have e2': "eVersion e2 = smVersion sm1 + 1" "smTerm sm1 \<le> eTerm e2" using e2 by (auto simp: sm_abs_def)
  obtain d2 dr2 where d2: "ds_appendWAL WriteOk d1 (entry_wal e2) fs1 = (fs2, d2, dr2)" "smDs sm2 = Some d2"
    "r2 = None \<longleftrightarrow> dr2 = None \<and> known_op e2"
    using sm_Apply_disk [OF a2 d1(2) e2'] .
  have "dr2 = None" using d2(1) r1(2) w by (auto simp: ds_appendWAL_def wal_Append_def)
  then have r2: "r2 = None" using d2(3) e2(2) by simp
  obtain m where m: "apply_abs e1 (sm_abs sm) = (eTerm e1, eVersion e1, m)" by (simp add: sm_abs_def apply_abs_simps)
  have "disk_abs d2 fs2 = disk_abs d fs1"
    by (rule ds_append_stale [OF inv1(1) _ inv1(3) [unfolded m] _ d2(1) [unfolded r1(2) \<open>dr2 = None\<close>]])
      (use e1 e2 in \<open>auto simp: storable_def entry_wal_def walEntryFrom_def\<close>)
  moreover have "sm_abs sm2 = apply_abs e2 (sm_abs sm)"
    using sm_Apply_abs [of WriteOk sm1 e2 ApplyWithWAL fs1 fs2 sm2] a2 r2 sm1 assms(1) kv_ok_mem_wf
    by (auto simp: sm_durable_def)
  ultimately show ?thesis using r1(1) d1(3) r2 d2(2) inv1(3) by auto
qed

theorem failed_sync_shadows_next_write_witness:
  "case sm_Apply SyncFails demo_sm (demo_entry 1 ''k'' ''x'') ApplyWithWAL demo_fs of (fs1, sm1, r1) \<Rightarrow>
     case sm_Apply WriteOk sm1 ((demo_entry 1 ''k'' ''x'')\<lparr>eOp := ''delete'', eValue := []\<rparr>) ApplyWithWAL fs1 of (fs2, sm2, r2) \<Rightarrow>
       r2 = None \<and> sm_abs sm2 = (1, 1, Map.empty) \<and>
       (\<exists>d2. smDs sm2 = Some d2 \<and> disk_abs d2 fs2 = Some (1, 1, [''k'' \<mapsto> ''x'']))"
proof -
  let ?e = "(demo_entry 1 ''k'' ''x'')\<lparr>eOp := ''delete'', eValue := []\<rparr>"
  obtain fs1 sm1 r1 where a1: "sm_Apply SyncFails demo_sm (demo_entry 1 ''k'' ''x'') ApplyWithWAL demo_fs = (fs1, sm1, r1)"
    by (cases "sm_Apply SyncFails demo_sm (demo_entry 1 ''k'' ''x'') ApplyWithWAL demo_fs")
  obtain fs2 sm2 r2 where a2: "sm_Apply WriteOk sm1 ?e ApplyWithWAL fs1 = (fs2, sm2, r2)"
    by (cases "sm_Apply WriteOk sm1 ?e ApplyWithWAL fs1")
  have "sm_abs demo_sm = (0, 0, Map.empty)" "smDs demo_sm = Some demo_disk" "smVersion demo_sm = 0" "smTerm demo_sm = 0"
    by (simp_all add: sm_abs_def demo_sm_def newShardStateMachine_def mem_New_def mem_abs_def)
  moreover have "storable ?e"
    unfolding storable_def
    by (rule wal_ok_size) (simp_all add: entry_wal_def walEntryFrom_def demo_entry_def utf8_valid_ascii)
  ultimately show ?thesis
    using failed_sync_shadows_next_write [OF demo_durable _ _ demo_storable _ _ _ _ _ _ _ a1 a2, of demo_disk] a1 a2
    by (auto simp: apply_abs_simps demo_entry_def known_op_def)
qed

end
