(* ===== verification/Quorum.thy ===== *)
theory Quorum
  imports Prelude
begin

text \<open>
  Quorum planning of the write path, \<^verbatim>\<open>node/quorum.go\<close>, and the majority argument that the election
  relies on.  The locale \<open>majority\<close> is the contract of a quorum size: any two quorums of the same voters
  share a member.
\<close>

record quorum_info =
  LivePeers :: "(string, string) gomap"
  TotalEligible :: int
  Quorum :: int
  NeededFollowers :: int

record write_result =
  AppliedVersion :: uint64
  wrQuorum :: int
  AckedFollowers :: int
  wrTotalEligible :: int

text \<open>The expression \<^verbatim>\<open>total/2 + 1\<close> of \<^verbatim>\<open>planQuorum\<close> and \<^verbatim>\<open>startElection\<close>.\<close>

definition quorum_size :: "nat \<Rightarrow> nat" where
  "quorum_size n = n div 2 + 1"

definition live_peer :: "(string, gotime) gomap \<Rightarrow> gotime \<Rightarrow> duration \<Rightarrow> string \<Rightarrow> bool" where
  "live_peer peerLast now window pid = (case gm_get peerLast pid of
      None \<Rightarrow> False | Some t \<Rightarrow> time_sub now t \<le> window)"

definition planQuorum ::
  "(string, string) gomap \<Rightarrow> (string, gotime) gomap \<Rightarrow> gotime \<Rightarrow> duration \<Rightarrow> quorum_info" where
  "planQuorum peerAddrs peerLast now livenessWindow =
     (let livePeers = gm_into [] (if livenessWindow \<le> 0 then peerAddrs
            else filter (\<lambda>(pid, addr). live_peer peerLast now livenessWindow pid) peerAddrs);
          totalEligible = length livePeers + 1;
          quorum = quorum_size totalEligible
      in \<lparr>LivePeers = livePeers, TotalEligible = int totalEligible, Quorum = int quorum,
          NeededFollowers = int quorum - 1\<rparr>)"

definition hasLiveQuorum :: "quorum_info \<Rightarrow> bool" where
  "hasLiveQuorum q \<longleftrightarrow> int (length (LivePeers q)) \<ge> NeededFollowers q"

definition quorum_result :: "quorum_info \<Rightarrow> uint64 \<Rightarrow> int \<Rightarrow> write_result" where
  "quorum_result q appliedVersion acked = \<lparr>AppliedVersion = appliedVersion, wrQuorum = Quorum q,
     AckedFollowers = acked, wrTotalEligible = TotalEligible q\<rparr>"

section \<open>Majorities\<close>

locale majority =
  fixes q :: "nat \<Rightarrow> nat"
  assumes more_than_half: "n < 2 * q n"
begin

lemma intersect:
  assumes "finite U" "A \<subseteq> U" "B \<subseteq> U" "q (card U) \<le> card A" "q (card U) \<le> card B"
  shows "A \<inter> B \<noteq> {}"
proof
  assume "A \<inter> B = {}"
  then have "card (A \<union> B) = card A + card B"
    using assms(1-3) by (intro card_Un_disjoint) (auto intro: finite_subset)
  moreover have "card (A \<union> B) \<le> card U" using assms(1-3) by (intro card_mono) auto
  ultimately show False using more_than_half [of "card U"] assms(4,5) by linarith
qed

end

interpretation mj: majority quorum_size
  by unfold_locales (simp add: quorum_size_def)

section \<open>What the planner requires\<close>

lemma length_live:
  "gm_wf peerAddrs \<Longrightarrow> length (LivePeers (planQuorum peerAddrs peerLast now w)) =
     (if w \<le> 0 then length peerAddrs
      else length (filter (\<lambda>(pid, addr). live_peer peerLast now w pid) peerAddrs))"
  by (auto simp: planQuorum_def Let_def gm_wf_def distinct_map_filter)

lemma planQuorum_needed:
  "NeededFollowers (planQuorum pa pl now w) = int ((length (LivePeers (planQuorum pa pl now w)) + 1) div 2)"
  by (simp add: planQuorum_def Let_def quorum_size_def)

lemma planQuorum_total:
  "TotalEligible (planQuorum pa pl now w) = int (length (LivePeers (planQuorum pa pl now w)) + 1)"
  by (simp add: planQuorum_def Let_def)

text \<open>
  Property C31.  The writes that the planner lets through are acknowledged by a majority of the
  replicas it counts: the leader and the required followers are more than half of the eligible ones;
  and the check \<^verbatim>\<open>hasLiveQuorum\<close> never fails, because only live peers are counted in the first place.
\<close>

theorem planQuorum_majority:
  "let q = planQuorum peerAddrs peerLast now w
   in TotalEligible q < 2 * (NeededFollowers q + 1) \<and> NeededFollowers q \<le> int (length (LivePeers q)) \<and>
      hasLiveQuorum q"
  unfolding Let_def hasLiveQuorum_def planQuorum_needed planQuorum_total by presburger

text \<open>
  A leader that has heard from none of its peers within the window needs no follower
  at all: it commits writes alone, however many replicas the shard has.
\<close>

theorem isolated_leader_commits_alone:
  assumes "0 < w" and "list_all (\<lambda>(pid, addr). \<not> live_peer peerLast now w pid) peerAddrs"
  shows "NeededFollowers (planQuorum peerAddrs peerLast now w) = 0"
proof -
  have "filter (\<lambda>(pid, addr). live_peer peerLast now w pid) peerAddrs = []"
    using assms(2) by (auto simp: filter_empty_conv list_all_iff)
  then show ?thesis using assms(1) by (simp add: planQuorum_def quorum_size_def)
qed

theorem isolated_leader_commits_alone_witness:
  "NeededFollowers (planQuorum [(''n2'', ''a2''), (''n3'', ''a3''), (''n4'', ''a4''), (''n5'', ''a5'')]
     [(''n2'', 10), (''n3'', 10), (''n4'', 10), (''n5'', 10)] 1000 100) = 0"
  by (rule isolated_leader_commits_alone) (simp_all add: live_peer_def time_sub_def)

end
