(* ===== verification/Replica.thy ===== *)
theory Replica
  imports StateMachine Quorum
begin

text \<open>
  One shard replica (\<^verbatim>\<open>node/replica.go\<close>, \<^verbatim>\<open>node/recovery_state.go\<close>, \<^verbatim>\<open>node/write_guard.go\<close>) and the critical
  sections of the RPC handlers that act on it (\<^verbatim>\<open>node/grpc.go\<close>; the HTTP handlers of \<^verbatim>\<open>node/server.go\<close> and
  \<^verbatim>\<open>node/election.go\<close> that are not registered with a route repeat them).  A handler holds the replica's
  mutex from its first read to its last write, so it is one function from state to state.  The
  replica's \<^verbatim>\<open>Term\<close>, \<^verbatim>\<open>Version\<close>, \<^verbatim>\<open>KV\<close> and \<^verbatim>\<open>RepLog\<close> are the ones of its state machine \<open>rSM\<close>.  Log output and metrics
  are not modelled; \<open>now\<close> is the clock's reading.
\<close>

datatype role = RoleLeader | RoleFollower | RoleUnknown

datatype recovery_state = RecoveryStateHealthy | RecoveryStateLagging | RecoveryStateRecovering
  | RecoveryStateUnavailable

definition recoverySourceLeader :: "string \<Rightarrow> string" where
  "recoverySourceLeader leaderID = (if leaderID = [] then [] else ''leader:'' @ leaderID)"

definition recoverySourceBootstrap :: "string \<Rightarrow> string" where
  "recoverySourceBootstrap shardID = (if shardID = [] then [] else ''bootstrap:'' @ shardID)"

record replica =
  rShardID :: string
  rNodeID :: string
  rRole :: role
  rLeaderID :: string
  rIsReady :: bool
  rRecoveryState :: recovery_state
  rRecoverySource :: string
  rPeers :: "string list"
  rShardMapVersion :: uint64
  rSM :: shard_sm
  rLastLeaderContact :: gotime
  rVotedFor :: string
  rVotedForTerm :: uint64
  rElectionTimeout :: duration
  rPeerLastContact :: "(string, gotime) gomap"
  rBootstrapShardID :: string
  rBootstrapLeaderAddr :: string
  rElectionCount :: int
  rRecoveryCount :: int
  rWriteOpsTotal :: int
  rWriteErrTotal :: int

abbreviation rTerm :: "replica \<Rightarrow> uint64" where "rTerm r \<equiv> smTerm (rSM r)"
abbreviation rVersion :: "replica \<Rightarrow> uint64" where "rVersion r \<equiv> smVersion (rSM r)"

definition set_term :: "uint64 \<Rightarrow> replica \<Rightarrow> replica" where
  "set_term t r = r\<lparr>rSM := (rSM r)\<lparr>smTerm := t\<rparr>\<rparr>"

definition NewReplicaState :: "string \<Rightarrow> string \<Rightarrow> string list \<Rightarrow> int \<Rightarrow> duration \<Rightarrow> replica" where
  "NewReplicaState shardID nodeID peers logSize electionTimeout =
     \<lparr>rShardID = shardID, rNodeID = nodeID, rRole = RoleFollower, rLeaderID = [], rIsReady = False,
      rRecoveryState = RecoveryStateLagging, rRecoverySource = [], rPeers = peers, rShardMapVersion = 0,
      rSM = newShardStateMachine mem_New (rlog_New logSize) 0 0 None, rLastLeaderContact = 0,
      rVotedFor = [], rVotedForTerm = 0, rElectionTimeout = electionTimeout, rPeerLastContact = [],
      rBootstrapShardID = [], rBootstrapLeaderAddr = [], rElectionCount = 0, rRecoveryCount = 0,
      rWriteOpsTotal = 0, rWriteErrTotal = 0\<rparr>"

record replica_status =
  stShardID :: string
  stRole :: role
  stLeaderID :: string
  stTerm :: uint64
  stVersion :: uint64
  stIsReady :: bool
  stRecoveryState :: recovery_state
  stRecoverySource :: string
  stPeers :: "string list"
  stLastLeaderContactMs :: int
  stElectionCount :: int
  stRecoveryCount :: int
  stWriteOpsTotal :: int
  stWriteErrTotal :: int

text \<open>\<^verbatim>\<open>Duration.Milliseconds\<close> divides with truncation towards zero.\<close>

definition milliseconds :: "duration \<Rightarrow> int" where
  "milliseconds d = (if d < 0 then - ((- d) div 1000000) else d div 1000000)"

definition StatusSnapshot :: "gotime \<Rightarrow> replica \<Rightarrow> replica_status" where
  "StatusSnapshot now r =
     \<lparr>stShardID = rShardID r, stRole = rRole r, stLeaderID = rLeaderID r, stTerm = rTerm r,
      stVersion = rVersion r, stIsReady = rIsReady r, stRecoveryState = rRecoveryState r,
      stRecoverySource = rRecoverySource r, stPeers = rPeers r,
      stLastLeaderContactMs = (if is_zero_time (rLastLeaderContact r) then 0
        else milliseconds (time_sub now (rLastLeaderContact r))),
      stElectionCount = rElectionCount r, stRecoveryCount = rRecoveryCount r,
      stWriteOpsTotal = rWriteOpsTotal r, stWriteErrTotal = rWriteErrTotal r\<rparr>"

datatype guard_error = errNotLeader | errNotReady

definition ensureLeaderReady :: "gotime \<Rightarrow> replica \<Rightarrow> replica_status \<times> guard_error option" where
  "ensureLeaderReady now r =
     (let snap = StatusSnapshot now r in
      if stRole snap \<noteq> RoleLeader then (snap, Some errNotLeader)
      else if \<not> stIsReady snap then (snap, Some errNotReady)
      else (snap, None))"

section \<open>Messages\<close>

datatype op_type = TYPE_UNSPECIFIED | TYPE_PUT | TYPE_DELETE

record operation =
  opType :: op_type
  opKey :: string
  opValue :: string

record replicate_request =
  rqTerm :: uint64
  rqVersion :: uint64
  rqOp :: "operation option"

record replicate_response =
  rsSuccess :: bool
  rsTerm :: uint64

record log_entry =
  leTerm :: uint64
  leVersion :: uint64
  leOp :: "operation option"

datatype recover_type = TYPE_ENTRIES | TYPE_SNAPSHOT | TYPE_OTHER

record recover_response =
  rcType :: recover_type
  rcVersion :: uint64
  rcEntries :: "log_entry list"
  rcTerm :: uint64
  rcKv :: "(string \<times> string) list"

record vote_request =
  vqTerm :: uint64
  vqCandidateID :: string
  vqVersion :: uint64

record vote_response =
  vsTerm :: uint64
  vsGranted :: bool

record heartbeat_request =
  hbTerm :: uint64
  hbVersion :: uint64
  hbLeaderID :: string

definition opFromProto :: "operation option \<Rightarrow> string \<times> string \<times> string" where
  "opFromProto op = (case op of
      None \<Rightarrow> ([], [], [])
    | Some p \<Rightarrow> (case opType p of
        TYPE_PUT \<Rightarrow> (''put'', opKey p, opValue p)
      | TYPE_DELETE \<Rightarrow> (''delete'', opKey p, [])
      | _ \<Rightarrow> ([], opKey p, opValue p)))"

definition opToProto :: "string \<Rightarrow> string \<Rightarrow> string \<Rightarrow> operation" where
  "opToProto op key v =
     (if op = ''put'' then \<lparr>opType = TYPE_PUT, opKey = key, opValue = v\<rparr>
      else if op = ''delete'' then \<lparr>opType = TYPE_DELETE, opKey = key, opValue = []\<rparr>
      else \<lparr>opType = TYPE_UNSPECIFIED, opKey = key, opValue = v\<rparr>)"

definition opTypeFromProto :: "operation option \<Rightarrow> string" where
  "opTypeFromProto op = (case op of
      None \<Rightarrow> []
    | Some p \<Rightarrow> (case opType p of TYPE_PUT \<Rightarrow> ''put'' | TYPE_DELETE \<Rightarrow> ''delete'' | _ \<Rightarrow> []))"

definition entriesToProto :: "entry list \<Rightarrow> log_entry list" where
  "entriesToProto es = map (\<lambda>e. \<lparr>leTerm = eTerm e, leVersion = eVersion e,
     leOp = Some (opToProto (eOp e) (eKey e) (eValue e))\<rparr>) es"

definition kvToProto :: "(string, string) gomap \<Rightarrow> (string \<times> string) list" where
  "kvToProto kv = kv"

definition kvFromProto :: "(string \<times> string) list \<Rightarrow> (string, string) gomap" where
  "kvFromProto es = gm_into [] es"

section \<open>Replication\<close>

datatype rpc_error = NotFound | FailedPrecondition | Internal sm_error | BadRequest

text \<open>
  \<^verbatim>\<open>grpcServer.Replicate\<close> on the replica it found.  The three early results are a stale term, a
  duplicate version and a version gap; otherwise the entry is applied and the replica is ready.
\<close>

definition adopt_term :: "uint64 \<Rightarrow> replica \<Rightarrow> replica" where
  "adopt_term t r = (if rTerm r < t then (set_term t r)\<lparr>rRole := RoleFollower\<rparr> else r)"

definition Replicate :: "write_io \<Rightarrow> gotime \<Rightarrow> replicate_request \<Rightarrow> replica \<Rightarrow> fs
    \<Rightarrow> fs \<times> replica \<times> (rpc_error + replicate_response)" where
  "Replicate io now req r0 fs =
     (let (op, key, v) = opFromProto (rqOp req) in
      if rqTerm req < rTerm r0 then (fs, r0, Inr \<lparr>rsSuccess = False, rsTerm = rTerm r0\<rparr>)
      else
        let r = adopt_term (rqTerm req) r0 in
        if rqVersion req \<le> rVersion r then (fs, r, Inr \<lparr>rsSuccess = True, rsTerm = rTerm r\<rparr>)
        else if rqVersion req \<noteq> rVersion r + 1 then
          (fs, r\<lparr>rIsReady := False, rRecoveryState := RecoveryStateLagging,
                 rRecoverySource := recoverySourceLeader (rLeaderID r), rLastLeaderContact := now,
                 rSM := sm_ResetLog (rSM r)\<rparr>,
           Inr \<lparr>rsSuccess = False, rsTerm = rTerm r\<rparr>)
        else
          (case sm_Apply io (rSM r) \<lparr>eTerm = rqTerm req, eVersion = rqVersion req, eOp = op, eKey = key, eValue = v\<rparr>
                  ApplyWithWAL fs of
             (fs', sm', Some err) \<Rightarrow> (fs', r\<lparr>rSM := sm'\<rparr>, Inl (Internal err))
           | (fs', sm', None) \<Rightarrow>
               (fs', r\<lparr>rSM := sm', rIsReady := True, rRecoveryState := RecoveryStateHealthy,
                       rRecoverySource := [], rLastLeaderContact := now\<rparr>,
                Inr \<lparr>rsSuccess = True, rsTerm = rqTerm req\<rparr>)))"

text \<open>\<^verbatim>\<open>Server.handleReplicate\<close>, with the decoded body: here a gap does not reset the log.\<close>

datatype http_replicate = HttpReplicate bool uint64 string | HttpWalError

definition handleReplicate :: "write_io \<Rightarrow> gotime \<Rightarrow> uint64 \<Rightarrow> uint64 \<Rightarrow> string \<Rightarrow> string \<Rightarrow> string \<Rightarrow> replica \<Rightarrow> fs
    \<Rightarrow> fs \<times> replica \<times> http_replicate" where
  "handleReplicate io now t ver op key v r0 fs =
     (if t < rTerm r0 then (fs, r0, HttpReplicate False (rTerm r0) ''stale term'')
      else
        let r = adopt_term t r0 in
        if ver \<le> rVersion r then (fs, r, HttpReplicate True (rTerm r) [])
        else if ver \<noteq> rVersion r + 1 then
          (fs, r\<lparr>rIsReady := False, rRecoveryState := RecoveryStateLagging,
                 rRecoverySource := recoverySourceLeader (rLeaderID r), rLastLeaderContact := now\<rparr>,
           HttpReplicate False (rTerm r) ''version gap'')
        else
          (case sm_Apply io (rSM r) \<lparr>eTerm = t, eVersion = ver, eOp = op, eKey = key, eValue = v\<rparr> ApplyWithWAL fs of
             (fs', sm', Some err) \<Rightarrow> (fs', r\<lparr>rSM := sm'\<rparr>, HttpWalError)
           | (fs', sm', None) \<Rightarrow>
               (fs', r\<lparr>rSM := sm', rIsReady := True, rRecoveryState := RecoveryStateHealthy,
                       rRecoverySource := [], rLastLeaderContact := now\<rparr>,
                HttpReplicate True t [])))"

section \<open>Recovery, leader side\<close>

definition Recover :: "uint64 \<Rightarrow> replica \<Rightarrow> rpc_error + recover_response" where
  "Recover sinceVersion r =
     (if rRole r \<noteq> RoleLeader then Inl FailedPrecondition
      else
        let snap = sm_Snapshot (rSM r); leaderVersion = snVersion snap;
            full = \<lparr>rcType = TYPE_SNAPSHOT, rcVersion = leaderVersion, rcEntries = [], rcTerm = snTerm snap,
                    rcKv = kvToProto (snKV snap)\<rparr> in
        if leaderVersion < sinceVersion then Inr full
        else if leaderVersion = sinceVersion then
          Inr \<lparr>rcType = TYPE_ENTRIES, rcVersion = leaderVersion, rcEntries = [], rcTerm = 0, rcKv = []\<rparr>
        else
          (case sm_EntriesSince (rSM r) sinceVersion of (es, ok) \<Rightarrow>
             if ok \<and> (es \<noteq> [] \<or> leaderVersion = sinceVersion) then
               Inr \<lparr>rcType = TYPE_ENTRIES, rcVersion = leaderVersion, rcEntries = entriesToProto es,
                    rcTerm = 0, rcKv = []\<rparr>
             else Inr full))"

definition handleSync :: "replica \<Rightarrow> rpc_error + state_snapshot" where
  "handleSync r = (if rRole r \<noteq> RoleLeader then Inl FailedPrecondition else Inr (sm_Snapshot (rSM r)))"

definition ForceRecover :: "gotime \<Rightarrow> replica \<Rightarrow> replica" where
  "ForceRecover now r = r\<lparr>rIsReady := False, rRecoveryState := RecoveryStateLagging,
     rRecoverySource := recoverySourceLeader (rLeaderID r), rSM := sm_ResetLog (rSM r),
     rLastLeaderContact := now\<rparr>"

section \<open>Votes and heartbeats\<close>

definition RequestVote :: "gotime \<Rightarrow> vote_request \<Rightarrow> replica \<Rightarrow> replica \<times> vote_response" where
  "RequestVote now req r0 =
     (if vqTerm req < rTerm r0 then (r0, \<lparr>vsTerm = rTerm r0, vsGranted = False\<rparr>)
      else
        let r = (if rTerm r0 < vqTerm req
                 then (set_term (vqTerm req) r0)\<lparr>rVotedFor := [], rVotedForTerm := 0, rRole := RoleFollower\<rparr>
                 else r0) in
        if rVotedForTerm r = vqTerm req \<and> rVotedFor r \<noteq> [] \<and> rVotedFor r \<noteq> vqCandidateID req
        then (r, \<lparr>vsTerm = rTerm r, vsGranted = False\<rparr>)
        else if vqVersion req < rVersion r then (r, \<lparr>vsTerm = rTerm r, vsGranted = False\<rparr>)
        else (r\<lparr>rVotedFor := vqCandidateID req, rVotedForTerm := vqTerm req, rLastLeaderContact := now\<rparr>,
              \<lparr>vsTerm = rTerm r, vsGranted = True\<rparr>))"

definition LeaderHeartbeat :: "gotime \<Rightarrow> heartbeat_request \<Rightarrow> replica \<Rightarrow> replica \<times> uint64" where
  "LeaderHeartbeat now req r0 =
     (if hbTerm req < rTerm r0 then (r0, rTerm r0)
      else
        let r = (adopt_term (hbTerm req) r0)\<lparr>rLeaderID := hbLeaderID req, rLastLeaderContact := now\<rparr>
        in (r, rTerm r))"

section \<open>Reads\<close>

datatype get_result = GET_NOT_LEADER string | GET_NOT_READY | GET_NOT_FOUND | GET_OK string

definition Get :: "gotime \<Rightarrow> string \<Rightarrow> replica \<Rightarrow> get_result" where
  "Get now key r =
     (let snap = StatusSnapshot now r in
      if stRole snap \<noteq> RoleLeader then GET_NOT_LEADER (stLeaderID snap)
      else if \<not> stIsReady snap then GET_NOT_READY
      else case sm_Get (rSM r) key of (v, ok) \<Rightarrow> if ok then GET_OK v else GET_NOT_FOUND)"

section \<open>Properties of the handlers\<close>

lemma adopt_term_simps [simp]:
  "rVersion (adopt_term t r) = rVersion r" "smKv (rSM (adopt_term t r)) = smKv (rSM r)"
  "\<not> t < rTerm r \<Longrightarrow> rTerm (adopt_term t r) = t"
  by (auto simp: adopt_term_def set_term_def)

lemma adopt_term_le: "rTerm r \<le> rTerm (adopt_term t r)"
  by (auto simp: adopt_term_def set_term_def)

lemma sm_Apply_term_version:
  assumes "sm_Apply io sm e mode fs = (fs', sm', r)"
  shows "smTerm sm \<le> smTerm sm'" "r \<noteq> None \<Longrightarrow> smTerm sm' = smTerm sm \<and> smVersion sm' = smVersion sm"
    "r = None \<Longrightarrow> smTerm sm' = eTerm e \<and> smVersion sm' = eVersion e"
  using assms by (auto simp: sm_Apply_def split: if_splits option.splits prod.splits)

text \<open>The entry that a replicate request stands for.\<close>

definition request_entry :: "replicate_request \<Rightarrow> entry" where
  "request_entry req = (case opFromProto (rqOp req) of (op, key, v) \<Rightarrow>
     \<lparr>eTerm = rqTerm req, eVersion = rqVersion req, eOp = op, eKey = key, eValue = v\<rparr>)"

text \<open>The log of the replica, if it has one, takes a write.\<close>

definition log_writable :: "write_io \<Rightarrow> shard_sm \<Rightarrow> bool" where
  "log_writable io sm \<longleftrightarrow> (case smDs sm of None \<Rightarrow> True
     | Some d \<Rightarrow> io = WriteOk \<and> wOpen (walFile d) \<and> \<not> wEncErr (walFile d))"

lemma sm_Apply_no_error:
  assumes "sm_Apply io sm e ApplyWithWAL fs = (fs', sm', r)" and "log_writable io sm"
    and "eVersion e = smVersion sm + 1" "\<not> eTerm e < smTerm sm" "known_op e"
  shows "r = None"
  using assms by (auto simp: sm_Apply_def log_writable_def known_op_def ds_appendWAL_def wal_Append_def
      split: option.splits if_splits)

lemma Replicate_cases:
  assumes "Replicate io now req r fs = (fs', r', res)"
  obtains (stale) "rqTerm req < rTerm r" "r' = r" "fs' = fs" "res = Inr \<lparr>rsSuccess = False, rsTerm = rTerm r\<rparr>"
  | (dup) "\<not> rqTerm req < rTerm r" "rqVersion req \<le> rVersion r" "r' = adopt_term (rqTerm req) r" "fs' = fs"
      "res = Inr \<lparr>rsSuccess = True, rsTerm = rqTerm req\<rparr>"
  | (gap) "\<not> rqTerm req < rTerm r" "\<not> rqVersion req \<le> rVersion r" "rqVersion req \<noteq> rVersion r + 1" "fs' = fs"
      "res = Inr \<lparr>rsSuccess = False, rsTerm = rqTerm req\<rparr>" "rTerm r' = rqTerm req" "rVersion r' = rVersion r"
      "smKv (rSM r') = smKv (rSM r)" "\<not> rIsReady r'" "rRole r' = rRole (adopt_term (rqTerm req) r)"
      "entries (smLog (rSM r')) = []"
  | (failed) sm' err where "\<not> rqTerm req < rTerm r" "rqVersion req = rVersion r + 1" "rVersion r < rqVersion req"
      "sm_Apply io (rSM (adopt_term (rqTerm req) r)) (request_entry req) ApplyWithWAL fs = (fs', sm', Some err)"
      "r' = (adopt_term (rqTerm req) r)\<lparr>rSM := sm'\<rparr>" "res = Inl (Internal err)"
  | (applied) sm' where "\<not> rqTerm req < rTerm r" "rqVersion req = rVersion r + 1" "rVersion r < rqVersion req"
      "sm_Apply io (rSM (adopt_term (rqTerm req) r)) (request_entry req) ApplyWithWAL fs = (fs', sm', None)"
      "rSM r' = sm'" "rRole r' = rRole (adopt_term (rqTerm req) r)" "rIsReady r'"
      "res = Inr \<lparr>rsSuccess = True, rsTerm = rqTerm req\<rparr>"
proof -
  obtain op key v where op: "opFromProto (rqOp req) = (op, key, v)" by (cases "opFromProto (rqOp req)")
  let ?r = "adopt_term (rqTerm req) r"
  obtain fs1 sm1 e1 where ap: "sm_Apply io (rSM ?r) (request_entry req) ApplyWithWAL fs = (fs1, sm1, e1)"
    by (cases "sm_Apply io (rSM ?r) (request_entry req) ApplyWithWAL fs")
  consider "rqTerm req < rTerm r" | "\<not> rqTerm req < rTerm r" "rqVersion req \<le> rVersion r"
    | "\<not> rqTerm req < rTerm r" "\<not> rqVersion req \<le> rVersion r" "rqVersion req \<noteq> rVersion r + 1"
    | "\<not> rqTerm req < rTerm r" "\<not> rqVersion req \<le> rVersion r" "rqVersion req = rVersion r + 1"
    by blast
  then show ?thesis
  proof cases
    case 1
    then have "r' = r \<and> fs' = fs \<and> res = Inr \<lparr>rsSuccess = False, rsTerm = rTerm r\<rparr>"
      using assms by (auto simp: Replicate_def op)
    with 1 show ?thesis by (intro stale) auto
  next
    case 2
    then have "r' = ?r \<and> fs' = fs \<and> res = Inr \<lparr>rsSuccess = True, rsTerm = rqTerm req\<rparr>"
      using assms by (auto simp: Replicate_def op Let_def)
    with 2 show ?thesis by (intro dup) auto
  next
    case 3
    have "fs' = fs \<and> res = Inr \<lparr>rsSuccess = False, rsTerm = rqTerm req\<rparr> \<and> r' = ?r\<lparr>rIsReady := False,
        rRecoveryState := RecoveryStateLagging, rRecoverySource := recoverySourceLeader (rLeaderID ?r),
        rLastLeaderContact := now, rSM := sm_ResetLog (rSM ?r)\<rparr>"
      using assms 3 by (auto simp: Replicate_def op Let_def)
    with 3 show ?thesis by (intro gap) (auto simp: sm_ResetLog_def rlog_Reset_def)
  next
    case 4
    note step = assms [unfolded Replicate_def op Let_def prod.case]
    show ?thesis
    proof (cases e1)
      case None
      have "fs' = fs1 \<and> res = Inr \<lparr>rsSuccess = True, rsTerm = rqTerm req\<rparr> \<and> r' = ?r\<lparr>rSM := sm1, rIsReady := True,
          rRecoveryState := RecoveryStateHealthy, rRecoverySource := [], rLastLeaderContact := now\<rparr>"
        using step 4 ap None by (auto simp: request_entry_def op)
      with 4 ap None show ?thesis by (intro applied) auto
    next
      case (Some err)
      have "fs' = fs1 \<and> res = Inl (Internal err) \<and> r' = ?r\<lparr>rSM := sm1\<rparr>"
        using step 4 ap Some by (auto simp: request_entry_def op)
      with 4 ap Some show ?thesis by (intro failed) auto
    qed
  qed
qed

text \<open>
  Property C27.  What \<^verbatim>\<open>Replicate\<close> does on every branch.  A request of an older term is refused with the
  replica's term and changes nothing.  Any other makes the replica take the request's term, and follow
  if the term is new.  Then: a version it already has is acknowledged, with version, data, log, disk
  and readiness as they were, whatever the request contains; a version beyond the next is refused, and
  the replica is no longer ready and has an empty replication log; the next version is applied, exactly
  the entry of the request, logged, made ready and acknowledged, or, when applying fails, reported as
  an error with version, data and log as they were.  It does not fail for a known operation on a log
  that takes the write.
\<close>

theorem Replicate_spec:
  assumes "mem_wf (smKv (rSM r))" and a: "Replicate io now req r fs = (fs', r', res)"
  shows "if rqTerm req < rTerm r then r' = r \<and> fs' = fs \<and> res = Inr \<lparr>rsSuccess = False, rsTerm = rTerm r\<rparr>
    else rTerm r' = rqTerm req \<and> rRole r' = (if rTerm r < rqTerm req then RoleFollower else rRole r) \<and>
     (if rqVersion req \<le> rVersion r then
        res = Inr \<lparr>rsSuccess = True, rsTerm = rqTerm req\<rparr> \<and> fs' = fs \<and> rIsReady r' = rIsReady r \<and>
        sm_abs (rSM r') = (rqTerm req, rVersion r, mem_abs (smKv (rSM r))) \<and> smLog (rSM r') = smLog (rSM r)
      else if rqVersion req \<noteq> rVersion r + 1 then
        res = Inr \<lparr>rsSuccess = False, rsTerm = rqTerm req\<rparr> \<and> fs' = fs \<and> \<not> rIsReady r' \<and>
        sm_abs (rSM r') = (rqTerm req, rVersion r, mem_abs (smKv (rSM r))) \<and> entries (smLog (rSM r')) = []
      else case res of
        Inr s \<Rightarrow> s = \<lparr>rsSuccess = True, rsTerm = rqTerm req\<rparr> \<and> rIsReady r' \<and>
          sm_abs (rSM r') = apply_abs (request_entry req) (sm_abs (rSM r)) \<and>
          smLog (rSM r') = rlog_Append (smLog (rSM r)) (request_entry req)
      | Inl _ \<Rightarrow> \<not> (known_op (request_entry req) \<and> log_writable io (rSM r)) \<and> rIsReady r' = rIsReady r \<and>
          sm_abs (rSM r') = (rqTerm req, rVersion r, mem_abs (smKv (rSM r))) \<and> smLog (rSM r') = smLog (rSM r))"
  using a
proof (cases rule: Replicate_cases)
  case (failed sm' err)
  let ?sm = "rSM (adopt_term (rqTerm req) r)"
  have "log_writable io ?sm = log_writable io (rSM r)"
    by (simp add: log_writable_def adopt_term_def set_term_def)
  moreover have "eVersion (request_entry req) = rqVersion req" "eTerm (request_entry req) = rqTerm req"
    by (simp_all add: request_entry_def split: prod.splits)
  ultimately have "\<not> (known_op (request_entry req) \<and> log_writable io (rSM r))"
    using sm_Apply_no_error [OF failed(4)] failed(1,2) by auto
  with failed show ?thesis
    using sm_Apply_err [OF failed(4)] by (auto simp: sm_abs_def adopt_term_def set_term_def)
next
  case (applied sm')
  note ap = sm_Apply_abs [OF applied(4)]
  have "sm_abs sm' = apply_abs (request_entry req) (sm_abs (rSM r))" "smLog sm' = rlog_Append (smLog (rSM r)) (request_entry req)"
    using ap assms(1) by (simp_all add: sm_abs_def apply_abs_simps adopt_term_def set_term_def)
  moreover have "eTerm (request_entry req) = rqTerm req" "eVersion (request_entry req) = rqVersion req"
    by (simp_all add: request_entry_def split: prod.splits)
  ultimately show ?thesis
    using applied by (auto simp: sm_abs_def apply_abs_simps adopt_term_def set_term_def)
qed (auto simp: adopt_term_def set_term_def sm_abs_def)

definition demo_request :: replicate_request where
  "demo_request = \<lparr>rqTerm = 3, rqVersion = 1, rqOp = Some \<lparr>opType = TYPE_PUT, opKey = ''k'', opValue = ''v''\<rparr>\<rparr>"

theorem Replicate_spec_witness:
  "let r = NewReplicaState ''s'' ''n2'' [''n1''] 10 0 in
   (case Replicate WriteOk 4 demo_request r [] of (fs', r', res) \<Rightarrow>
     res = Inr \<lparr>rsSuccess = True, rsTerm = 3\<rparr> \<and> sm_abs (rSM r') = (3, 1, [''k'' \<mapsto> ''v''])) \<and>
   (case Replicate WriteOk 4 (demo_request\<lparr>rqVersion := 5\<rparr>) r [] of (fs', r', res) \<Rightarrow>
     res = Inr \<lparr>rsSuccess = False, rsTerm = 3\<rparr> \<and> \<not> rIsReady r' \<and> sm_abs (rSM r') = (3, 0, Map.empty))"
proof -
  let ?r = "NewReplicaState ''s'' ''n2'' [''n1''] 10 0" and ?gap = "demo_request\<lparr>rqVersion := 5\<rparr>"
  have wf: "mem_wf (smKv (rSM ?r))" using st.new by (simp add: NewReplicaState_def newShardStateMachine_def)
  have r: "rTerm ?r = 0" "rVersion ?r = 0" "mem_abs (smKv (rSM ?r)) = Map.empty" "log_writable WriteOk (rSM ?r)"
    by (simp_all add: NewReplicaState_def newShardStateMachine_def mem_New_def mem_abs_def log_writable_def)
  have e: "known_op (request_entry demo_request)" "apply_abs (request_entry demo_request) (sm_abs (rSM ?r)) = (3, 1, [''k'' \<mapsto> ''v''])"
    using r by (simp_all add: request_entry_def demo_request_def opFromProto_def known_op_def sm_abs_def apply_abs_simps)
  have t: "rqTerm demo_request = 3" "rqVersion demo_request = 1" "rqTerm ?gap = 3" "rqVersion ?gap = 5"
    by (simp_all add: demo_request_def)
  obtain fs' r' res where a: "Replicate WriteOk 4 demo_request ?r [] = (fs', r', res)"
    by (cases "Replicate WriteOk 4 demo_request ?r []")
  obtain fs'' r'' res' where b: "Replicate WriteOk 4 ?gap ?r [] = (fs'', r'', res')"
    by (cases "Replicate WriteOk 4 ?gap ?r []")
  have "res = Inr \<lparr>rsSuccess = True, rsTerm = 3\<rparr> \<and> sm_abs (rSM r') = (3, 1, [''k'' \<mapsto> ''v''])"
    using Replicate_spec [OF wf a] r e t by (cases res) auto
  moreover have "res' = Inr \<lparr>rsSuccess = False, rsTerm = 3\<rparr> \<and> \<not> rIsReady r'' \<and> sm_abs (rSM r'') = (3, 0, Map.empty)"
    using Replicate_spec [OF wf b] r t by simp
  ultimately show ?thesis using a b by (simp add: Let_def)
qed

text \<open>
  The two transports agree: for a put or delete, the HTTP handler and the gRPC handler
  answer alike and leave the same disk and the same replica, except that on a version gap only the
  gRPC handler clears the replication log.
\<close>

theorem http_and_grpc_replicate_agree:
  assumes "op = ''put'' \<or> op = ''delete'' \<and> v = []"
  shows "case Replicate io now \<lparr>rqTerm = t, rqVersion = ver, rqOp = Some (opToProto op key v)\<rparr> r fs of (fs1, r1, res1) \<Rightarrow>
    case handleReplicate io now t ver op key v r fs of (fs2, r2, res2) \<Rightarrow>
      fs1 = fs2 \<and>
      r1 = (if \<not> t < rTerm r \<and> rVersion r < ver \<and> ver \<noteq> rVersion r + 1 then r2\<lparr>rSM := sm_ResetLog (rSM r2)\<rparr> else r2) \<and>
      (case res1 of Inl _ \<Rightarrow> res2 = HttpWalError
       | Inr s \<Rightarrow> \<exists>msg. res2 = HttpReplicate (rsSuccess s) (rsTerm s) msg)"
proof -
  have op: "opFromProto (Some (opToProto op key v)) = (op, key, v)"
    using assms by (auto simp: opFromProto_def opToProto_def)
  show ?thesis
    by (auto simp: Replicate_def handleReplicate_def op Let_def not_le split: prod.splits option.splits)
qed

theorem http_and_grpc_replicate_agree_witness:
  "let r = NewReplicaState ''s'' ''n2'' [''n1''] 10 0;
       (fs1, r1, res1) = Replicate WriteOk 4 \<lparr>rqTerm = 1, rqVersion = 5, rqOp = Some (opToProto ''put'' ''k'' ''v'')\<rparr> r [];
       (fs2, r2, res2) = handleReplicate WriteOk 4 1 5 ''put'' ''k'' ''v'' r []
   in r1 = r2\<lparr>rSM := sm_ResetLog (rSM r2)\<rparr>"
  using http_and_grpc_replicate_agree [where op = "''put''" and v = "''v''" and io = WriteOk and now = 4 and t = 1
      and ver = 5 and key = "''k''" and r = "NewReplicaState ''s'' ''n2'' [''n1''] 10 0" and fs = "[]"]
  by (auto simp: Let_def NewReplicaState_def newShardStateMachine_def)

end
