(* ===== verification/Recovery.thy ===== *)
theory Recovery
  imports Replica
begin

text \<open>
  Recovery, follower side (\<^verbatim>\<open>node/recovery.go\<close>).  \<^verbatim>\<open>doIncrementalRecovery\<close> reads its position under the lock
  (\<open>recover_request\<close>), calls the leader without it, and applies the answer under the lock again
  (\<open>recover_apply\<close>); \<open>recovery_tick_start\<close> and \<open>recovery_tick_end\<close> are the parts of one round of
  \<^verbatim>\<open>runRecoveryLoop\<close> before and after that call.
\<close>

datatype recover_error = RecoverCall | RecoveryGap uint64 uint64 | RecoverApply sm_error
  | RecoverSnapshot sm_error | RecoverUnknownType

datatype recovery_kind = Incremental | SnapshotFallback

definition recover_request :: "replica \<Rightarrow> string \<times> uint64" where
  "recover_request r = (if rBootstrapShardID r \<noteq> [] then (rBootstrapShardID r, 0) else (rShardID r, rVersion r))"

fun gap_check :: "uint64 \<Rightarrow> uint64 \<Rightarrow> log_entry list \<Rightarrow> (uint64 \<times> uint64) option" where
  "gap_check v expected [] = None"
| "gap_check v expected (e # es) =
     (if leVersion e \<le> v then gap_check v expected es
      else if leVersion e \<noteq> expected then Some (expected, leVersion e)
      else gap_check v (expected + 1) es)"

definition entry_from_proto :: "log_entry \<Rightarrow> entry" where
  "entry_from_proto e = \<lparr>eTerm = leTerm e, eVersion = leVersion e, eOp = opTypeFromProto (leOp e),
     eKey = (case leOp e of None \<Rightarrow> [] | Some p \<Rightarrow> opKey p),
     eValue = (case leOp e of None \<Rightarrow> [] | Some p \<Rightarrow> opValue p)\<rparr>"

text \<open>The applying loop; \<open>io v\<close> is the fate of the log append for version \<open>v\<close>.\<close>

fun apply_loop :: "(uint64 \<Rightarrow> write_io) \<Rightarrow> log_entry list \<Rightarrow> shard_sm \<Rightarrow> fs \<Rightarrow> fs \<times> shard_sm \<times> sm_error option" where
  "apply_loop io [] sm fs = (fs, sm, None)"
| "apply_loop io (e # es) sm fs =
     (if leVersion e \<le> smVersion sm then apply_loop io es sm fs
      else case sm_Apply (io (leVersion e)) sm (entry_from_proto e) ApplyWithWAL fs of
          (fs', sm', Some err) \<Rightarrow> (fs', sm', Some err)
        | (fs', sm', None) \<Rightarrow> apply_loop io es sm' fs')"

definition recovered_ready :: "replica \<Rightarrow> replica" where
  "recovered_ready r = r\<lparr>rIsReady := True, rRecoveryState := RecoveryStateHealthy, rRecoverySource := [],
     rBootstrapShardID := [], rBootstrapLeaderAddr := []\<rparr>"

definition recover_apply :: "(uint64 \<Rightarrow> write_io) \<Rightarrow> disk_io \<Rightarrow> recover_response option \<Rightarrow> replica \<Rightarrow> fs
    \<Rightarrow> fs \<times> replica \<times> (recover_error + recovery_kind)" where
  "recover_apply io dio resp r fs = (case resp of
      None \<Rightarrow> (fs, r, Inl RecoverCall)
    | Some p \<Rightarrow>
        (case rcType p of
           TYPE_ENTRIES \<Rightarrow>
             (case gap_check (rVersion r) (rVersion r + 1) (rcEntries p) of
                Some (x, y) \<Rightarrow> (fs, r, Inl (RecoveryGap x y))
              | None \<Rightarrow>
                  (case apply_loop io (rcEntries p) (rSM r) fs of
                     (fs', sm', Some err) \<Rightarrow> (fs', r\<lparr>rSM := sm'\<rparr>, Inl (RecoverApply err))
                   | (fs', sm', None) \<Rightarrow> (fs', recovered_ready (r\<lparr>rSM := sm'\<rparr>), Inr Incremental)))
         | TYPE_SNAPSHOT \<Rightarrow>
             (case sm_ApplySnapshot dio (rSM r) \<lparr>snTerm = rcTerm p, snVersion = rcVersion p, snKV = kvFromProto (rcKv p)\<rparr>
                     SnapshotPersist fs of
                (fs', sm', Some err) \<Rightarrow> (fs', r\<lparr>rSM := sm'\<rparr>, Inl (RecoverSnapshot err))
              | (fs', sm', None) \<Rightarrow> (fs', recovered_ready (r\<lparr>rSM := sm'\<rparr>), Inr SnapshotFallback))
         | TYPE_OTHER \<Rightarrow> (fs, r, Inl RecoverUnknownType)))"

text \<open>
  The start of a round: \<open>None\<close> when there is nothing to do, otherwise the address to ask and whether a
  bootstrap source is used.
\<close>

definition recovery_tick_start :: "string \<Rightarrow> replica \<Rightarrow> replica \<times> string option" where
  "recovery_tick_start leaderAddr0 r =
     (if rIsReady r then (r\<lparr>rRecoveryState := RecoveryStateHealthy, rRecoverySource := []\<rparr>, None)
      else
        let leaderAddr = (if rBootstrapShardID r \<noteq> [] \<and> rBootstrapLeaderAddr r \<noteq> [] then rBootstrapLeaderAddr r
                          else if leaderAddr0 = [] then rBootstrapLeaderAddr r else leaderAddr0) in
        if leaderAddr = [] then (r\<lparr>rRecoveryState := RecoveryStateUnavailable, rRecoverySource := []\<rparr>, None)
        else (r\<lparr>rRecoveryState := RecoveryStateRecovering,
                rRecoverySource := (if rBootstrapShardID r \<noteq> [] then recoverySourceBootstrap (rBootstrapShardID r)
                                    else recoverySourceLeader (rLeaderID r))\<rparr>, Some leaderAddr))"

text \<open>The end of a round; \<open>boot\<close> and \<open>leader\<close> are the values read at its start.\<close>

definition recovery_tick_end :: "string \<Rightarrow> string \<Rightarrow> recover_error + recovery_kind \<Rightarrow> replica \<Rightarrow> replica" where
  "recovery_tick_end boot leader res r = (case res of
      Inl _ \<Rightarrow> r\<lparr>rRecoveryState := RecoveryStateLagging,
                 rRecoverySource := (if boot \<noteq> [] then recoverySourceBootstrap boot else recoverySourceLeader leader)\<rparr>
    | Inr _ \<Rightarrow> r\<lparr>rRecoveryCount := rRecoveryCount r + 1\<rparr>)"

section \<open>Convergence\<close>

lemma apply_abs_from_proto:
  "known_op e \<Longrightarrow> apply_abs (entry_from_proto \<lparr>leTerm = eTerm e, leVersion = eVersion e,
     leOp = Some (opToProto (eOp e) (eKey e) (eValue e))\<rparr>) st = apply_abs e st"
  by (cases st) (auto simp: apply_abs_simps entry_from_proto_def opToProto_def opTypeFromProto_def known_op_def)

text \<open>\<open>disk_writable\<close>: the machine has no disk, or an open log whose encoder has not failed.\<close>

definition disk_writable :: "shard_sm \<Rightarrow> bool" where
  "disk_writable sm \<longleftrightarrow> (case smDs sm of None \<Rightarrow> True | Some d \<Rightarrow> wOpen (walFile d) \<and> \<not> wEncErr (walFile d))"

lemma sm_Apply_succeeds:
  assumes "disk_writable sm" "eVersion e = smVersion sm + 1" "smTerm sm \<le> eTerm e" "known_op e"
  obtains fs' sm' where "sm_Apply WriteOk sm e ApplyWithWAL fs = (fs', sm', None)" "disk_writable sm'"
    "smVersion sm' = eVersion e" "smTerm sm' = eTerm e"
  using assms by (cases "smDs sm")
    (auto simp: sm_Apply_def disk_writable_def known_op_def ds_appendWAL_def wal_Append_def not_less)

lemma consecutive_Cons:
  "consecutive b (e # h) \<longleftrightarrow> eVersion e = b + 1 \<and> b + 1 \<noteq> 0 \<and> consecutive (b + 1) h"
proof (cases "b + 1 = 0")
  case True
  then have "b = - 1" using uint64_succ_neq0_iff by blast
  then have "unat b = 2 ^ 64 - 1" by (simp add: unsigned_minus_1_eq_mask mask_eq_exp_minus_1)
  then have "unat (eVersion e) \<noteq> Suc (unat b)" using unsigned_less [of "eVersion e", where 'a = nat] by simp
  with True show ?thesis by (auto simp: consecutive_def upt_conv_Cons simp del: upt_Suc)
next
  case False
  then have u: "unat (b + 1) = Suc (unat b)" by (rule uint64_unat_succ)
  have "eVersion e = b + 1 \<longleftrightarrow> unat (eVersion e) = Suc (unat b)" by (simp add: word_unat_eq_iff u)
  with False show ?thesis by (auto simp: consecutive_def u upt_conv_Cons simp del: upt_Suc)
qed

lemma gap_check_consecutive:
  "consecutive v es \<Longrightarrow> u \<le> v \<Longrightarrow> gap_check u (v + 1) (entriesToProto es) = None"
proof (induction es arbitrary: v)
  case (Cons e es)
  then have "eVersion e = v + 1" "v + 1 \<noteq> 0" "consecutive (v + 1) es" by (auto simp: consecutive_Cons)
  moreover from this have "gap_check u (v + 1 + 1) (entriesToProto es) = None"
    using Cons.prems(2) uint64_less_succ [of v] by (intro Cons.IH) auto
  ultimately show ?case using Cons.prems(2) uint64_less_succ [of v] by (auto simp: entriesToProto_def add.assoc)
qed (simp add: entriesToProto_def)

lemma apply_loop_consecutive:
  assumes "disk_writable sm" "mem_wf (smKv sm)" "consecutive (smVersion sm) es" "list_all known_op es"
    and "sorted (map eTerm es)" "\<forall>e\<in>set es. smTerm sm \<le> eTerm e"
  shows "\<exists>fs' sm'. apply_loop (\<lambda>_. WriteOk) (entriesToProto es) sm fs = (fs', sm', None) \<and>
    sm_abs sm' = fold apply_abs es (sm_abs sm) \<and> disk_writable sm'"
  using assms
proof (induction es arbitrary: sm fs)
  case (Cons e es)
  let ?e = "entry_from_proto \<lparr>leTerm = eTerm e, leVersion = eVersion e, leOp = Some (opToProto (eOp e) (eKey e) (eValue e))\<rparr>"
  have e: "eVersion e = smVersion sm + 1" "smVersion sm + 1 \<noteq> 0" "consecutive (smVersion sm + 1) es" "known_op e"
    using Cons.prems by (auto simp: consecutive_Cons)
  have "eVersion ?e = smVersion sm + 1" "smTerm sm \<le> eTerm ?e" "known_op ?e"
    using e Cons.prems(6) by (auto simp: entry_from_proto_def known_op_def opTypeFromProto_def opToProto_def)
  then obtain fs1 sm1 where a: "sm_Apply WriteOk sm ?e ApplyWithWAL fs = (fs1, sm1, None)" "disk_writable sm1"
    "smVersion sm1 = eVersion ?e" "smTerm sm1 = eTerm ?e"
    using sm_Apply_succeeds [OF Cons.prems(1)] by blast
  have abs: "sm_abs sm1 = apply_abs e (sm_abs sm)" "mem_wf (smKv sm1)"
    using sm_Apply_abs [OF a(1) Cons.prems(2)] apply_abs_from_proto [OF e(4)] by auto
  have "consecutive (smVersion sm1) es" "\<forall>x\<in>set es. smTerm sm1 \<le> eTerm x"
    using a(3,4) e Cons.prems(5) by (auto simp: entry_from_proto_def)
  with Cons.IH [OF a(2) abs(2), of fs1] Cons.prems abs(1) a(1) e uint64_less_succ [of "smVersion sm"]
  show ?case by (auto simp: entriesToProto_def)
qed (simp add: entriesToProto_def)

text \<open>The version reached by a list of consecutive entries.\<close>

lemma fold_apply_version:
  "consecutive b h \<Longrightarrow> fold apply_abs h (t, b, m) = (t', v', m') \<Longrightarrow> unat v' = unat b + length h"
proof (induction h arbitrary: t b m)
  case (Cons e h)
  obtain m1 where "apply_abs e (t, b, m) = (eTerm e, eVersion e, m1)" by (simp add: apply_abs_simps)
  with Cons uint64_unat_succ [of b] show ?case by (auto simp: consecutive_Cons)
qed simp

lemma consecutive_drop: "consecutive b h \<Longrightarrow> k \<le> length h \<Longrightarrow> unat v = unat b + k \<Longrightarrow> consecutive v (drop k h)"
  using consecutive_append [of b "take k h" "drop k h"] by (simp add: consecutive_def del: upt_Suc)

lemma recover_apply_snapshot:
  assumes "disk_writable (rSM f)"
    and "rcType p = TYPE_SNAPSHOT" "kvFromProto (rcKv p) = kv"
  obtains fs' f' where "recover_apply io disk_io_ok (Some p) f fs = (fs', f', Inr SnapshotFallback)"
    "sm_abs (rSM f') = (rcTerm p, rcVersion p, map_of kv)" "rIsReady f'"
proof (cases "smDs (rSM f)")
  case None
  with assms that show ?thesis
    by (auto simp: recover_apply_def sm_ApplySnapshot_def recovered_ready_def sm_abs_def mem_abs_def mem_ApplySnapshot_def)
next
  case (Some d)
  obtain fs1 d1 r1 where t: "ds_takeSnapshot disk_io_ok d (rcTerm p) (rcVersion p) kv fs = (fs1, d1, r1)"
    by (cases "ds_takeSnapshot disk_io_ok d (rcTerm p) (rcVersion p) kv fs")
  then have "r1 = None" using ds_takeSnapshot_io_ok [OF _ t] assms(1) Some by (simp add: disk_writable_def)
  with t assms Some that show ?thesis
    by (auto simp: recover_apply_def sm_ApplySnapshot_def recovered_ready_def sm_abs_def mem_abs_def
        mem_ApplySnapshot_def ds_resetSnapshot_eq)
qed

text \<open>
  \<open>sm_run st h sm\<close>: from the base state \<open>st\<close> the machine has applied exactly \<open>h\<close>: it has the version and
  the data that result, and its log is one that has seen these entries.  The term is left open, since
  votes and heartbeats move it apart from that of the last entry.
\<close>

definition sm_run :: "shard_abs \<Rightarrow> entry list \<Rightarrow> shard_sm \<Rightarrow> bool" where
  "sm_run st h sm \<longleftrightarrow> snd (sm_abs sm) = snd (fold apply_abs h st) \<and> sm_hist (fst (snd st)) h sm"

lemma fold_apply_snd: "snd st = snd st' \<Longrightarrow> snd (fold apply_abs h st) = snd (fold apply_abs h st')"
proof (induction h arbitrary: st st')
  case (Cons e h)
  have "snd (apply_abs e st) = snd (apply_abs e st')" using Cons.prems by (cases st; cases st') (simp add: apply_abs_simps)
  from Cons.IH [OF this] show ?case by simp
qed simp

lemma fold_apply_term: "h \<noteq> [] \<Longrightarrow> fst (fold apply_abs h st) = eTerm (last h)"
proof (induction h arbitrary: st)
  case (Cons e h)
  have "fst (apply_abs e st) = eTerm e" by (cases st) (simp add: apply_abs_simps)
  with Cons.IH [of "apply_abs e st"] show ?case by (cases "h = []") simp_all
qed simp

lemma Recover_cases:
  assumes rec: "Recover s l = Inr p" and run: "sm_run st h (rSM l)"
    and s: "unat s = unat (fst (snd st)) + k" "k \<le> length h"
  shows "rcType p = TYPE_ENTRIES \<and> rcEntries p = entriesToProto (drop k h) \<or>
    rcType p = TYPE_SNAPSHOT \<and> sm_abs (rSM l) = (rcTerm p, rcVersion p, map_of (kvFromProto (rcKv p)))"
proof -
  let ?b = "fst (snd st)"
  have h: "rlog_rep h (smLog (rSM l))" "consecutive ?b h" "unat (rVersion l) = unat ?b + length h" "mem_wf (smKv (rSM l))"
    using run by (auto simp: sm_run_def sm_hist_def)
  have full: "sm_abs (rSM l) = (rTerm l, rVersion l, map_of (kvFromProto (kvToProto (mem_Snapshot (smKv (rSM l))))))"
    using h(4) st.snapshot [OF h(4)] by (simp add: sm_abs_def kvFromProto_def kvToProto_def)
  show ?thesis
  proof (cases "rVersion l = s")
    case True
    then have "drop k h = []" using s h(3) by simp
    with True rec show ?thesis
      by (auto simp: Recover_def sm_Snapshot_def entriesToProto_def Let_def split: if_splits)
  next
    case False
    then have lt: "unat s < unat ?b + length h" using s h(3) by (metis le_neq_implies_less nat_add_left_cancel_le word_unat_eq_iff)
    then have nlt: "\<not> rVersion l < s" using h(3) by (simp add: word_less_nat_alt)
    obtain es ok where es: "sm_EntriesSince (rSM l) s = (es, ok)" by fastforce
    show ?thesis
    proof (cases "ok \<and> es \<noteq> []")
      case True
      then have "es = drop k h"
        using lq.since_exact [OF h(1,2) _ lt, of es] es s by (simp add: sm_EntriesSince_def)
      with True rec False nlt es show ?thesis
        by (auto simp: Recover_def sm_Snapshot_def Let_def split: if_splits)
    next
      case f: False
      with rec False nlt es full show ?thesis
        by (auto simp: Recover_def sm_Snapshot_def Let_def split: if_splits)
    qed
  qed
qed

lemma recovery_stuck:
  assumes p: "rcType p = TYPE_ENTRIES" "rcEntries p = entriesToProto (e # es)"
    and con: "consecutive (rVersion f) (e # es)" and stale: "eTerm e < rTerm f"
  shows "recover_apply io dio (Some p) f fs = (fs, f, Inl (RecoverApply (StaleTermApply (rTerm f) (eTerm e))))"
proof -
  have e: "eVersion e = rVersion f + 1" "rVersion f + 1 \<noteq> 0" using con by (auto simp: consecutive_Cons)
  have "apply_loop io (entriesToProto (e # es)) (rSM f) fs = (fs, rSM f, Some (StaleTermApply (rTerm f) (eTerm e)))"
    using e uint64_less_succ [of "rVersion f"] stale
    by (auto simp: entriesToProto_def sm_Apply_def entry_from_proto_def)
  then show ?thesis
    using p gap_check_consecutive [OF con] by (simp add: recover_apply_def)
qed

lemma recovery_entries:
  assumes p: "rcType p = TYPE_ENTRIES" "rcEntries p = entriesToProto es"
    and es: "consecutive (rVersion f) es" "list_all known_op es" "sorted (map eTerm es)" "es \<noteq> [] \<longrightarrow> rTerm f \<le> eTerm (hd es)"
    and f: "disk_writable (rSM f)" "mem_wf (smKv (rSM f))"
    and app: "recover_apply (\<lambda>_. WriteOk) dio (Some p) f fs = (fs', f', res)"
  shows "sm_abs (rSM f') = fold apply_abs es (sm_abs (rSM f)) \<and> rIsReady f' \<and> res = Inr Incremental"
proof -
  have "\<forall>e\<in>set es. rTerm f \<le> eTerm e" using es(3,4) by (cases es) auto
  from apply_loop_consecutive [OF f es(1-3) this, of fs] obtain fs1 sm1 where
    a: "apply_loop (\<lambda>_. WriteOk) (entriesToProto es) (rSM f) fs = (fs1, sm1, None)"
      "sm_abs sm1 = fold apply_abs es (sm_abs (rSM f))" by blast
  with app gap_check_consecutive [OF es(1)] p show ?thesis
    by (auto simp: recover_apply_def recovered_ready_def)
qed


text \<open>A leader of term 1 that has applied two puts, and a new follower, as concrete instances.\<close>

definition demo_leader :: replica where
  "demo_leader = (let r = NewReplicaState ''s'' ''n1'' [''n2''] 10 0 in
     r\<lparr>rRole := RoleLeader, rIsReady := True,
       rSM := \<lparr>smKv = \<lparr>sdata = [(''k'', ''x''), (''l'', ''y'')]\<rparr>,
               smLog = \<lparr>entries = [demo_entry 1 ''k'' ''x'', demo_entry 2 ''l'' ''y''], maxSize = 10\<rparr>,
               smTerm = 1, smVersion = 2, smDs = None\<rparr>\<rparr>)"

definition demo_follower :: replica where
  "demo_follower = NewReplicaState ''s'' ''n2'' [''n1''] 10 0"

lemma demo_follower_run: "sm_run (0, 0, Map.empty) [] (rSM demo_follower)"
  using lq.rep_new st.new
  by (simp add: sm_run_def sm_hist_def sm_abs_def demo_follower_def NewReplicaState_def newShardStateMachine_def mem_abs_def mem_New_def)

lemma demo_leader_run: "sm_run (0, 0, Map.empty) [demo_entry 1 ''k'' ''x'', demo_entry 2 ''l'' ''y''] (rSM demo_leader)"
  by (simp add: sm_run_def sm_hist_def sm_abs_def demo_leader_def mem_abs_def mem_wf_def gm_wf_def rlog_rep_def
      consecutive_Cons apply_abs_simps Let_def demo_entry_def) (auto simp: demo_entry_def fun_eq_iff)


text \<open>
  Property C23.  A follower that is ahead of the leader, after a write that failed to reach a quorum,
  is rolled back: recovery replaces its state by the leader's.
\<close>

theorem recovery_rolls_back:
  assumes "rRole l = RoleLeader" and "rVersion l < rVersion f" and "mem_wf (smKv (rSM l))"
    and "rBootstrapShardID f = []" and "disk_writable (rSM f)"
    and req: "Recover (snd (recover_request f)) l = Inr p"
    and app: "recover_apply io disk_io_ok (Some p) f fs = (fs', f', res)"
  shows "sm_abs (rSM f') = sm_abs (rSM l) \<and> rIsReady f' \<and> res = Inr SnapshotFallback"
proof -
  have p: "p = \<lparr>rcType = TYPE_SNAPSHOT, rcVersion = rVersion l, rcEntries = [], rcTerm = rTerm l,
      rcKv = mem_Snapshot (smKv (rSM l))\<rparr>"
    using req assms(1,2,4) by (auto simp: Recover_def recover_request_def sm_Snapshot_def kvToProto_def Let_def)
  have "sm_abs (rSM l) = (rTerm l, rVersion l, map_of (kvFromProto (rcKv p)))"
    using st.snapshot [OF assms(3)] by (simp add: p sm_abs_def kvFromProto_def)
  then show ?thesis
    using app recover_apply_snapshot [OF assms(5), of p "kvFromProto (rcKv p)" io fs] by (force simp: p)
qed

theorem recovery_rolls_back_witness:
  "let f = demo_follower\<lparr>rSM := (rSM demo_leader)\<lparr>smVersion := 3\<rparr>\<rparr>
   in \<exists>p fs' f'. Recover 3 demo_leader = Inr p \<and>
     recover_apply (\<lambda>_. WriteOk) disk_io_ok (Some p) f [] = (fs', f', Inr SnapshotFallback) \<and>
     sm_abs (rSM f') = sm_abs (rSM demo_leader)"
proof -
  let ?f = "demo_follower\<lparr>rSM := (rSM demo_leader)\<lparr>smVersion := 3\<rparr>\<rparr>"
  have l: "rRole demo_leader = RoleLeader" "rVersion demo_leader < rVersion ?f" "mem_wf (smKv (rSM demo_leader))"
    "rBootstrapShardID ?f = []" "disk_writable (rSM ?f)" "recover_request ?f = (''s'', 3)"
    by (simp_all add: recover_request_def demo_follower_def NewReplicaState_def demo_leader_def Let_def
        disk_writable_def mem_wf_def gm_wf_def)
  then obtain p where p: "Recover 3 demo_leader = Inr p"
    by (cases "Recover 3 demo_leader") (auto simp: Recover_def Let_def split: if_splits prod.splits)
  obtain fs' f' res where a: "recover_apply (\<lambda>_. WriteOk) disk_io_ok (Some p) ?f [] = (fs', f', res)"
    by (cases "recover_apply (\<lambda>_. WriteOk) disk_io_ok (Some p) ?f []")
  show ?thesis
    using recovery_rolls_back [OF l(1-5) _ a] l(6) p a by (auto simp: Let_def)
qed

text \<open>
  Recovery can be stuck: once a follower has taken over a newer term (from a heartbeat
  or a vote) and the first entry it lacks is of an older one, the entries that the leader sends are
  rejected.  The call changes nothing, so every later attempt with that answer fails in the same way.
\<close>

theorem recovery_stuck_after_term_change:
  assumes "rcType p = TYPE_ENTRIES" "rcEntries p = entriesToProto (e # es)"
    and "consecutive (rVersion f) (e # es)" and "eTerm e < rTerm f"
  shows "recover_apply io dio (Some p) f fs = (fs, f, Inl (RecoverApply (StaleTermApply (rTerm f) (eTerm e))))"
  using assms by (rule recovery_stuck)

theorem recovery_stuck_after_term_change_witness:
  "let f = set_term 2 demo_follower; p = \<lparr>rcType = TYPE_ENTRIES, rcVersion = 2,
         rcEntries = entriesToProto [demo_entry 1 ''k'' ''x'', demo_entry 2 ''l'' ''y''], rcTerm = 0, rcKv = []\<rparr>
   in Recover (rVersion f) demo_leader = Inr p \<and>
      recover_apply (\<lambda>_. WriteOk) disk_io_ok (Some p) f [] = ([], f, Inl (RecoverApply (StaleTermApply 2 1)))"
proof -
  let ?f = "set_term 2 demo_follower"
  let ?p = "\<lparr>rcType = TYPE_ENTRIES, rcVersion = 2,
         rcEntries = entriesToProto [demo_entry 1 ''k'' ''x'', demo_entry 2 ''l'' ''y''], rcTerm = 0, rcKv = []\<rparr>"
  have f: "rVersion ?f = 0" "rTerm ?f = 2"
    by (simp_all add: set_term_def demo_follower_def NewReplicaState_def newShardStateMachine_def)
  have "Recover (rVersion ?f) demo_leader = Inr ?p"
    unfolding f by (simp add: Recover_def demo_leader_def Let_def sm_Snapshot_def sm_EntriesSince_def rlog_Since_def demo_entry_def)
  moreover have "consecutive (rVersion ?f) [demo_entry 1 ''k'' ''x'', demo_entry 2 ''l'' ''y'']"
    unfolding f by (simp add: consecutive_Cons demo_entry_def)
  ultimately show ?thesis
    using recovery_stuck_after_term_change [of ?p _ _ ?f "\<lambda>_. WriteOk" disk_io_ok "[]"] f
    by (simp add: demo_entry_def)
qed

end
