(* ===== verification/LeaderWrite.thy ===== *)
theory LeaderWrite
  imports Recovery
begin

text \<open>
  The write path of a leader: \<^verbatim>\<open>leaderWrite\<close> (\<^verbatim>\<open>node/server.go\<close>), the fan-out (\<^verbatim>\<open>node/replication.go\<close>) and the
  write RPCs (\<^verbatim>\<open>node/grpc.go\<close>).  The code holds the replica's mutex in two critical sections, before and
  after the fan-out; they are \<open>write_prepare\<close> and \<open>write_commit\<close>, and the snapshot that follows without
  the lock is \<open>write_snapshot\<close>.  \<open>leaderWrite\<close> composes them for a write during which nothing else
  touches the replica.  The acknowledgements that arrive before the deadline are an argument.
\<close>

record kv_request =
  kvOp :: string
  kvKey :: string
  kvValue :: string

datatype write_error = WriteGuard guard_error | WriteShardMapStale | WriteQuorum | WriteApply sm_error

text \<open>The loop that gathers the addresses of the peers that have one.\<close>

definition peer_addrs :: "(string, string) gomap \<Rightarrow> string list \<Rightarrow> (string, string) gomap" where
  "peer_addrs addrs peers = fold (\<lambda>pid m. case gm_get addrs pid of None \<Rightarrow> m | Some a \<Rightarrow> gm_put pid a m) peers []"

definition write_prepare :: "gotime \<Rightarrow> uint64 \<Rightarrow> kv_request \<Rightarrow> replica
    \<Rightarrow> write_error + (entry \<times> string list \<times> (string, gotime) gomap)" where
  "write_prepare now mapVersion req r = (case snd (ensureLeaderReady now r) of
      Some e \<Rightarrow> Inl (WriteGuard e)
    | None \<Rightarrow>
        if rShardMapVersion r \<noteq> mapVersion then Inl WriteShardMapStale
        else Inr (\<lparr>eTerm = rTerm r, eVersion = rVersion r + 1, eOp = kvOp req, eKey = kvKey req, eValue = kvValue req\<rparr>,
                  rPeers r, gm_copy (rPeerLastContact r)))"

definition replicate_message :: "entry \<Rightarrow> replicate_request" where
  "replicate_message e = \<lparr>rqTerm = eTerm e, rqVersion = eVersion e, rqOp = Some (opToProto (eOp e) (eKey e) (eValue e))\<rparr>"

text \<open>The acknowledgements collected by \<^verbatim>\<open>fanOutReplicate\<close>: the peers whose call returned success, in order of arrival.\<close>

definition fanOutReplicate :: "(string, string) gomap \<Rightarrow> (string \<times> bool) list \<Rightarrow> string list" where
  "fanOutReplicate peers answers =
     (if peers = [] then [] else map fst (filter (\<lambda>(pid, ok). ok \<and> pid \<in> fst ` set peers) answers))"

definition fanOutForceRecover :: "(string, string) gomap \<Rightarrow> string list \<Rightarrow> (string \<Rightarrow> bool) \<Rightarrow> int" where
  "fanOutForceRecover peers ids ok =
     (if ids = [] then 0 else int (length (filter (\<lambda>pid. gm_get peers pid \<noteq> None \<and> ok pid) ids)))"

definition write_commit :: "write_io \<Rightarrow> gotime \<Rightarrow> string list \<Rightarrow> entry \<Rightarrow> replica \<Rightarrow> fs \<Rightarrow> fs \<times> replica \<times> write_error option" where
  "write_commit io now acked e r0 fs =
     (let r = r0\<lparr>rPeerLastContact := fold (\<lambda>pid m. gm_put pid now m) acked (rPeerLastContact r0)\<rparr> in
      case sm_Apply io (rSM r) e ApplyWithWAL fs of
        (fs', sm', Some err) \<Rightarrow> (fs', r\<lparr>rSM := sm'\<rparr>, Some (WriteApply err))
      | (fs', sm', None) \<Rightarrow>
          (fs', r\<lparr>rSM := sm', rIsReady := True, rRecoveryState := RecoveryStateHealthy, rRecoverySource := []\<rparr>, None))"

definition write_snapshot :: "disk_io \<Rightarrow> entry \<Rightarrow> replica \<Rightarrow> fs \<Rightarrow> fs \<times> replica" where
  "write_snapshot dio e r fs = (case sm_maybeSnapshot dio (rSM r) (eTerm e) (eVersion e) fs of
      (fs', sm', _) \<Rightarrow> (fs', r\<lparr>rSM := sm', rWriteOpsTotal := rWriteOpsTotal r + 1\<rparr>))"

record write_env =
  weIo :: write_io
  weDio :: disk_io
  weNow :: gotime
  weWindow :: duration
  weAnswers :: "(string \<times> bool) list"

definition leaderWrite :: "write_env \<Rightarrow> uint64 \<Rightarrow> (string, string) gomap \<Rightarrow> kv_request \<Rightarrow> replica \<Rightarrow> fs
    \<Rightarrow> fs \<times> replica \<times> (write_error + write_result)" where
  "leaderWrite w mapVersion addrs req r fs = (case write_prepare (weNow w) mapVersion req r of
      Inl e \<Rightarrow> (fs, r, Inl e)
    | Inr (e, peers, peerLast) \<Rightarrow>
        let plan = planQuorum (peer_addrs addrs peers) peerLast (weNow w) (weWindow w);
            needed = NeededFollowers plan in
        if needed = 0 then
          (case write_commit (weIo w) (weNow w) [] e r fs of
             (fs', r', Some err) \<Rightarrow> (fs', r', Inl err)
           | (fs', r', None) \<Rightarrow>
               (case write_snapshot (weDio w) e r' fs' of (fs'', r'') \<Rightarrow> (fs'', r'', Inr (quorum_result plan (eVersion e) 0))))
        else if \<not> hasLiveQuorum plan then (fs, r\<lparr>rWriteErrTotal := rWriteErrTotal r + 1\<rparr>, Inl WriteQuorum)
        else
          let acked = fanOutReplicate (LivePeers plan) (weAnswers w) in
          if int (length acked) < needed then (fs, r\<lparr>rWriteErrTotal := rWriteErrTotal r + 1\<rparr>, Inl WriteQuorum)
          else
            (case write_commit (weIo w) (weNow w) acked e r fs of
               (fs', r', Some err) \<Rightarrow> (fs', r', Inl err)
             | (fs', r', None) \<Rightarrow>
                 (case write_snapshot (weDio w) e r' fs' of
                    (fs'', r'') \<Rightarrow> (fs'', r'', Inr (quorum_result plan (eVersion e) (int (length acked)))))))"

datatype put_result = PUT_OK uint64 int | PUT_NOT_LEADER string | PUT_NOT_READY | PUT_QUORUM_UNAVAILABLE

text \<open>\<^verbatim>\<open>grpcServer.handleWrite\<close> on the replica it found; \<open>PUT_OK\<close> carries the two response headers.\<close>

definition handleWrite :: "write_env \<Rightarrow> uint64 \<Rightarrow> (string, string) gomap \<Rightarrow> string \<Rightarrow> string \<Rightarrow> string \<Rightarrow> replica \<Rightarrow> fs
    \<Rightarrow> fs \<times> replica \<times> put_result" where
  "handleWrite w mapVersion addrs op key v r fs = (case ensureLeaderReady (weNow w) r of
      (snap, Some errNotLeader) \<Rightarrow> (fs, r, PUT_NOT_LEADER (stLeaderID snap))
    | (snap, Some errNotReady) \<Rightarrow> (fs, r, PUT_NOT_READY)
    | (snap, None) \<Rightarrow>
        (case leaderWrite w mapVersion addrs \<lparr>kvOp = op, kvKey = key, kvValue = v\<rparr> r fs of
           (fs', r', Inl WriteShardMapStale) \<Rightarrow> (fs', r', PUT_NOT_READY)
         | (fs', r', Inl _) \<Rightarrow> (fs', r', PUT_QUORUM_UNAVAILABLE)
         | (fs', r', Inr res) \<Rightarrow> (fs', r', PUT_OK (AppliedVersion res) (wrQuorum res))))"

definition replica_Put :: "write_env \<Rightarrow> uint64 \<Rightarrow> (string, string) gomap \<Rightarrow> string \<Rightarrow> string \<Rightarrow> replica \<Rightarrow> fs
    \<Rightarrow> fs \<times> replica \<times> put_result" where
  "replica_Put w mapVersion addrs key v r fs = handleWrite w mapVersion addrs ''put'' key v r fs"

definition replica_Delete :: "write_env \<Rightarrow> uint64 \<Rightarrow> (string, string) gomap \<Rightarrow> string \<Rightarrow> replica \<Rightarrow> fs
    \<Rightarrow> fs \<times> replica \<times> put_result" where
  "replica_Delete w mapVersion addrs key r fs = handleWrite w mapVersion addrs ''delete'' key [] r fs"

text \<open>\<^verbatim>\<open>Server.handleKV\<close> on the replica it found; \<open>None\<close> is a body that does not decode.\<close>

datatype kv_response = KV_NOT_LEADER string string | KV_NOT_READY | KV_BAD_REQUEST | KV_NOT_FOUND | KV_VALUE string
  | KV_OK uint64 int | KV_STALE | KV_ERROR write_error | KV_UNKNOWN_OP string

definition handleKV :: "write_env \<Rightarrow> uint64 \<Rightarrow> (string, string) gomap \<Rightarrow> kv_request option \<Rightarrow> replica \<Rightarrow> fs
    \<Rightarrow> fs \<times> replica \<times> kv_response" where
  "handleKV w mapVersion addrs body r fs = (case ensureLeaderReady (weNow w) r of
      (snap, Some errNotLeader) \<Rightarrow>
        (fs, r, KV_NOT_LEADER (stLeaderID snap) (case gm_get addrs (stLeaderID snap) of None \<Rightarrow> [] | Some a \<Rightarrow> a))
    | (snap, Some errNotReady) \<Rightarrow> (fs, r, KV_NOT_READY)
    | (snap, None) \<Rightarrow>
        (case body of
           None \<Rightarrow> (fs, r, KV_BAD_REQUEST)
         | Some req \<Rightarrow>
             if kvOp req = ''get'' then
               (fs, r, case sm_Get (rSM r) (kvKey req) of (v, ok) \<Rightarrow> if ok then KV_VALUE v else KV_NOT_FOUND)
             else if kvOp req = ''put'' \<or> kvOp req = ''delete'' then
               (case leaderWrite w mapVersion addrs req r fs of
                  (fs', r', Inl WriteShardMapStale) \<Rightarrow> (fs', r', KV_STALE)
                | (fs', r', Inl e) \<Rightarrow> (fs', r', KV_ERROR e)
                | (fs', r', Inr res) \<Rightarrow> (fs', r', KV_OK (AppliedVersion res) (wrQuorum res)))
             else (fs, r, KV_UNKNOWN_OP (kvOp req))))"

section \<open>Effect of a write\<close>

lemma sm_maybeSnapshot_abs:
  "sm_maybeSnapshot dio sm t v fs = (fs', sm', e) \<Longrightarrow> sm_abs sm' = sm_abs sm \<and> smKv sm' = smKv sm \<and> smLog sm' = smLog sm"
  by (auto simp: sm_maybeSnapshot_def sm_abs_def split: option.splits prod.splits)

lemma write_snapshot_abs:
  "write_snapshot dio e r fs = (fs', r') \<Longrightarrow> sm_abs (rSM r') = sm_abs (rSM r) \<and> smKv (rSM r') = smKv (rSM r) \<and>
     rRole r' = rRole r \<and> rIsReady r' = rIsReady r \<and> smLog (rSM r') = smLog (rSM r)"
  using sm_maybeSnapshot_abs [of dio "rSM r" "eTerm e" "eVersion e" fs]
  by (auto simp: write_snapshot_def split: prod.splits)

lemma write_commit_ok:
  assumes "write_commit io now acked e r fs = (fs', r', None)" and "mem_wf (smKv (rSM r))"
  shows "sm_abs (rSM r') = apply_abs e (sm_abs (rSM r)) \<and> rRole r' = rRole r \<and> rIsReady r' \<and>
    known_op e \<and> mem_wf (smKv (rSM r'))"
  using assms sm_Apply_abs [of io "rSM r" e ApplyWithWAL fs] sm_Apply_ok_iff [of io "rSM r" e ApplyWithWAL fs]
  by (auto simp: write_commit_def Let_def split: prod.splits option.splits)

lemma write_commit_err:
  "write_commit io now acked e r fs = (fs', r', Some err) \<Longrightarrow> sm_abs (rSM r') = sm_abs (rSM r) \<and> rRole r' = rRole r"
  using sm_Apply_err [of io "rSM r" e ApplyWithWAL fs]
  by (auto simp: write_commit_def Let_def split: prod.splits option.splits)

lemma write_prepare_ok:
  "write_prepare now mv req r = Inr (e, peers, pl) \<Longrightarrow>
   rRole r = RoleLeader \<and> rIsReady r \<and> rShardMapVersion r = mv \<and> eTerm e = rTerm r \<and> eVersion e = rVersion r + 1 \<and>
   eOp e = kvOp req \<and> eKey e = kvKey req \<and> eValue e = kvValue req"
  by (auto simp: write_prepare_def ensureLeaderReady_def StatusSnapshot_def Let_def split: option.splits if_splits)

lemma leaderWrite_err:
  assumes "leaderWrite w mv addrs req r fs = (fs', r', Inl err)"
  shows "sm_abs (rSM r') = sm_abs (rSM r) \<and> rRole r' = rRole r"
  using assms write_commit_err
  by (auto simp: leaderWrite_def Let_def split: sum.splits prod.splits option.splits if_splits)

lemma leaderWrite_commit:
  assumes "leaderWrite w mv addrs req r fs = (fs', r', Inr res)"
  obtains e peers pl acked fs1 r1 where "write_prepare (weNow w) mv req r = Inr (e, peers, pl)"
    "write_commit (weIo w) (weNow w) acked e r fs = (fs1, r1, None)" "write_snapshot (weDio w) e r1 fs1 = (fs', r')"
    "AppliedVersion res = eVersion e" "AckedFollowers res = int (length acked)"
    "wrTotalEligible res < 2 * (AckedFollowers res + 1)"
proof -
  obtain e peers pl where p: "write_prepare (weNow w) mv req r = Inr (e, peers, pl)"
    using assms by (auto simp: leaderWrite_def split: sum.splits prod.splits)
  let ?plan = "planQuorum (peer_addrs addrs peers) pl (weNow w) (weWindow w)"
  define acked where "acked = (if NeededFollowers ?plan = 0 then [] else fanOutReplicate (LivePeers ?plan) (weAnswers w))"
  obtain fs1 r1 ce where c: "write_commit (weIo w) (weNow w) acked e r fs = (fs1, r1, ce)"
    by (cases "write_commit (weIo w) (weNow w) acked e r fs")
  obtain fs2 r2 where s: "write_snapshot (weDio w) e r1 fs1 = (fs2, r2)" by fastforce
  have total: "TotalEligible ?plan < 2 * (NeededFollowers ?plan + 1)"
    unfolding planQuorum_needed planQuorum_total by presburger
  have "ce = None \<and> fs' = fs2 \<and> r' = r2 \<and> NeededFollowers ?plan \<le> int (length acked) \<and>
      res = quorum_result ?plan (eVersion e) (int (length acked))"
    using assms p c s by (auto simp: leaderWrite_def acked_def Let_def split: option.splits if_splits)
  with that [OF p _ _] c s total show ?thesis by (auto simp: quorum_result_def)
qed


definition demo_env :: write_env where
  "demo_env = \<lparr>weIo = WriteOk, weDio = disk_io_ok, weNow = 5, weWindow = 0, weAnswers = [(''n2'', True)]\<rparr>"

lemma demo_leader_wf: "mem_wf (smKv (rSM demo_leader))"
  by (simp add: demo_leader_def Let_def mem_wf_def gm_wf_def)

lemmas demo_write_simps = leaderWrite_def write_prepare_def ensureLeaderReady_def StatusSnapshot_def demo_env_def
  demo_leader_def NewReplicaState_def peer_addrs_def planQuorum_def quorum_size_def hasLiveQuorum_def
  fanOutReplicate_def write_commit_def write_snapshot_def sm_Apply_def sm_maybeSnapshot_def gm_into_def Let_def


text \<open>
  Property C18.  Read your writes: after a put that returned OK the leader answers a get of the key
  with the value, after a delete with not found, and every other key as before.
\<close>

theorem read_your_writes:
  assumes wf: "mem_wf (smKv (rSM r))"
    and w: "handleWrite w mv addrs op key v r fs = (fs', r', PUT_OK ver q)"
  shows "Get now k r' =
    (if k = key then (if op = ''put'' then GET_OK v else GET_NOT_FOUND) else Get now k r)"
proof -
  obtain res where lw: "leaderWrite w mv addrs \<lparr>kvOp = op, kvKey = key, kvValue = v\<rparr> r fs = (fs', r', Inr res)"
    using w by (auto simp: handleWrite_def split: prod.splits option.splits guard_error.splits sum.splits write_error.splits)
  obtain e peers pl acked fs1 r1 where
    p: "write_prepare (weNow w) mv \<lparr>kvOp = op, kvKey = key, kvValue = v\<rparr> r = Inr (e, peers, pl)"
    and c: "write_commit (weIo w) (weNow w) acked e r fs = (fs1, r1, None)"
    and s: "write_snapshot (weDio w) e r1 fs1 = (fs', r')"
    using leaderWrite_commit [OF lw] by metis
  note pe = write_prepare_ok [OF p] and ce = write_commit_ok [OF c wf] and se = write_snapshot_abs [OF s]
  then have r': "rRole r' = RoleLeader" "rIsReady r'" "sm_abs (rSM r') = apply_abs e (sm_abs (rSM r))" by auto
  then have "mem_abs (smKv (rSM r')) = (if eOp e = ''put'' then (mem_abs (smKv (rSM r)))(key \<mapsto> v)
      else (mem_abs (smKv (rSM r)))(key := None))"
    using pe ce by (auto simp: sm_abs_def apply_abs_simps known_op_def)
  then show ?thesis
    using r' pe ce by (auto simp: Get_def StatusSnapshot_def sm_Get_def st.get known_op_def)
qed

theorem read_your_writes_witness:
  "case handleWrite demo_env 0 [(''n2'', ''addr'')] ''delete'' ''k'' [] demo_leader [] of
     (fs', r', res) \<Rightarrow> (\<exists>ver q. res = PUT_OK ver q) \<and> Get 9 ''k'' r' = GET_NOT_FOUND \<and> Get 9 ''l'' r' = GET_OK ''y''"
proof -
  obtain fs' r' res where w: "handleWrite demo_env 0 [(''n2'', ''addr'')] ''delete'' ''k'' [] demo_leader [] = (fs', r', res)"
    by (cases "handleWrite demo_env 0 [(''n2'', ''addr'')] ''delete'' ''k'' [] demo_leader []")
  then obtain ver q where "res = PUT_OK ver q" by (auto simp: handleWrite_def demo_write_simps)
  moreover have "Get 9 ''l'' demo_leader = GET_OK ''y''"
    by (simp add: Get_def StatusSnapshot_def demo_leader_def sm_Get_def mem_Get_def Let_def)
  ultimately show ?thesis using read_your_writes [OF demo_leader_wf, of demo_env 0 _ "''delete''" "''k''" "[]" "[]" fs' r'] w by auto
qed

section \<open>A write that failed on the leader\<close>



end
