(* ===== verification/Election.thy ===== *)
theory Election
  imports LeaderWrite
begin

text \<open>
  Leader election (\<^verbatim>\<open>node/election.go\<close>).  \<^verbatim>\<open>startElection\<close> holds the replica's mutex when it raises the term and
  votes for itself (\<open>election_begin\<close>), each time it sees a higher term (\<open>election_step_down\<close>) and when it
  decides (\<open>election_finish\<close>); it asks the peers in between.  The random part of the timeout and the
  answers of the peers are arguments.  The second half is the shard as a transition system whose
  steps are these sections and the handlers, with the proof that a term has at most one leader.
\<close>

definition electionTimeout :: "duration \<Rightarrow> duration \<Rightarrow> int \<Rightarrow> duration" where
  "electionTimeout lo hi rnd = (if lo \<le> 0 \<or> hi \<le> lo then 0 else lo + rnd)"

datatype tick = TickIdle | TickElection

definition election_tick :: "gotime \<Rightarrow> replica \<Rightarrow> replica \<times> tick" where
  "election_tick now r =
     (if rRole r = RoleLeader then (r, TickIdle)
      else if is_zero_time (rLastLeaderContact r) then (r\<lparr>rLastLeaderContact := now\<rparr>, TickIdle)
      else if time_sub now (rLastLeaderContact r) < rElectionTimeout r then (r, TickIdle)
      else (r, TickElection))"

definition election_begin :: "gotime \<Rightarrow> replica \<Rightarrow> (replica \<times> vote_request \<times> string list) option" where
  "election_begin now r =
     (if rRole r = RoleLeader then None
      else
        let t = rTerm r + 1 in
        Some ((set_term t r)\<lparr>rVotedFor := rNodeID r, rVotedForTerm := t, rLastLeaderContact := now\<rparr>,
              \<lparr>vqTerm = t, vqCandidateID = rNodeID r, vqVersion = rVersion r\<rparr>, rPeers r))"

text \<open>The results in order of arrival: \<open>VoteResult granted term\<close>, or the end of the context.\<close>

datatype vote_event = VoteResult bool uint64 | ContextDone
datatype ballot = HigherTerm uint64 | Aborted | Votes nat

fun collect_votes :: "uint64 \<Rightarrow> vote_event list \<Rightarrow> nat \<Rightarrow> ballot" where
  "collect_votes t [] votes = Votes votes"
| "collect_votes t (ContextDone # es) votes = Aborted"
| "collect_votes t (VoteResult granted pt # es) votes =
     (if t < pt then HigherTerm pt else collect_votes t es (if granted then votes + 1 else votes))"

definition election_step_down :: "uint64 \<Rightarrow> replica \<Rightarrow> replica" where
  "election_step_down t r = (if rTerm r < t then set_term t r else r)\<lparr>rRole := RoleFollower\<rparr>"

definition election_finish :: "gotime \<Rightarrow> uint64 \<Rightarrow> nat \<Rightarrow> nat \<Rightarrow> replica \<Rightarrow> replica" where
  "election_finish now t votes total_nodes r =
     (if rTerm r \<noteq> t \<or> rRole r = RoleLeader then r
      else if votes < quorum_size total_nodes then r\<lparr>rElectionCount := rElectionCount r + 1\<rparr>
      else r\<lparr>rRole := RoleLeader, rLeaderID := rNodeID r, rIsReady := True, rLastLeaderContact := now,
             rElectionCount := rElectionCount r + 1\<rparr>)"

text \<open>
  \<^verbatim>\<open>startElection\<close> when nothing else touches the replica meanwhile: \<open>ask\<close> gives the result of the call
  to each peer that has an address; the results arrive in the order of \<open>peer_addrs\<close>.
\<close>

definition startElection :: "gotime \<Rightarrow> gotime \<Rightarrow> (string, string) gomap \<Rightarrow> (string \<Rightarrow> vote_request \<Rightarrow> vote_event) \<Rightarrow> replica \<Rightarrow> replica" where
  "startElection now now' addrs ask r = (case election_begin now r of
      None \<Rightarrow> r
    | Some (r1, req, peers) \<Rightarrow>
        (case collect_votes (vqTerm req) (map (\<lambda>(pid, a). ask pid req) (peer_addrs addrs peers)) 1 of
           HigherTerm t \<Rightarrow> election_step_down t r1
         | Aborted \<Rightarrow> r1
         | Votes n \<Rightarrow> election_finish now' (vqTerm req) n (length peers + 1) r1))"

section \<open>Leader heartbeats\<close>

definition heartbeat_of :: "replica \<Rightarrow> heartbeat_request option" where
  "heartbeat_of r = (if rRole r \<noteq> RoleLeader then None
     else Some \<lparr>hbTerm = rTerm r, hbVersion = rVersion r, hbLeaderID = rNodeID r\<rparr>)"

text \<open>The answer of a peer: its term, or 0 after a failed call; \<open>t\<close> is the term that was sent.\<close>

definition heartbeat_response :: "gotime \<Rightarrow> string \<Rightarrow> uint64 \<Rightarrow> uint64 \<Rightarrow> replica \<Rightarrow> replica" where
  "heartbeat_response now peerID t peerTerm r =
     (if peerTerm = 0 then r
      else if t < peerTerm then
        (let r1 = (if rTerm r < peerTerm then set_term peerTerm r else r) in
         if rRole r1 = RoleLeader then r1\<lparr>rRole := RoleFollower\<rparr> else r1)
      else r\<lparr>rPeerLastContact := gm_put peerID now (rPeerLastContact r)\<rparr>)"

section \<open>One vote per term\<close>

lemma set_term_simps [simp]:
  "rTerm (set_term t r) = t" "rVersion (set_term t r) = rVersion r" "rRole (set_term t r) = rRole r"
  "rVotedFor (set_term t r) = rVotedFor r" "rVotedForTerm (set_term t r) = rVotedForTerm r"
  "rNodeID (set_term t r) = rNodeID r" "rPeers (set_term t r) = rPeers r"
  by (simp_all add: set_term_def)

lemma RequestVote_granted:
  assumes "RequestVote now req r = (r', resp)" and "vsGranted resp"
  shows "rTerm r \<le> vqTerm req" "rTerm r' = vqTerm req" "rVotedFor r' = vqCandidateID req" "rVotedForTerm r' = vqTerm req"
    "rVersion r \<le> vqVersion req"
    "rTerm r = vqTerm req \<Longrightarrow> rVotedForTerm r = vqTerm req \<Longrightarrow> rVotedFor r \<noteq> [] \<Longrightarrow> rVotedFor r = vqCandidateID req"
  using assms by (auto simp: RequestVote_def Let_def not_less split: if_splits)

lemma RequestVote_refused:
  assumes "RequestVote now req r = (r', resp)" and "\<not> vsGranted resp"
  shows "rTerm r \<le> rTerm r'" "rTerm r' = rTerm r \<Longrightarrow> rVotedFor r' = rVotedFor r \<and> rVotedForTerm r' = rVotedForTerm r"
  using assms by (auto simp: RequestVote_def Let_def split: if_splits)

lemma RequestVote_conf: "RequestVote now req r = (r', resp) \<Longrightarrow> rNodeID r' = rNodeID r \<and> rPeers r' = rPeers r"
  by (auto simp: RequestVote_def Let_def split: if_splits)

lemma RequestVote_role:
  "RequestVote now req r = (r', resp) \<Longrightarrow> rRole r' = RoleLeader \<Longrightarrow> rRole r = RoleLeader \<and> rTerm r' = rTerm r"
  by (auto simp: RequestVote_def Let_def split: if_splits)

text \<open>
  \<open>benign r r'\<close>: the step from \<open>r\<close> to \<open>r'\<close> does not lower the term, does not touch the vote without raising
  the term, and does not make the replica a leader or move a leader to another term.
\<close>

definition benign :: "replica \<Rightarrow> replica \<Rightarrow> bool" where
  "benign r r' \<longleftrightarrow> rTerm r \<le> rTerm r' \<and> rNodeID r' = rNodeID r \<and> rPeers r' = rPeers r \<and>
     (rTerm r' = rTerm r \<longrightarrow> rVotedFor r' = rVotedFor r \<and> rVotedForTerm r' = rVotedForTerm r) \<and>
     (rRole r' = RoleLeader \<longrightarrow> rRole r = RoleLeader \<and> rTerm r' = rTerm r)"

named_theorems benign_intros "handlers that keep the election invariant"

lemma benign_adopt_term [benign_intros]: "benign r (adopt_term t r)"
  by (auto simp: benign_def adopt_term_def)

lemma benign_sm:
  "benign r r' \<Longrightarrow> smTerm sm = rTerm r' \<Longrightarrow> benign r (r'\<lparr>rSM := sm\<rparr>)"
  by (auto simp: benign_def)

lemma Replicate_fields:
  "Replicate io now req r fs = (fs', r', res) \<Longrightarrow> rNodeID r' = rNodeID r \<and> rPeers r' = rPeers r \<and>
     rVotedFor r' = rVotedFor r \<and> rVotedForTerm r' = rVotedForTerm r"
  by (auto simp: Replicate_def Let_def adopt_term_def split: prod.splits option.splits if_splits)

lemma benign_Replicate [benign_intros]:
  assumes a: "Replicate io now req r fs = (fs', r', res)"
  shows "benign r r'"
  using a
proof (cases rule: Replicate_cases)
  case (failed sm' err)
  then show ?thesis
    using benign_sm [OF benign_adopt_term] sm_Apply_term_version(2) [OF failed(4)] by simp
next
  case (applied sm')
  have "eTerm (request_entry req) = rqTerm req" by (simp add: request_entry_def split: prod.splits)
  then have "rTerm r' = rqTerm req" using sm_Apply_term_version(3) [OF applied(4)] applied(5) by simp
  then show ?thesis
    using applied(1,6) Replicate_fields [OF a] benign_adopt_term [of r "rqTerm req"] by (auto simp: benign_def)
next
  case gap
  then show ?thesis using Replicate_fields [OF a] benign_adopt_term [of r "rqTerm req"] by (auto simp: benign_def)
qed (auto simp: benign_def adopt_term_def)

lemma benign_LeaderHeartbeat [benign_intros]: "LeaderHeartbeat now req r = (r', t) \<Longrightarrow> benign r r'"
  by (auto simp: LeaderHeartbeat_def Let_def benign_def adopt_term_def split: if_splits)

lemma benign_ForceRecover [benign_intros]: "benign r (ForceRecover now r)"
  by (simp add: benign_def ForceRecover_def sm_ResetLog_def)

lemma benign_step_down [benign_intros]: "benign r (election_step_down t r)"
  by (auto simp: benign_def election_step_down_def)

lemma benign_heartbeat_response [benign_intros]: "benign r (heartbeat_response now peer t pt r)"
  by (auto simp: benign_def heartbeat_response_def Let_def)

lemma benign_write_commit [benign_intros]:
  "write_commit io now acked e r fs = (fs', r', res) \<Longrightarrow> eTerm e \<le> rTerm r \<Longrightarrow> benign r r'"
  using sm_Apply_term_version [of io "rSM r" e ApplyWithWAL fs] sm_Apply_ok_iff [of io "rSM r" e ApplyWithWAL fs]
  by (auto simp: benign_def write_commit_def Let_def split: prod.splits option.splits)

lemma benign_write_snapshot [benign_intros]: "write_snapshot dio e r fs = (fs', r') \<Longrightarrow> benign r r'"
  using sm_maybeSnapshot_abs [of dio "rSM r" "eTerm e" "eVersion e" fs]
  by (auto simp: benign_def write_snapshot_def sm_abs_def split: prod.splits)

lemma recover_apply_fields:
  "recover_apply io dio resp r fs = (fs', r', res) \<Longrightarrow> rRole r' = rRole r \<and> rNodeID r' = rNodeID r \<and>
     rPeers r' = rPeers r \<and> rVotedFor r' = rVotedFor r \<and> rVotedForTerm r' = rVotedForTerm r"
  by (auto simp: recover_apply_def recovered_ready_def split: option.splits recover_type.splits prod.splits)

lemma benign_recover_apply [benign_intros]:
  "recover_apply io dio resp r fs = (fs', r', res) \<Longrightarrow> rRole r \<noteq> RoleLeader \<Longrightarrow> rTerm r \<le> rTerm r' \<Longrightarrow> benign r r'"
  using recover_apply_fields [of io dio resp r fs fs' r' res] by (simp add: benign_def)

section \<open>The shard as a transition system\<close>

text \<open>
  \<open>cNode\<close> and \<open>cFs\<close> are the replicas and their disks.  Two history variables record what has happened:
  \<open>cVotes\<close> holds (term, voter, candidate) for every vote, \<open>cWon\<close> holds (term, winner, supporters) for
  every election won.  Messages may be delayed, lost or repeated: a vote counts for its candidate at
  any later time.  Left out are the steps that break the argument, treated below: a restart, the
  installation of a snapshot with a lower term, and a promotion by the shard map.
\<close>

record cluster =
  cNode :: "string \<Rightarrow> replica"
  cFs :: "string \<Rightarrow> fs"
  cVotes :: "(uint64 \<times> string \<times> string) set"
  cWon :: "(uint64 \<times> string \<times> string set) set"

definition put_node :: "string \<Rightarrow> replica \<Rightarrow> fs \<Rightarrow> cluster \<Rightarrow> cluster" where
  "put_node p r fs s = s\<lparr>cNode := (cNode s)(p := r), cFs := (cFs s)(p := fs)\<rparr>"

inductive shard_step :: "string set \<Rightarrow> cluster \<Rightarrow> cluster \<Rightarrow> bool" for M :: "string set" where
  step_begin: "\<lbrakk>c \<in> M; rTerm (cNode s c) \<noteq> - 1; election_begin now (cNode s c) = Some (r', req, peers)\<rbrakk>
    \<Longrightarrow> shard_step M s (put_node c r' (cFs s c) s\<lparr>cVotes := insert (vqTerm req, c, c) (cVotes s)\<rparr>)"
| step_vote: "\<lbrakk>p \<in> M; (vqTerm req, vqCandidateID req, vqCandidateID req) \<in> cVotes s;
      RequestVote now req (cNode s p) = (r', resp)\<rbrakk>
    \<Longrightarrow> shard_step M s (put_node p r' (cFs s p) s\<lparr>cVotes :=
          (if vsGranted resp then insert (vqTerm req, p, vqCandidateID req) (cVotes s) else cVotes s)\<rparr>)"
| step_finish: "\<lbrakk>c \<in> M; (t, c, c) \<in> cVotes s; distinct G; set G \<subseteq> {p \<in> set (rPeers (cNode s c)). (t, p, c) \<in> cVotes s};
      r' = election_finish now t (1 + length G) (length (rPeers (cNode s c)) + 1) (cNode s c)\<rbrakk>
    \<Longrightarrow> shard_step M s (put_node c r' (cFs s c) s\<lparr>cWon :=
          (if rRole r' = RoleLeader \<and> rRole (cNode s c) \<noteq> RoleLeader then insert (t, c, insert c (set G)) (cWon s) else cWon s)\<rparr>)"
| step_step_down: "c \<in> M \<Longrightarrow> shard_step M s (put_node c (election_step_down t (cNode s c)) (cFs s c) s)"
| step_replicate: "\<lbrakk>p \<in> M; Replicate io now rq (cNode s p) (cFs s p) = (fs', r', res)\<rbrakk> \<Longrightarrow> shard_step M s (put_node p r' fs' s)"
| step_heartbeat: "\<lbrakk>p \<in> M; LeaderHeartbeat now hb (cNode s p) = (r', t)\<rbrakk> \<Longrightarrow> shard_step M s (put_node p r' (cFs s p) s)"
| step_heartbeat_response: "c \<in> M \<Longrightarrow>
    shard_step M s (put_node c (heartbeat_response now peer t pt (cNode s c)) (cFs s c) s)"
| step_force_recover: "p \<in> M \<Longrightarrow> shard_step M s (put_node p (ForceRecover now (cNode s p)) (cFs s p) s)"
| step_commit: "\<lbrakk>c \<in> M; eTerm e \<le> rTerm (cNode s c); write_commit io now acked e (cNode s c) (cFs s c) = (fs', r', res)\<rbrakk>
    \<Longrightarrow> shard_step M s (put_node c r' fs' s)"
| step_snapshot: "\<lbrakk>c \<in> M; write_snapshot dio e (cNode s c) (cFs s c) = (fs', r')\<rbrakk> \<Longrightarrow> shard_step M s (put_node c r' fs' s)"
| step_recover: "\<lbrakk>p \<in> M; rRole (cNode s p) \<noteq> RoleLeader;
      recover_apply ios dio resp (cNode s p) (cFs s p) = (fs', r', out); rTerm (cNode s p) \<le> rTerm r'\<rbrakk>
    \<Longrightarrow> shard_step M s (put_node p r' fs' s)"

inductive shard_steps :: "string set \<Rightarrow> cluster \<Rightarrow> cluster \<Rightarrow> bool" for M :: "string set" where
  steps_nil: "shard_steps M s s"
| steps_snoc: "\<lbrakk>shard_steps M s s'; shard_step M s' s''\<rbrakk> \<Longrightarrow> shard_steps M s s''"

text \<open>A fresh shard with the members \<open>M\<close>, whose shard map names \<open>l\<close> as the leader.\<close>

definition fresh_shard :: "string set \<Rightarrow> string \<Rightarrow> cluster \<Rightarrow> bool" where
  "fresh_shard M l s \<longleftrightarrow> finite M \<and> [] \<notin> M \<and> cVotes s = {} \<and> cWon s = {} \<and>
     (\<forall>c\<in>M. rNodeID (cNode s c) = c \<and> rTerm (cNode s c) = 0 \<and> distinct (rPeers (cNode s c)) \<and>
        set (rPeers (cNode s c)) = M - {c} \<and> (rRole (cNode s c) = RoleLeader \<longrightarrow> c = l))"

section \<open>Election safety\<close>

text \<open>
  The invariant, in five parts: the configuration is fixed; a recorded vote binds its voter as long as
  the voter stays in that term; nobody votes twice in a term; a won election has a majority of votes;
  a leader is the initial one in term 0 or has won its term.
\<close>

definition inv_conf :: "string set \<Rightarrow> cluster \<Rightarrow> bool" where
  "inv_conf M s \<longleftrightarrow> finite M \<and> [] \<notin> M \<and> (\<forall>c\<in>M. rNodeID (cNode s c) = c \<and> distinct (rPeers (cNode s c)) \<and>
     set (rPeers (cNode s c)) = M - {c})"

definition inv_votes :: "string set \<Rightarrow> cluster \<Rightarrow> bool" where
  "inv_votes M s \<longleftrightarrow> (\<forall>t p c. (t, p, c) \<in> cVotes s \<longrightarrow> p \<in> M \<and> c \<in> M \<and> 0 < t \<and> t \<le> rTerm (cNode s p) \<and>
     (t = rTerm (cNode s p) \<longrightarrow> rVotedForTerm (cNode s p) = t \<and> rVotedFor (cNode s p) = c))"

definition inv_once :: "cluster \<Rightarrow> bool" where
  "inv_once s \<longleftrightarrow> (\<forall>t p c c'. (t, p, c) \<in> cVotes s \<longrightarrow> (t, p, c') \<in> cVotes s \<longrightarrow> c = c')"

definition inv_won :: "string set \<Rightarrow> cluster \<Rightarrow> bool" where
  "inv_won M s \<longleftrightarrow> (\<forall>t c Q. (t, c, Q) \<in> cWon s \<longrightarrow> Q \<subseteq> M \<and> quorum_size (card M) \<le> card Q \<and> (\<forall>p\<in>Q. (t, p, c) \<in> cVotes s))"

definition inv_lead :: "string set \<Rightarrow> string \<Rightarrow> cluster \<Rightarrow> bool" where
  "inv_lead M l s \<longleftrightarrow> (\<forall>c\<in>M. rRole (cNode s c) = RoleLeader \<longrightarrow>
     rTerm (cNode s c) = 0 \<and> c = l \<or> (\<exists>Q. (rTerm (cNode s c), c, Q) \<in> cWon s))"

definition vote_inv :: "string set \<Rightarrow> string \<Rightarrow> cluster \<Rightarrow> bool" where
  "vote_inv M l s \<longleftrightarrow> inv_conf M s \<and> inv_votes M s \<and> inv_once s \<and> inv_won M s \<and> inv_lead M l s"

lemmas inv_defs = inv_conf_def inv_votes_def inv_once_def inv_won_def inv_lead_def

lemma vote_inv_fresh: "fresh_shard M l s \<Longrightarrow> vote_inv M l s"
  by (simp add: fresh_shard_def vote_inv_def inv_defs)

lemma put_node_simps [simp]:
  "cNode (put_node p r fs s) = (cNode s)(p := r)" "cVotes (put_node p r fs s) = cVotes s" "cWon (put_node p r fs s) = cWon s"
  by (simp_all add: put_node_def)

lemma inv_conf_put:
  "inv_conf M s \<Longrightarrow> rNodeID r' = rNodeID (cNode s p) \<Longrightarrow> rPeers r' = rPeers (cNode s p) \<Longrightarrow> inv_conf M (put_node p r' fs s)"
  by (auto simp: inv_conf_def)

lemma inv_votes_put:
  assumes "inv_votes M s" "rTerm (cNode s p) \<le> rTerm r'"
    and "\<And>c'. (rTerm r', p, c') \<in> cVotes s \<Longrightarrow> rVotedForTerm r' = rTerm r' \<and> rVotedFor r' = c'"
  shows "inv_votes M (put_node p r' fs s)"
  using assms unfolding inv_votes_def by (auto intro: order.trans)

lemma inv_votes_same:
  assumes "inv_votes M s" "rTerm (cNode s p) \<le> rTerm r'"
    and "rTerm r' = rTerm (cNode s p) \<Longrightarrow> rVotedFor r' = rVotedFor (cNode s p) \<and> rVotedForTerm r' = rVotedForTerm (cNode s p)"
  shows "inv_votes M (put_node p r' fs s)"
proof (rule inv_votes_put [OF assms(1,2)])
  fix c' assume v: "(rTerm r', p, c') \<in> cVotes s"
  then have "rTerm r' \<le> rTerm (cNode s p)" using assms(1) by (auto simp: inv_votes_def)
  then have "rTerm r' = rTerm (cNode s p)" using assms(2) by (rule order.antisym)
  with v assms(1,3) show "rVotedForTerm r' = rTerm r' \<and> rVotedFor r' = c'" by (auto simp: inv_votes_def)
qed

lemma inv_lead_put:
  "inv_lead M l s \<Longrightarrow> (rRole r' = RoleLeader \<Longrightarrow> rRole (cNode s p) = RoleLeader \<and> rTerm r' = rTerm (cNode s p)) \<Longrightarrow>
   inv_lead M l (put_node p r' fs s)"
  by (auto simp: inv_lead_def)

lemma vote_inv_benign:
  assumes "vote_inv M l s" "benign (cNode s p) r'"
  shows "vote_inv M l (put_node p r' fs s)"
  using assms inv_conf_put [of M s r' p fs] inv_votes_same [of M s p r' fs] inv_lead_put [of M l s r' p fs]
  by (simp add: vote_inv_def benign_def inv_once_def inv_won_def)

text \<open>Adding a vote that its voter is now bound to, in a term in which it has not voted otherwise.\<close>

lemma vote_inv_add:
  assumes inv: "inv_votes M s" "inv_once s" "inv_won M s" and m: "p \<in> M" "c \<in> M" "0 < t"
    and bound: "rTerm (cNode s p) = t" "rVotedForTerm (cNode s p) = t" "rVotedFor (cNode s p) = c"
    and once: "\<And>c'. (t, p, c') \<in> cVotes s \<Longrightarrow> c' = c"
  shows "inv_votes M (s\<lparr>cVotes := insert (t, p, c) (cVotes s)\<rparr>) \<and> inv_once (s\<lparr>cVotes := insert (t, p, c) (cVotes s)\<rparr>) \<and>
    inv_won M (s\<lparr>cVotes := insert (t, p, c) (cVotes s)\<rparr>)"
  using assms by (auto simp: inv_votes_def inv_once_def inv_won_def)

lemma put_node_votes [simp]: "put_node p r fs s\<lparr>cVotes := cVotes s\<rparr> = put_node p r fs s"
  by (simp add: put_node_def)

lemma inv_votes_update [simp]:
  "inv_conf M (s\<lparr>cVotes := V\<rparr>) = inv_conf M s" "inv_lead M l (s\<lparr>cVotes := V\<rparr>) = inv_lead M l s"
  by (simp_all add: inv_conf_def inv_lead_def)

lemma vote_inv_begin:
  assumes inv: "vote_inv M l s" and c: "c \<in> M" "rTerm (cNode s c) \<noteq> - 1"
    and b: "election_begin now (cNode s c) = Some (r', req, peers)"
  shows "vote_inv M l (put_node c r' (cFs s c) s\<lparr>cVotes := insert (vqTerm req, c, c) (cVotes s)\<rparr>)"
proof -
  let ?t = "rTerm (cNode s c) + 1" and ?s = "put_node c r' (cFs s c) s"
  have id: "rNodeID (cNode s c) = c" using inv c by (auto simp: vote_inv_def inv_conf_def)
  have r': "rTerm r' = ?t" "rVotedFor r' = c" "rVotedForTerm r' = ?t" "rRole r' \<noteq> RoleLeader"
    "rNodeID r' = rNodeID (cNode s c)" "rPeers r' = rPeers (cNode s c)" "vqTerm req = ?t"
    using b id by (auto simp: election_begin_def Let_def split: if_splits)
  have lt: "rTerm (cNode s c) < ?t" using c(2) by (simp add: uint64_less_succ uint64_succ_neq0_iff)
  have pos: "0 < ?t" using lt by (simp add: order.strict_trans1 [OF word_zero_le])
  have none: "(?t, c, c') \<notin> cVotes s" for c'
    using inv lt by (auto simp: vote_inv_def inv_votes_def dest: leD)
  have "inv_votes M ?s" "inv_once ?s" "inv_won M ?s"
    using inv r' lt none inv_votes_put [of M s c r' "cFs s c"]
    by (auto simp: vote_inv_def inv_once_def inv_won_def)
  then have "inv_votes M (?s\<lparr>cVotes := insert (?t, c, c) (cVotes s)\<rparr>) \<and> inv_once (?s\<lparr>cVotes := insert (?t, c, c) (cVotes s)\<rparr>) \<and>
      inv_won M (?s\<lparr>cVotes := insert (?t, c, c) (cVotes s)\<rparr>)"
    using vote_inv_add [of M ?s c c ?t] c r' none lt pos by simp
  moreover have "inv_conf M ?s" "inv_lead M l ?s"
    using inv r' inv_conf_put [of M s r' c] inv_lead_put [of M l s r' c] by (auto simp: vote_inv_def)
  ultimately show ?thesis by (simp add: vote_inv_def r'(7))
qed

lemma vote_inv_vote:
  assumes inv: "vote_inv M l s" and p: "p \<in> M" "(vqTerm req, vqCandidateID req, vqCandidateID req) \<in> cVotes s"
    and v: "RequestVote now req (cNode s p) = (r', resp)" "vsGranted resp"
  shows "vote_inv M l (put_node p r' (cFs s p) s\<lparr>cVotes := insert (vqTerm req, p, vqCandidateID req) (cVotes s)\<rparr>)"
proof -
  let ?t = "vqTerm req" and ?c = "vqCandidateID req" and ?s = "put_node p r' (cFs s p) s"
  note g = RequestVote_granted [OF v]
  have c: "?c \<in> M" "0 < ?t" "[] \<notin> M" using inv p(2) by (auto simp: vote_inv_def inv_votes_def inv_conf_def)
  have once: "c' = ?c" if "(?t, p, c') \<in> cVotes s" for c'
  proof -
    have b: "c' \<in> M" "?t \<le> rTerm (cNode s p)"
      "?t = rTerm (cNode s p) \<Longrightarrow> rVotedForTerm (cNode s p) = ?t \<and> rVotedFor (cNode s p) = c'"
      using inv that by (auto simp: vote_inv_def inv_votes_def)
    then have "?t = rTerm (cNode s p)" using g(1) by (metis order.antisym)
    with b g(6) c(3) show ?thesis by metis
  qed
  have same: "rNodeID r' = rNodeID (cNode s p)" "rPeers r' = rPeers (cNode s p)"
    using RequestVote_conf [OF v(1)] by simp_all
  have "inv_votes M ?s"
    by (rule inv_votes_put) (use inv g once in \<open>auto simp: vote_inv_def\<close>)
  moreover have "inv_once ?s" "inv_won M ?s" using inv by (auto simp: vote_inv_def inv_once_def inv_won_def)
  ultimately have "inv_votes M (?s\<lparr>cVotes := insert (?t, p, ?c) (cVotes s)\<rparr>) \<and> inv_once (?s\<lparr>cVotes := insert (?t, p, ?c) (cVotes s)\<rparr>) \<and>
      inv_won M (?s\<lparr>cVotes := insert (?t, p, ?c) (cVotes s)\<rparr>)"
    using vote_inv_add [of M ?s p ?c ?t] p(1) c g once by simp
  moreover have "inv_conf M ?s" "inv_lead M l ?s"
    using inv same inv_conf_put [of M s r' p] inv_lead_put [of M l s r' p] RequestVote_role [OF v(1)]
    by (auto simp: vote_inv_def)
  ultimately show ?thesis by (simp add: vote_inv_def)
qed

lemma inv_won_update [simp]:
  "inv_conf M (s\<lparr>cWon := W\<rparr>) = inv_conf M s" "inv_votes M (s\<lparr>cWon := W\<rparr>) = inv_votes M s"
  "inv_once (s\<lparr>cWon := W\<rparr>) = inv_once s"
  by (simp_all add: inv_conf_def inv_votes_def inv_once_def)

lemma vote_inv_finish:
  assumes inv: "vote_inv M l s" and c: "c \<in> M" "(t, c, c) \<in> cVotes s"
    and G: "distinct G" "set G \<subseteq> {p \<in> set (rPeers (cNode s c)). (t, p, c) \<in> cVotes s}"
    and r': "r' = election_finish now t (1 + length G) (length (rPeers (cNode s c)) + 1) (cNode s c)"
    and W: "W = (if rRole r' = RoleLeader \<and> rRole (cNode s c) \<noteq> RoleLeader then insert (t, c, insert c (set G)) (cWon s) else cWon s)"
  shows "vote_inv M l (put_node c r' (cFs s c) s\<lparr>cWon := W\<rparr>)"
proof -
  let ?s = "put_node c r' (cFs s c) s"
  have conf: "finite M" "distinct (rPeers (cNode s c))" "set (rPeers (cNode s c)) = M - {c}"
    using inv c by (auto simp: vote_inv_def inv_conf_def)
  then have n: "length (rPeers (cNode s c)) + 1 = card M"
    using c(1) distinct_card [OF conf(2)] card_Suc_Diff1 [OF conf(1) c(1)] by simp
  have q: "card (insert c (set G)) = 1 + length G" "insert c (set G) \<subseteq> M"
    using G conf c(1) distinct_card [OF G(1)] by (auto simp: card_insert_if)
  have same: "rTerm r' = rTerm (cNode s c)" "rVotedFor r' = rVotedFor (cNode s c)" "rPeers r' = rPeers (cNode s c)"
    "rVotedForTerm r' = rVotedForTerm (cNode s c)" "rNodeID r' = rNodeID (cNode s c)"
    unfolding r' election_finish_def by simp_all
  have won: "rTerm (cNode s c) = t \<and> quorum_size (card M) \<le> 1 + length G"
    if "rRole r' = RoleLeader" "rRole (cNode s c) \<noteq> RoleLeader"
    using that n unfolding r' election_finish_def by (auto split: if_splits)
  have "inv_won M (?s\<lparr>cWon := W\<rparr>)"
    using inv won q c(2) G(2) unfolding vote_inv_def inv_won_def W by auto
  moreover have "inv_lead M l (?s\<lparr>cWon := W\<rparr>)"
    using inv won same(1) unfolding vote_inv_def inv_lead_def W by auto
  ultimately show ?thesis
    using inv same inv_conf_put [of M s r' c "cFs s c"] inv_votes_same [of M s c r' "cFs s c"]
    by (simp add: vote_inv_def inv_once_def)
qed

lemma benign_refused:
  assumes "RequestVote now req r = (r', resp)" "\<not> vsGranted resp"
  shows "benign r r'"
  using RequestVote_refused [OF assms] RequestVote_role [OF assms(1)] RequestVote_conf [OF assms(1)]
  by (simp add: benign_def)

lemma vote_inv_step: "shard_step M s s' \<Longrightarrow> vote_inv M l s \<Longrightarrow> vote_inv M l s'"
proof (induction rule: shard_step.induct)
  case (step_vote p req s now r' resp)
  show ?case
  proof (cases "vsGranted resp")
    case True
    then show ?thesis using vote_inv_vote [OF step_vote.prems step_vote.hyps] by simp
  next
    case False
    then show ?thesis using vote_inv_benign [OF step_vote.prems benign_refused [OF step_vote.hyps(3)]]
      by simp
  qed
qed (auto intro: vote_inv_begin vote_inv_finish vote_inv_benign benign_intros)

lemma vote_inv_steps: "shard_steps M s s' \<Longrightarrow> vote_inv M l s \<Longrightarrow> vote_inv M l s'"
  by (induction rule: shard_steps.induct) (auto intro: vote_inv_step)

text \<open>
  Property C2.  Election safety: however the steps of the replicas of a shard interleave, and whatever
  messages are lost, delayed or repeated, two replicas that are leader in the same term are the same.
\<close>

theorem election_safety:
  assumes "fresh_shard M l s\<^sub>0" "shard_steps M s\<^sub>0 s" "a \<in> M" "b \<in> M"
    and "rRole (cNode s a) = RoleLeader" "rRole (cNode s b) = RoleLeader" "rTerm (cNode s a) = rTerm (cNode s b)"
  shows "a = b"
proof -
  have inv: "vote_inv M l s" using assms(1,2) vote_inv_steps vote_inv_fresh by blast
  have pos: "t \<noteq> 0" if "(t, c, Q) \<in> cWon s" for t c Q
  proof -
    have "Q \<noteq> {}" using inv that mj.more_than_half [of "card M"] by (force simp: vote_inv_def inv_won_def)
    then show ?thesis using inv that by (fastforce simp: vote_inv_def inv_won_def inv_votes_def)
  qed
  have same: "c = c'" if "(t, c, Q) \<in> cWon s" "(t, c', Q') \<in> cWon s" for t c Q c' Q'
  proof -
    have "Q \<inter> Q' \<noteq> {}" using inv that by (intro mj.intersect [of M]) (auto simp: vote_inv_def inv_won_def inv_conf_def)
    then obtain p where "p \<in> Q" "p \<in> Q'" by blast
    then have "(t, p, c) \<in> cVotes s" "(t, p, c') \<in> cVotes s" using inv that by (auto simp: vote_inv_def inv_won_def)
    then show ?thesis using inv by (auto simp: vote_inv_def inv_once_def)
  qed
  from inv assms(3-7) have "rTerm (cNode s a) = 0 \<and> a = l \<or> (\<exists>Q. (rTerm (cNode s a), a, Q) \<in> cWon s)"
    "rTerm (cNode s a) = 0 \<and> b = l \<or> (\<exists>Q. (rTerm (cNode s a), b, Q) \<in> cWon s)"
    by (auto simp: vote_inv_def inv_lead_def)
  with pos same show ?thesis by blast
qed

definition demo_shard :: cluster where
  "demo_shard = \<lparr>cNode = (\<lambda>p. NewReplicaState ''s'' p (remove1 p [''n1'', ''n2'', ''n3'']) 10 0), cFs = (\<lambda>_. []), cVotes = {}, cWon = {}\<rparr>"

definition demo_members :: "string set" where
  "demo_members = {''n1'', ''n2'', ''n3''}"

text \<open>\<open>n2\<close> starts an election, gets the vote of \<open>n3\<close> and wins.\<close>

lemma demo_elected:
  "\<exists>s. shard_steps demo_members demo_shard s \<and> rRole (cNode s ''n2'') = RoleLeader \<and> rTerm (cNode s ''n2'') = 1"
proof -
  let ?c = "''n2''" and ?req = "\<lparr>vqTerm = 1, vqCandidateID = ''n2'', vqVersion = 0\<rparr>"
  let ?r = "(cNode demo_shard ?c)"
  let ?r1 = "(set_term 1 ?r)\<lparr>rVotedFor := ?c, rVotedForTerm := 1, rLastLeaderContact := 5\<rparr>"
  let ?s1 = "put_node ?c ?r1 [] demo_shard\<lparr>cVotes := {(1, ?c, ?c)}\<rparr>"
  have s1: "shard_step demo_members demo_shard ?s1"
    using step_begin [of ?c demo_members demo_shard 5 ?r1 ?req "rPeers ?r"]
    by (simp add: demo_shard_def demo_members_def NewReplicaState_def newShardStateMachine_def election_begin_def)
  obtain r3 resp where v: "RequestVote 5 ?req (cNode ?s1 ''n3'') = (r3, resp)" by fastforce
  then have g: "vsGranted resp"
    by (auto simp: RequestVote_def demo_shard_def NewReplicaState_def newShardStateMachine_def put_node_def)
  let ?s2 = "put_node ''n3'' r3 [] ?s1\<lparr>cVotes := {(1, ''n3'', ?c), (1, ?c, ?c)}\<rparr>"
  have s2: "shard_step demo_members ?s1 ?s2"
    using step_vote [OF _ _ v, of demo_members] g by (simp add: demo_members_def put_node_def demo_shard_def)
  let ?r2 = "election_finish 6 1 2 3 (cNode ?s2 ?c)"
  have r2: "rRole ?r2 = RoleLeader" "rTerm ?r2 = 1" "rPeers (cNode ?s2 ?c) = [''n1'', ''n3'']"
    by (simp_all add: put_node_def election_finish_def set_term_def demo_shard_def NewReplicaState_def
        newShardStateMachine_def quorum_size_def)
  then have "shard_step demo_members ?s2 (put_node ?c ?r2 (cFs ?s2 ?c) ?s2\<lparr>cWon :=
      (if rRole ?r2 = RoleLeader \<and> rRole (cNode ?s2 ?c) \<noteq> RoleLeader then insert (1, ?c, insert ?c (set [''n3''])) (cWon ?s2) else cWon ?s2)\<rparr>)"
    by (intro step_finish [where now = 6]) (auto simp: demo_members_def eval_nat_numeral)
  moreover have "shard_steps demo_members demo_shard ?s2" using s1 s2 by (blast intro: steps_nil steps_snoc)
  ultimately show ?thesis using r2 by (intro exI conjI) (rule steps_snoc, assumption+, simp_all)
qed

theorem election_safety_witness:
  "\<exists>s. shard_steps demo_members demo_shard s \<and> rRole (cNode s ''n2'') = RoleLeader \<and> rTerm (cNode s ''n2'') = 1 \<and>
     \<not> (rRole (cNode s ''n1'') = RoleLeader \<and> rTerm (cNode s ''n1'') = 1)"
proof -
  have f: "fresh_shard demo_members ''n1'' demo_shard"
    by (auto simp: fresh_shard_def demo_members_def demo_shard_def NewReplicaState_def newShardStateMachine_def)
  from demo_elected show ?thesis
    using election_safety [OF f, of _ "''n1''" "''n2''"] by (fastforce simp: demo_members_def)
qed

section \<open>The winner is up to date\<close>

text \<open>The answer of a peer whose replica is \<open>r\<close>; an unreachable peer counts as a refusal with term 0.\<close>

definition answer :: "gotime \<Rightarrow> (string \<Rightarrow> replica) \<Rightarrow> (string \<Rightarrow> bool) \<Rightarrow> string \<Rightarrow> vote_request \<Rightarrow> vote_event" where
  "answer now nodes up pid req = (if up pid then (let resp = snd (RequestVote now req (nodes pid)) in VoteResult (vsGranted resp) (vsTerm resp))
     else VoteResult False 0)"

lemma collect_votes_count:
  "collect_votes t es n = Votes m \<Longrightarrow> m = n + length (filter (\<lambda>e. \<exists>pt. e = VoteResult True pt) es)"
  by (induction t es n rule: collect_votes.induct) (auto split: if_splits)

lemma peer_addrs_keys:
  "distinct (map fst (peer_addrs addrs peers))" "fst ` set (peer_addrs addrs peers) \<subseteq> set peers"
proof -
  have "gm_wf m \<Longrightarrow> gm_wf (fold (\<lambda>pid m. case gm_get addrs pid of None \<Rightarrow> m | Some a \<Rightarrow> gm_put pid a m) peers m)" for m
    by (induction peers arbitrary: m) (auto split: option.splits)
  from this [of "[]"] show "distinct (map fst (peer_addrs addrs peers))" by (auto simp: peer_addrs_def gm_wf_def)
  have "map_of (fold (\<lambda>pid m. case gm_get addrs pid of None \<Rightarrow> m | Some a \<Rightarrow> gm_put pid a m) peers m) x \<noteq> None \<Longrightarrow>
      map_of m x \<noteq> None \<or> x \<in> set peers" for m x
  proof (induction peers arbitrary: m)
    case (Cons p peers)
    show ?case
      using Cons.IH [of "case gm_get addrs p of None \<Rightarrow> m | Some a \<Rightarrow> gm_put p a m"] Cons.prems
      by (auto simp: gomap_simps split: option.splits if_splits)
  qed simp
  from this [of "[]"] show "fst ` set (peer_addrs addrs peers) \<subseteq> set peers"
    by (auto simp: peer_addrs_def map_of_eq_None_iff)
qed

text \<open>
  Property C13.  A replica that wins an election is at least as up to date as every majority of the
  replicas: if more than half of them, itself included, hold version \<open>v\<close> when they are asked, the
  winner holds version \<open>v\<close> or a later one.
\<close>

theorem winner_up_to_date:
  assumes peers: "distinct (rPeers r)" "rNodeID r \<notin> set (rPeers r)"
    and win: "rRole r \<noteq> RoleLeader" "startElection now now' addrs (answer now'' nodes up) r = r'" "rRole r' = RoleLeader"
    and S: "S \<subseteq> insert (rNodeID r) (set (rPeers r))" "length (rPeers r) + 1 < 2 * card S"
      "\<forall>p\<in>S. v \<le> rVersion (if p = rNodeID r then r else nodes p)"
  shows "v \<le> rVersion r'"
proof -
  obtain r1 req where b: "election_begin now r = Some (r1, req, rPeers r)" "vqVersion req = rVersion r" "rVersion r1 = rVersion r"
    "rRole r1 = rRole r"
    using win(1) by (auto simp: election_begin_def Let_def)
  let ?A = "peer_addrs addrs (rPeers r)" and ?M = "insert (rNodeID r) (set (rPeers r))"
  let ?es = "map (\<lambda>(pid, a). answer now'' nodes up pid req) ?A"
  have res: "rVersion r' = rVersion r" "\<exists>n. collect_votes (vqTerm req) ?es 1 = Votes n \<and> quorum_size (length (rPeers r) + 1) \<le> n"
    using win b by (auto simp: startElection_def election_finish_def election_step_down_def split: ballot.splits if_splits)
  define G where "G = map fst (filter (\<lambda>(pid, a). up pid \<and> vsGranted (snd (RequestVote now'' req (nodes pid)))) ?A)"
  have "length (filter (\<lambda>e. \<exists>pt. e = VoteResult True pt) ?es) = length G"
    by (auto simp: G_def filter_map comp_def split_def answer_def Let_def intro!: arg_cong [where f = length] filter_cong)
  then have q: "quorum_size (length (rPeers r) + 1) \<le> 1 + length G" using res(2) collect_votes_count [of "vqTerm req" ?es 1] by auto
  have G: "distinct G" "set G \<subseteq> set (rPeers r)" "\<And>p. p \<in> set G \<Longrightarrow> vsGranted (snd (RequestVote now'' req (nodes p)))"
    using peer_addrs_keys [of addrs "rPeers r"] by (auto simp: G_def distinct_map_filter)
  have "insert (rNodeID r) (set G) \<inter> S \<noteq> {}"
  proof (rule mj.intersect [of ?M])
    have m: "card ?M = length (rPeers r) + 1" using peers by (simp add: distinct_card)
    have "card (insert (rNodeID r) (set G)) = 1 + length G" using G(1,2) peers by (auto simp: distinct_card card_insert_if)
    with m q show "quorum_size (card ?M) \<le> card (insert (rNodeID r) (set G))" by simp
    show "quorum_size (card ?M) \<le> card S" using m S(2) by (simp add: quorum_size_def)
  qed (use G S(1) in auto)
  then obtain p where p: "p \<in> S" "p = rNodeID r \<or> p \<in> set G" by blast
  show ?thesis
  proof (cases "p = rNodeID r")
    case True
    then show ?thesis using p S(3) res(1) by auto
  next
    case False
    then have "rVersion (nodes p) \<le> rVersion r"
      using p(2) RequestVote_granted(5) [OF surjective_pairing G(3)] b(2) by simp
    moreover have "v \<le> rVersion (nodes p)" using False p(1) S(3) by auto
    ultimately show ?thesis using res(1) by simp
  qed
qed

theorem winner_up_to_date_witness:
  "let nodes = (\<lambda>p. NewReplicaState ''s'' p [] 10 0); r = NewReplicaState ''s'' ''a'' [''b'', ''c''] 10 0
   in \<exists>r'. startElection 1 2 [(''b'', ''h''), (''c'', ''i'')] (answer 2 nodes (\<lambda>p. p = ''c'')) r = r' \<and>
        rRole r' = RoleLeader \<and> 0 \<le> rVersion r'"
proof -
  let ?nodes = "\<lambda>p. NewReplicaState ''s'' p [] 10 0" and ?r = "NewReplicaState ''s'' ''a'' [''b'', ''c''] 10 0"
  let ?r' = "startElection 1 2 [(''b'', ''h''), (''c'', ''i'')] (answer 2 ?nodes (\<lambda>p. p = ''c'')) ?r"
  have lead: "rRole ?r' = RoleLeader"
    by (simp add: startElection_def election_begin_def answer_def NewReplicaState_def newShardStateMachine_def Let_def
        peer_addrs_def set_term_def RequestVote_def election_finish_def quorum_size_def)
  show ?thesis
    using winner_up_to_date [of ?r 1 2 _ 2 ?nodes _ ?r' "{''a'', ''b''}" 0] lead
    by (auto simp: NewReplicaState_def Let_def)
qed

section \<open>Where the argument stops\<close>

text \<open>
  A vote does not survive the installation of a snapshot that carries a lower term: the
  term falls back with the snapshot, and the replica then grants its vote to any other candidate of
  the term in which it has voted already.
\<close>

theorem snapshot_allows_second_vote:
  assumes vote: "RequestVote now req r = (r1, resp)" "vsGranted resp"
    and snap: "recover_apply io dio (Some p) r1 fs = (fs', r2, res)" "rcType p = TYPE_SNAPSHOT" "rcTerm p < vqTerm req"
    and second: "vqTerm req' = vqTerm req" "rcVersion p \<le> vqVersion req'"
  shows "vsGranted (snd (RequestVote now' req' r2))"
proof -
  have "rTerm r2 = rcTerm p" "rVersion r2 = rcVersion p"
    using snap by (auto simp: recover_apply_def recovered_ready_def sm_ApplySnapshot_def Let_def split: prod.splits option.splits)
  with snap(3) second show ?thesis by (simp add: RequestVote_def Let_def not_less)
qed

theorem snapshot_allows_second_vote_witness:
  "let r = NewReplicaState ''s'' ''n3'' [''n1'', ''n2''] 10 0; req = (\<lambda>c. \<lparr>vqTerm = 5, vqCandidateID = c, vqVersion = 9\<rparr>);
       r1 = fst (RequestVote 1 (req ''n1'') r);
       r2 = fst (snd (recover_apply (\<lambda>_. WriteOk) disk_io_ok
         (Some \<lparr>rcType = TYPE_SNAPSHOT, rcVersion = 9, rcEntries = [], rcTerm = 4, rcKv = []\<rparr>) r1 []))
   in vsGranted (snd (RequestVote 1 (req ''n1'') r)) \<and> vsGranted (snd (RequestVote 2 (req ''n2'') r2))"
proof -
  let ?r = "NewReplicaState ''s'' ''n3'' [''n1'', ''n2''] 10 0"
  let ?req = "\<lambda>c. \<lparr>vqTerm = 5, vqCandidateID = c, vqVersion = 9\<rparr>"
  let ?p = "\<lparr>rcType = TYPE_SNAPSHOT, rcVersion = 9, rcEntries = [], rcTerm = 4, rcKv = []\<rparr>"
  have g: "vsGranted (snd (RequestVote 1 (?req ''n1'') ?r))"
    by (simp add: RequestVote_def NewReplicaState_def newShardStateMachine_def)
  show ?thesis
    using snapshot_allows_second_vote [OF surjective_pairing g, of "\<lambda>_. WriteOk" disk_io_ok ?p "[]" _ _ _ "?req ''n2''" 2] g
    by (simp add: Let_def prod_eq_iff)
qed

end
