(* ===== verification/ShardMap.thy ===== *)
theory ShardMap
  imports Quorum
begin

text \<open>
  The runtime shard map of the coordinator, \<^verbatim>\<open>internal/shardmap\<close>.  Every method holds the mutex, so each
  is one function on the map.  A method that returns an error returns it beside the map, which it
  leaves alone.  The locale \<open>versioned\<close> is what the consumers of the version rely on: each effective
  mutation raises it by one, so a consumer that sees the version it has cached holds the current map.
\<close>

record shard_info =
  siID :: string
  siReplicas :: "string list"
  siLeader :: string
  siBootstrapSourceShardID :: string
  siIncomingReplicas :: "string list"

record shard_map =
  shVersion :: uint64
  shShards :: "(string, shard_info) gomap"

datatype shardmap_error = ShardNotFound string | ShardExists string | NotAReplica string string | NoLeader string

definition si_Quorum :: "shard_info \<Rightarrow> nat" where
  "si_Quorum s = length (siReplicas s) div 2 + 1"

definition HasReplica :: "shard_info \<Rightarrow> string \<Rightarrow> bool" where
  "HasReplica s nodeID = list_ex (\<lambda>r. r = nodeID) (siReplicas s)"

definition shardmap_New :: shard_map where
  "shardmap_New = \<lparr>shVersion = 0, shShards = []\<rparr>"

definition sh_Get :: "shard_map \<Rightarrow> string \<Rightarrow> shardmap_error + shard_info" where
  "sh_Get m shardID = (case gm_get (shShards m) shardID of None \<Rightarrow> Inl (ShardNotFound shardID) | Some s \<Rightarrow> Inr s)"

definition sh_All :: "shard_map \<Rightarrow> shard_info list" where
  "sh_All m = map snd (shShards m)"

definition AddShard :: "shard_info \<Rightarrow> shard_map \<Rightarrow> shard_map \<times> shardmap_error option" where
  "AddShard info m = (case gm_get (shShards m) (siID info) of
      Some s \<Rightarrow> (m, Some (ShardExists (siID info)))
    | None \<Rightarrow> (\<lparr>shVersion = shVersion m + 1, shShards = gm_put (siID info) info (shShards m)\<rparr>, None))"

definition SetLeader :: "string \<Rightarrow> string \<Rightarrow> shard_map \<Rightarrow> shard_map \<times> shardmap_error option" where
  "SetLeader shardID nodeID m = (case gm_get (shShards m) shardID of
      None \<Rightarrow> (m, Some (ShardNotFound shardID))
    | Some s \<Rightarrow>
        if \<not> list_ex (\<lambda>r. r = nodeID) (siReplicas s) then (m, Some (NotAReplica nodeID shardID))
        else (\<lparr>shVersion = shVersion m + 1, shShards = gm_put shardID (s\<lparr>siLeader := nodeID\<rparr>) (shShards m)\<rparr>, None))"

definition SetReplicas :: "string \<Rightarrow> string list \<Rightarrow> shard_map \<Rightarrow> shard_map \<times> shardmap_error option" where
  "SetReplicas shardID replicas m = (case gm_get (shShards m) shardID of
      None \<Rightarrow> (m, Some (ShardNotFound shardID))
    | Some s \<Rightarrow>
        let s1 = s\<lparr>siReplicas := replicas\<rparr>;
            s2 = (if siLeader s1 \<noteq> [] \<and> \<not> list_ex (\<lambda>r. r = siLeader s1) (siReplicas s1) then s1\<lparr>siLeader := []\<rparr> else s1)
        in (\<lparr>shVersion = shVersion m + 1, shShards = gm_put shardID s2 (shShards m)\<rparr>, None))"

definition SetIncomingReplicas :: "string \<Rightarrow> string list \<Rightarrow> shard_map \<Rightarrow> shard_map \<times> shardmap_error option" where
  "SetIncomingReplicas shardID incoming m = (case gm_get (shShards m) shardID of
      None \<Rightarrow> (m, Some (ShardNotFound shardID))
    | Some s \<Rightarrow>
        (\<lparr>shVersion = shVersion m + 1, shShards = gm_put shardID (s\<lparr>siIncomingReplicas := incoming\<rparr>) (shShards m)\<rparr>, None))"

definition ClearBootstrapSource :: "string \<Rightarrow> shard_map \<Rightarrow> shard_map \<times> shardmap_error option" where
  "ClearBootstrapSource shardID m = (case gm_get (shShards m) shardID of
      None \<Rightarrow> (m, Some (ShardNotFound shardID))
    | Some s \<Rightarrow>
        if siBootstrapSourceShardID s = [] then (m, None)
        else (\<lparr>shVersion = shVersion m + 1,
               shShards = gm_put shardID (s\<lparr>siBootstrapSourceShardID := []\<rparr>) (shShards m)\<rparr>, None))"

definition RemoveShard :: "string \<Rightarrow> shard_map \<Rightarrow> shard_map \<times> shardmap_error option" where
  "RemoveShard shardID m = (case gm_get (shShards m) shardID of
      None \<Rightarrow> (m, Some (ShardNotFound shardID))
    | Some s \<Rightarrow> (\<lparr>shVersion = shVersion m + 1, shShards = gm_del shardID (shShards m)\<rparr>, None))"

definition ShardsForNode :: "string \<Rightarrow> shard_map \<Rightarrow> shard_info list" where
  "ShardsForNode nodeID m = filter (\<lambda>s. HasReplica s nodeID) (map snd (shShards m))"

definition LeaderFor :: "shard_map \<Rightarrow> string \<Rightarrow> shardmap_error + string" where
  "LeaderFor m shardID = (case sh_Get m shardID of
      Inl e \<Rightarrow> Inl e
    | Inr s \<Rightarrow> if siLeader s = [] then Inl (NoLeader shardID) else Inr (siLeader s))"

definition sh_Snapshot :: "shard_map \<Rightarrow> uint64 \<times> shard_info list" where
  "sh_Snapshot m = (shVersion m, map snd (shShards m))"

text \<open>A mutation as data, for sequences of them.\<close>

datatype shard_op = OpAddShard shard_info | OpSetLeader string string | OpSetReplicas string "string list"
  | OpSetIncomingReplicas string "string list" | OpClearBootstrapSource string | OpRemoveShard string

fun sh_step :: "shard_op \<Rightarrow> shard_map \<Rightarrow> shard_map \<times> shardmap_error option" where
  "sh_step (OpAddShard info) m = AddShard info m"
| "sh_step (OpSetLeader s n) m = SetLeader s n m"
| "sh_step (OpSetReplicas s rs) m = SetReplicas s rs m"
| "sh_step (OpSetIncomingReplicas s rs) m = SetIncomingReplicas s rs m"
| "sh_step (OpClearBootstrapSource s) m = ClearBootstrapSource s m"
| "sh_step (OpRemoveShard s) m = RemoveShard s m"

definition sh_run :: "shard_op list \<Rightarrow> shard_map \<Rightarrow> shard_map" where
  "sh_run ops m = fold (\<lambda>op m. fst (sh_step op m)) ops m"

lemmas shard_defs = AddShard_def SetLeader_def SetReplicas_def SetIncomingReplicas_def ClearBootstrapSource_def
  RemoveShard_def

section \<open>Well-formed shard maps\<close>

definition leader_ok :: "shard_info \<Rightarrow> bool" where
  "leader_ok s \<longleftrightarrow> siLeader s = [] \<or> siLeader s \<in> set (siReplicas s)"

definition sh_wf :: "shard_map \<Rightarrow> bool" where
  "sh_wf m \<longleftrightarrow> gm_wf (shShards m) \<and> (\<forall>i s. map_of (shShards m) i = Some s \<longrightarrow> siID s = i \<and> leader_ok s)"

fun sh_op_ok :: "shard_op \<Rightarrow> bool" where
  "sh_op_ok (OpAddShard info) = leader_ok info"
| "sh_op_ok _ = True"

lemma list_ex_eq [simp]: "list_ex (\<lambda>r. r = x) xs \<longleftrightarrow> x \<in> set xs"
  by (auto simp: list_ex_iff)

lemma sh_wf_new [simp]: "sh_wf shardmap_New"
  by (simp add: sh_wf_def shardmap_New_def)

lemma sh_wf_put:
  "sh_wf m \<Longrightarrow> siID s = i \<Longrightarrow> leader_ok s \<Longrightarrow> sh_wf \<lparr>shVersion = v, shShards = gm_put i s (shShards m)\<rparr>"
  by (auto simp: sh_wf_def gomap_simps)

lemma sh_wf_get: "sh_wf m \<Longrightarrow> map_of (shShards m) i = Some s \<Longrightarrow> siID s = i \<and> leader_ok s"
  by (auto simp: sh_wf_def)

lemma sh_wf_step: "sh_wf m \<Longrightarrow> sh_op_ok op \<Longrightarrow> sh_wf (fst (sh_step op m))"
proof (cases op)
  case (OpRemoveShard s)
  moreover assume "sh_wf m"
  ultimately show ?thesis by (auto simp: RemoveShard_def sh_wf_def gomap_simps split: option.splits)
qed (auto simp: shard_defs Let_def leader_ok_def split: option.splits dest: sh_wf_get intro!: sh_wf_put)

section \<open>The version detects every change\<close>

locale versioned =
  fixes step :: "'op \<Rightarrow> 'm \<Rightarrow> 'm" and version :: "'m \<Rightarrow> uint64"
  assumes step_version: "step op m = m \<or> version (step op m) = version m + 1"
begin

definition run :: "'op list \<Rightarrow> 'm \<Rightarrow> 'm" where
  "run ops m = fold step ops m"

lemma run_version: "\<exists>k \<le> length ops. version (run ops m) = version m + of_nat k \<and> (k = 0 \<longrightarrow> run ops m = m)"
proof (induction ops rule: rev_induct)
  case (snoc op ops)
  then obtain k where k: "k \<le> length ops" "version (run ops m) = version m + of_nat k" "k = 0 \<longrightarrow> run ops m = m" by blast
  show ?case
  proof (cases "step op (run ops m) = run ops m")
    case True
    with k show ?thesis by (intro exI [of _ k]) (auto simp: run_def)
  next
    case False
    then have "version (step op (run ops m)) = version (run ops m) + 1" using step_version by blast
    with k show ?thesis by (intro exI [of _ "Suc k"]) (simp add: run_def algebra_simps)
  qed
qed (simp add: run_def)

lemma unchanged:
  assumes "length ops < 2 ^ 64" "version (run ops m) = version m"
  shows "run ops m = m"
proof -
  obtain k where k: "k \<le> length ops" "version (run ops m) = version m + of_nat k" "k = 0 \<longrightarrow> run ops m = m"
    using run_version by blast
  then have "(of_nat k :: uint64) = 0" using assms(2) by simp
  then have "2 ^ 64 dvd k" by (simp add: word_of_nat_eq_0_iff)
  with k assms(1) show ?thesis by (auto dest: dvd_imp_le)
qed

end

interpretation vs: versioned "\<lambda>op m. fst (sh_step op m)" shVersion
proof
  show "fst (sh_step op m) = m \<or> shVersion (fst (sh_step op m)) = shVersion m + 1" for op m
    by (cases op) (auto simp: shard_defs Let_def split: option.splits)
qed

text \<open>
  Property C21.  The version of the shard map detects every change: after fewer than \<open>2 ^ 64\<close> mutations,
  in any order and with any outcome, a version that is the same as before means that the map is.
\<close>

theorem version_detects_change:
  assumes "length ops < 2 ^ 64" "shVersion (sh_run ops m) = shVersion m"
  shows "sh_run ops m = m"
  using vs.unchanged [of ops m] assms by (simp add: sh_run_def vs.run_def)

definition demo_map :: shard_map where
  "demo_map = fst (AddShard \<lparr>siID = ''s'', siReplicas = [''a'', ''b''], siLeader = ''a'', siBootstrapSourceShardID = [],
     siIncomingReplicas = []\<rparr> shardmap_New)"

theorem version_detects_change_witness:
  "let ops = [OpSetLeader ''s'' ''c'', OpClearBootstrapSource ''s'', OpAddShard (snd (hd (shShards demo_map)))]
   in shVersion (sh_run ops demo_map) = shVersion demo_map \<and> sh_run ops demo_map = demo_map"
proof -
  let ?ops = "[OpSetLeader ''s'' ''c'', OpClearBootstrapSource ''s'', OpAddShard (snd (hd (shShards demo_map)))]"
  have "shVersion (sh_run ?ops demo_map) = shVersion demo_map"
    by (simp add: sh_run_def demo_map_def shard_defs shardmap_New_def)
  then show ?thesis using version_detects_change [of ?ops demo_map] by (simp add: Let_def)
qed

text \<open>
  Leaders are replicas: from a shard map in which every leader is one of the shard's
  replicas or absent, every sequence of mutations leads to such a map, provided added shards satisfy
  the condition (\<^verbatim>\<open>AddShard\<close> does not check it).  A lookup of a leader then gives a replica.
\<close>

theorem leaders_are_replicas:
  assumes "sh_wf m" "list_all sh_op_ok ops"
  shows "sh_wf (sh_run ops m) \<and>
    (LeaderFor (sh_run ops m) i = Inr l \<longrightarrow> (\<exists>s. sh_Get (sh_run ops m) i = Inr s \<and> HasReplica s l \<and> l \<noteq> []))"
proof -
  have wf: "sh_wf (sh_run ops m)"
    using assms unfolding sh_run_def by (induction ops arbitrary: m) (auto intro: sh_wf_step)
  moreover have "\<exists>s. sh_Get (sh_run ops m) i = Inr s \<and> HasReplica s l \<and> l \<noteq> []" if "LeaderFor (sh_run ops m) i = Inr l"
    using that sh_wf_get [OF wf]
    by (auto simp: LeaderFor_def sh_Get_def HasReplica_def leader_ok_def split: option.splits if_splits)
  ultimately show ?thesis by blast
qed

theorem leaders_are_replicas_witness:
  "let m = sh_run [OpSetReplicas ''s'' [''b'', ''c''], OpSetLeader ''s'' ''c''] demo_map
   in sh_wf m \<and> LeaderFor m ''s'' = Inr ''c'' \<and> (\<exists>s. sh_Get m ''s'' = Inr s \<and> HasReplica s ''c'')"
proof -
  let ?ops = "[OpSetReplicas ''s'' [''b'', ''c''], OpSetLeader ''s'' ''c'']"
  have "sh_wf demo_map" by (auto simp: demo_map_def AddShard_def shardmap_New_def sh_wf_def leader_ok_def gm_wf_def)
  moreover have "LeaderFor (sh_run ?ops demo_map) ''s'' = Inr ''c''"
    by (simp add: LeaderFor_def sh_Get_def sh_run_def demo_map_def shard_defs shardmap_New_def)
  ultimately show ?thesis
    using leaders_are_replicas [of demo_map ?ops ] by (auto simp: Let_def)
qed

end
