(* ===== verification/Config.thy ===== *)
theory Config
  imports Prelude
begin

text \<open>
  Configuration of the coordinator and of a node, \<^verbatim>\<open>internal/config\<close>: validation, defaults and lookup.  The
  YAML decoder is a third-party package and stands as the parameter \<open>unmarshal\<close>, from the bytes to an
  error message or a configuration.  Go's \<^verbatim>\<open>int\<close> fields are integers; the conversion to a
  \<^verbatim>\<open>time.Duration\<close> multiplies in 64 bits and wraps (\<open>ms_duration\<close>).
\<close>

record node_spec =
  nspID :: string
  nspAddress :: string

record shard_spec =
  sspID :: string
  sspReplicas :: "string list"
  sspInitialLeader :: string

record coordinator_config =
  ccAddress :: string
  ccHeartbeatInterval :: duration
  ccHeartbeatIntervalMs :: int
  ccFailureTimeout :: duration
  ccFailureTimeoutMs :: int

record replication_config =
  rpQuorumTimeoutMs :: int
  rpMaxLagVersions :: int
  rpMaxBufferedVersions :: int

record cluster_config =
  clCoordinator :: coordinator_config
  clNodes :: "node_spec list"
  clShards :: "shard_spec list"
  clReplication :: replication_config

datatype config_error =
    ReadConfig string
  | ParseConfig string
  | CoordinatorAddressRequired
  | NoNodes
  | NoShards
  | NodeIDRequired
  | NodeAddressRequired string
  | ShardIDRequired
  | NoReplicas string
  | UnknownReplica string string
  | UnknownLeader string string
  | NodeNotFound string
  | CoordinatorRequired
  | BadSnapshotInterval
  | BadSnapshotRetention

definition ms_duration :: "int \<Rightarrow> duration" where
  "ms_duration ms = sint (word_of_int (ms * 1000000) :: uint64)"

definition or_default :: "int \<Rightarrow> int \<Rightarrow> int" where
  "or_default d x = (if x = 0 then d else x)"

section \<open>The cluster configuration\<close>

fun validate_nodes :: "node_spec list \<Rightarrow> string list \<Rightarrow> config_error + string list" where
  "validate_nodes [] ids = Inr ids"
| "validate_nodes (n # ns) ids =
     (if nspID n = [] then Inl NodeIDRequired
      else if nspAddress n = [] then Inl (NodeAddressRequired (nspID n))
      else validate_nodes ns (nspID n # ids))"

fun validate_replicas :: "string list \<Rightarrow> string \<Rightarrow> string list \<Rightarrow> config_error option" where
  "validate_replicas ids s [] = None"
| "validate_replicas ids s (r # rs) = (if r \<notin> set ids then Some (UnknownReplica s r) else validate_replicas ids s rs)"

fun validate_shards :: "string list \<Rightarrow> shard_spec list \<Rightarrow> config_error option" where
  "validate_shards ids [] = None"
| "validate_shards ids (s # ss) =
     (if sspID s = [] then Some ShardIDRequired
      else if sspReplicas s = [] then Some (NoReplicas (sspID s))
      else (case validate_replicas ids (sspID s) (sspReplicas s) of
              Some e \<Rightarrow> Some e
            | None \<Rightarrow>
                if sspInitialLeader s \<noteq> [] \<and> sspInitialLeader s \<notin> set ids
                then Some (UnknownLeader (sspID s) (sspInitialLeader s))
                else validate_shards ids ss))"

definition cluster_validate :: "cluster_config \<Rightarrow> config_error option" where
  "cluster_validate c =
     (if ccAddress (clCoordinator c) = [] then Some CoordinatorAddressRequired
      else if clNodes c = [] then Some NoNodes
      else if clShards c = [] then Some NoShards
      else (case validate_nodes (clNodes c) [] of
              Inl e \<Rightarrow> Some e
            | Inr ids \<Rightarrow> validate_shards ids (clShards c)))"

definition cluster_applyDefaults :: "cluster_config \<Rightarrow> cluster_config" where
  "cluster_applyDefaults c =
     (let co = clCoordinator c; rp = clReplication c;
          hb = or_default 500 (ccHeartbeatIntervalMs co);
          ft = or_default 1500 (ccFailureTimeoutMs co)
      in c\<lparr>clCoordinator := co\<lparr>ccHeartbeatIntervalMs := hb, ccFailureTimeoutMs := ft,
             ccHeartbeatInterval := ms_duration hb, ccFailureTimeout := ms_duration ft\<rparr>,
           clReplication := rp\<lparr>rpQuorumTimeoutMs := or_default 1000 (rpQuorumTimeoutMs rp),
             rpMaxLagVersions := or_default 1000 (rpMaxLagVersions rp),
             rpMaxBufferedVersions := or_default 100 (rpMaxBufferedVersions rp)\<rparr>\<rparr>)"

definition ParseClusterConfig :: "(string \<Rightarrow> string + cluster_config) \<Rightarrow> string \<Rightarrow> config_error + cluster_config" where
  "ParseClusterConfig unmarshal data = (case unmarshal data of
      Inl e \<Rightarrow> Inl (ParseConfig e)
    | Inr cfg \<Rightarrow>
        (case cluster_validate cfg of
           Some e \<Rightarrow> Inl e
         | None \<Rightarrow> Inr (cluster_applyDefaults cfg)))"

definition LoadClusterConfig :: "(string \<Rightarrow> string + cluster_config) \<Rightarrow> (string, string) gomap \<Rightarrow> string \<Rightarrow> config_error + cluster_config" where
  "LoadClusterConfig unmarshal fs path = (case gm_get fs path of
      None \<Rightarrow> Inl (ReadConfig path)
    | Some data \<Rightarrow> ParseClusterConfig unmarshal data)"

definition NodeByID :: "cluster_config \<Rightarrow> string \<Rightarrow> config_error + node_spec" where
  "NodeByID c i = (case find (\<lambda>n. nspID n = i) (clNodes c) of None \<Rightarrow> Inl (NodeNotFound i) | Some n \<Rightarrow> Inr n)"

section \<open>The node configuration\<close>

record node_config =
  ncNode :: node_spec
  ncCoordinatorAddress :: string
  ncDataDir :: string
  ncHeartbeatInterval :: duration
  ncHeartbeatIntervalMs :: int
  ncQuorumTimeout :: duration
  ncQuorumTimeoutMs :: int
  ncSnapshotInterval :: int
  ncSnapshotRetention :: int
  ncReplicationLogSize :: int
  ncLeaderHeartbeatMs :: int
  ncLeaderHeartbeat :: duration
  ncElectionTimeoutMinMs :: int
  ncElectionTimeoutMaxMs :: int
  ncElectionTimeoutMin :: duration
  ncElectionTimeoutMax :: duration

definition node_applyDefaults :: "node_config \<Rightarrow> node_config" where
  "node_applyDefaults c =
     (let hb = or_default 500 (ncHeartbeatIntervalMs c);
          qt = or_default 500 (ncQuorumTimeoutMs c);
          lh = or_default 150 (ncLeaderHeartbeatMs c);
          emin = or_default 300 (ncElectionTimeoutMinMs c);
          emax = or_default 600 (ncElectionTimeoutMaxMs c)
      in c\<lparr>ncHeartbeatIntervalMs := hb,
           ncHeartbeatInterval := (if ncHeartbeatInterval c = 0 then ms_duration hb else ncHeartbeatInterval c),
           ncQuorumTimeoutMs := qt,
           ncQuorumTimeout := (if ncQuorumTimeout c = 0 then ms_duration qt else ncQuorumTimeout c),
           ncSnapshotInterval := or_default 100 (ncSnapshotInterval c),
           ncSnapshotRetention := or_default 2 (ncSnapshotRetention c),
           ncReplicationLogSize := or_default 1000 (ncReplicationLogSize c),
           ncLeaderHeartbeatMs := lh,
           ncLeaderHeartbeat := ms_duration lh,
           ncElectionTimeoutMinMs := emin,
           ncElectionTimeoutMaxMs := emax,
           ncElectionTimeoutMin := ms_duration emin,
           ncElectionTimeoutMax := ms_duration emax\<rparr>)"

definition EnsureDefaults :: "node_config \<Rightarrow> node_config" where
  "EnsureDefaults c = node_applyDefaults c"

definition node_validate :: "node_config \<Rightarrow> config_error option" where
  "node_validate c =
     (if nspID (ncNode c) = [] then Some NodeIDRequired
      else if nspAddress (ncNode c) = [] then Some (NodeAddressRequired [])
      else if ncCoordinatorAddress c = [] then Some CoordinatorRequired
      else if ncSnapshotInterval c < 0 then Some BadSnapshotInterval
      else if ncSnapshotRetention c < 0 then Some BadSnapshotRetention
      else None)"

definition ParseNodeConfig :: "(string \<Rightarrow> string + node_config) \<Rightarrow> string \<Rightarrow> config_error + node_config" where
  "ParseNodeConfig unmarshal data = (case unmarshal data of
      Inl e \<Rightarrow> Inl (ParseConfig e)
    | Inr cfg \<Rightarrow>
        (case node_validate cfg of
           Some e \<Rightarrow> Inl e
         | None \<Rightarrow> Inr (node_applyDefaults cfg)))"

definition LoadNodeConfig :: "(string \<Rightarrow> string + node_config) \<Rightarrow> (string, string) gomap \<Rightarrow> string \<Rightarrow> config_error + node_config" where
  "LoadNodeConfig unmarshal fs path = (case gm_get fs path of
      None \<Rightarrow> Inl (ReadConfig path)
    | Some data \<Rightarrow> ParseNodeConfig unmarshal data)"

section \<open>What a valid configuration guarantees\<close>

definition shard_spec_ok :: "string set \<Rightarrow> shard_spec \<Rightarrow> bool" where
  "shard_spec_ok ids s \<longleftrightarrow> sspID s \<noteq> [] \<and> sspReplicas s \<noteq> [] \<and> set (sspReplicas s) \<subseteq> ids \<and>
     (sspInitialLeader s = [] \<or> sspInitialLeader s \<in> ids)"

definition cluster_ok :: "cluster_config \<Rightarrow> bool" where
  "cluster_ok c \<longleftrightarrow> ccAddress (clCoordinator c) \<noteq> [] \<and> clNodes c \<noteq> [] \<and> clShards c \<noteq> [] \<and>
     (\<forall>n\<in>set (clNodes c). nspID n \<noteq> [] \<and> nspAddress n \<noteq> []) \<and>
     (\<forall>s\<in>set (clShards c). shard_spec_ok (nspID ` set (clNodes c)) s)"

lemma validate_nodes_ok:
  "validate_nodes ns ids = Inr ids' \<longleftrightarrow>
     (\<forall>n\<in>set ns. nspID n \<noteq> [] \<and> nspAddress n \<noteq> []) \<and> ids' = rev (map nspID ns) @ ids"
  by (induction ns arbitrary: ids) auto

lemma validate_nodes_err: "validate_nodes ns ids = Inl e \<Longrightarrow> \<not> (\<forall>n\<in>set ns. nspID n \<noteq> [] \<and> nspAddress n \<noteq> [])"
  by (induction ns arbitrary: ids) (auto split: if_splits)

lemma validate_replicas_ok: "validate_replicas ids s rs = None \<longleftrightarrow> set rs \<subseteq> set ids"
  by (induction rs) auto

lemma validate_shards_ok: "validate_shards ids ss = None \<longleftrightarrow> (\<forall>s\<in>set ss. shard_spec_ok (set ids) s)"
proof (induction ss)
  case (Cons s ss)
  show ?case
    using Cons validate_replicas_ok [of ids "sspID s" "sspReplicas s"]
    by (auto simp: shard_spec_ok_def split: option.splits)
qed simp

lemma cluster_validate_iff: "cluster_validate c = None \<longleftrightarrow> cluster_ok c"
proof (cases "validate_nodes (clNodes c) []")
  case (Inl e)
  then show ?thesis using validate_nodes_err [OF Inl] by (simp add: cluster_validate_def cluster_ok_def)
next
  case (Inr ids)
  then show ?thesis
    using validate_nodes_ok [of "clNodes c" "[]" ids]
    by (auto simp: cluster_validate_def cluster_ok_def validate_shards_ok)
qed

lemma ms_duration_exact: "\<bar>ms\<bar> \<le> 9223372036854 \<Longrightarrow> ms_duration ms = ms * 1000000"
  unfolding ms_duration_def sint_sbintrunc' by (subst signed_take_bit_int_eq_self_iff) (simp, arith)

text \<open>
  Property C30.  The coordinator starts exactly with the configurations it should: the parser accepts
  its input if and only if the input decodes to a configuration with an address, nodes and shards, in
  which every identifier is present and every replica and initial leader is a known node; it returns
  that configuration with the same nodes and shards.
\<close>

theorem ParseClusterConfig_accepts:
  "(\<exists>c'. ParseClusterConfig unmarshal data = Inr c' \<and> clNodes c' = ns \<and> clShards c' = ss) \<longleftrightarrow>
   (\<exists>c. unmarshal data = Inr c \<and> cluster_ok c \<and> clNodes c = ns \<and> clShards c = ss)"
proof (cases "unmarshal data")
  case (Inr c)
  then show ?thesis
    using cluster_validate_iff [of c]
    by (cases "cluster_validate c") (auto simp: ParseClusterConfig_def cluster_applyDefaults_def Let_def)
qed (simp add: ParseClusterConfig_def)

text \<open>
  Defaults: a node configuration that parses has a positive snapshot interval and
  retention, and positive durations wherever the file gives no negative number and none beyond the
  64-bit range of nanoseconds; filling in the defaults a second time, as \<^verbatim>\<open>NewServer\<close> does, changes nothing.
\<close>

theorem ParseNodeConfig_defaults:
  assumes "ParseNodeConfig unmarshal data = Inr c'" "unmarshal data = Inr c"
  shows "EnsureDefaults c' = c' \<and> 0 < ncSnapshotInterval c' \<and> 0 < ncSnapshotRetention c' \<and>
    (ncLeaderHeartbeatMs c \<in> {0..9223372036854} \<longrightarrow> 0 < ncLeaderHeartbeat c') \<and>
    (ncElectionTimeoutMinMs c \<in> {0..9223372036854} \<longrightarrow> 0 < ncElectionTimeoutMin c') \<and>
    (ncHeartbeatInterval c = 0 \<and> ncHeartbeatIntervalMs c \<in> {0..9223372036854} \<longrightarrow> 0 < ncHeartbeatInterval c')"
proof -
  have v: "node_validate c = None" "c' = node_applyDefaults c"
    using assms by (auto simp: ParseNodeConfig_def split: option.splits)
  have d: "0 < ms_duration (or_default d x)" if "0 < d" "d \<le> 1000" "x \<in> {0..9223372036854}" for d x
    using that ms_duration_exact [of "or_default d x"] by (auto simp: or_default_def split: if_splits)
  have "EnsureDefaults c' = c'"
    unfolding v(2) EnsureDefaults_def node_applyDefaults_def Let_def or_default_def
    by (rule node_config.equality) simp_all
  moreover have "0 < ncSnapshotInterval c'" "0 < ncSnapshotRetention c'"
    using v by (auto simp: node_validate_def node_applyDefaults_def Let_def or_default_def split: if_splits)
  ultimately show ?thesis
    by (simp add: v(2) node_applyDefaults_def Let_def d)
qed

definition demo_node_config :: node_config where
  "demo_node_config = \<lparr>ncNode = \<lparr>nspID = ''n1'', nspAddress = ''h:1''\<rparr>, ncCoordinatorAddress = ''c:1'', ncDataDir = [],
     ncHeartbeatInterval = 0, ncHeartbeatIntervalMs = 0, ncQuorumTimeout = 0, ncQuorumTimeoutMs = 0,
     ncSnapshotInterval = 0, ncSnapshotRetention = 0, ncReplicationLogSize = 0, ncLeaderHeartbeatMs = 0,
     ncLeaderHeartbeat = 0, ncElectionTimeoutMinMs = 0, ncElectionTimeoutMaxMs = 0, ncElectionTimeoutMin = 0,
     ncElectionTimeoutMax = 0\<rparr>"

theorem ParseNodeConfig_defaults_witness:
  "\<exists>c'. ParseNodeConfig (\<lambda>_. Inr demo_node_config) ''y'' = Inr c' \<and> EnsureDefaults c' = c' \<and> 0 < ncHeartbeatInterval c'"
proof -
  have "ParseNodeConfig (\<lambda>_. Inr demo_node_config) ''y'' = Inr (node_applyDefaults demo_node_config)"
    by (simp add: ParseNodeConfig_def node_validate_def demo_node_config_def)
  then show ?thesis
    using ParseNodeConfig_defaults [of "\<lambda>_. Inr demo_node_config" "''y''" "node_applyDefaults demo_node_config" demo_node_config]
    by (auto simp: demo_node_config_def)
qed

end
