(* ===== verification/Membership.thy ===== *)
theory Membership
  imports Config
begin

text \<open>
  The coordinator's failure detector, \<^verbatim>\<open>coordinator/membership.go\<close>, and the fake clock of
  \<^verbatim>\<open>internal/clock\<close>.  The clock is read once per operation, so the time is an argument.
\<close>

record node_status =
  nsID :: string
  nsAddress :: string
  nsIsAlive :: bool
  nsLastHeartbeatAt :: gotime
  nsShardVersions :: "(string, uint64) gomap"

record shard_status =
  ssShardID :: string
  ssRole :: string
  ssVersion :: uint64
  ssIsReady :: bool
  ssTerm :: uint64

record membership =
  mbNodes :: "(string, node_status) gomap"
  mbTimeout :: duration

datatype membership_error = UnknownNode string

definition new_node :: "node_spec \<Rightarrow> node_status" where
  "new_node n = \<lparr>nsID = nspID n, nsAddress = nspAddress n, nsIsAlive = False, nsLastHeartbeatAt = 0, nsShardVersions = []\<rparr>"

definition NewMembership :: "node_spec list \<Rightarrow> duration \<Rightarrow> membership" where
  "NewMembership nodes failureTimeout =
     \<lparr>mbNodes = fold (\<lambda>n m. gm_put (nspID n) (new_node n) m) nodes [], mbTimeout = failureTimeout\<rparr>"

definition RecordHeartbeat :: "gotime \<Rightarrow> string \<Rightarrow> shard_status list \<Rightarrow> membership \<Rightarrow> membership \<times> membership_error option" where
  "RecordHeartbeat now nodeID shards m = (case gm_get (mbNodes m) nodeID of
      None \<Rightarrow> (m, Some (UnknownNode nodeID))
    | Some ns \<Rightarrow>
        (m\<lparr>mbNodes := gm_put nodeID
             (ns\<lparr>nsLastHeartbeatAt := now,
                 nsShardVersions := fold (\<lambda>s vs. gm_put (ssShardID s) (ssVersion s) vs) shards (nsShardVersions ns)\<rparr>)
             (mbNodes m)\<rparr>, None))"

definition refresh_node :: "gotime \<Rightarrow> duration \<Rightarrow> node_status \<Rightarrow> node_status" where
  "refresh_node now timeout ns = ns\<lparr>nsIsAlive := (if is_zero_time (nsLastHeartbeatAt ns) then False
     else time_sub now (nsLastHeartbeatAt ns) < timeout)\<rparr>"

fun refresh_loop :: "gotime \<Rightarrow> duration \<Rightarrow> (string, node_status) gomap \<Rightarrow> (string, node_status) gomap \<times> node_status list" where
  "refresh_loop now timeout [] = ([], [])"
| "refresh_loop now timeout ((k, ns) # rest) =
     (let ns' = refresh_node now timeout ns; (rest', changed) = refresh_loop now timeout rest
      in ((k, ns') # rest', if nsIsAlive ns \<noteq> nsIsAlive ns' then ns' # changed else changed))"

definition RefreshLiveness :: "gotime \<Rightarrow> membership \<Rightarrow> membership \<times> node_status list" where
  "RefreshLiveness now m = (let (nodes, changed) = refresh_loop now (mbTimeout m) (mbNodes m) in (m\<lparr>mbNodes := nodes\<rparr>, changed))"

definition mb_All :: "membership \<Rightarrow> node_status list" where
  "mb_All m = map snd (mbNodes m)"

definition mb_Get :: "membership \<Rightarrow> string \<Rightarrow> membership_error + node_status" where
  "mb_Get m nodeID = (case gm_get (mbNodes m) nodeID of None \<Rightarrow> Inl (UnknownNode nodeID) | Some ns \<Rightarrow> Inr ns)"

definition AliveNodes :: "membership \<Rightarrow> string list" where
  "AliveNodes m = map fst (filter (\<lambda>(i, ns). nsIsAlive ns) (mbNodes m))"

definition AddNode :: "node_spec \<Rightarrow> membership \<Rightarrow> membership" where
  "AddNode spec m = (case gm_get (mbNodes m) (nspID spec) of
      Some ns \<Rightarrow> m\<lparr>mbNodes := gm_put (nspID spec) (ns\<lparr>nsAddress := nspAddress spec\<rparr>) (mbNodes m)\<rparr>
    | None \<Rightarrow> m\<lparr>mbNodes := gm_put (nspID spec) (new_node spec) (mbNodes m)\<rparr>)"

definition VersionForShard :: "membership \<Rightarrow> string \<Rightarrow> string \<Rightarrow> uint64" where
  "VersionForShard m nodeID shardID = (case gm_get (mbNodes m) nodeID of
      None \<Rightarrow> 0 | Some ns \<Rightarrow> gm_or0 (nsShardVersions ns) shardID)"

text \<open>The test that the callers of \<^verbatim>\<open>Get\<close> make: \<^verbatim>\<open>err == nil && ns.IsAlive\<close>.\<close>

definition alive :: "membership \<Rightarrow> string \<Rightarrow> bool" where
  "alive m nodeID = (case mb_Get m nodeID of Inl e \<Rightarrow> False | Inr ns \<Rightarrow> nsIsAlive ns)"

text \<open>\<^verbatim>\<open>clock.Fake\<close>: its only state is the current time; \<^verbatim>\<open>After\<close> delivers it at once and \<^verbatim>\<open>Sleep\<close> does nothing.\<close>

record fake_clock =
  fcCurrent :: gotime

definition NewFake :: "gotime \<Rightarrow> fake_clock" where
  "NewFake start = \<lparr>fcCurrent = start\<rparr>"

definition fake_Now :: "fake_clock \<Rightarrow> gotime" where
  "fake_Now c = fcCurrent c"

definition fake_Advance :: "duration \<Rightarrow> fake_clock \<Rightarrow> fake_clock" where
  "fake_Advance d c = c\<lparr>fcCurrent := fcCurrent c + d\<rparr>"

definition fake_Sleep :: "duration \<Rightarrow> fake_clock \<Rightarrow> fake_clock" where
  "fake_Sleep d c = c"

definition fake_After :: "duration \<Rightarrow> fake_clock \<Rightarrow> gotime list" where
  "fake_After d c = [fcCurrent c]"

section \<open>The registry\<close>

definition mb_wf :: "membership \<Rightarrow> bool" where
  "mb_wf m \<longleftrightarrow> gm_wf (mbNodes m) \<and> (\<forall>i ns. map_of (mbNodes m) i = Some ns \<longrightarrow> nsID ns = i)"

lemma mb_wf_put: "mb_wf m \<Longrightarrow> nsID ns = i \<Longrightarrow> mb_wf (m\<lparr>mbNodes := gm_put i ns (mbNodes m)\<rparr>)"
  by (auto simp: mb_wf_def gomap_simps)

lemma mb_wf_get: "mb_wf m \<Longrightarrow> map_of (mbNodes m) i = Some ns \<Longrightarrow> nsID ns = i"
  by (auto simp: mb_wf_def)

lemma mb_wf_New: "mb_wf (NewMembership nodes t)"
proof -
  let ?put = "\<lambda>n m. gm_put (nspID n) (new_node n) m"
  have "mb_wf \<lparr>mbNodes = m, mbTimeout = t\<rparr> \<Longrightarrow> mb_wf \<lparr>mbNodes = fold ?put nodes m, mbTimeout = t\<rparr>" for m
  proof (induction nodes arbitrary: m)
    case (Cons n nodes)
    have "mb_wf \<lparr>mbNodes = ?put n m, mbTimeout = t\<rparr>"
      using mb_wf_put [OF Cons.prems, of "new_node n" "nspID n"] by (simp add: new_node_def)
    then show ?case using Cons.IH by simp
  qed simp
  from this [of "[]"] show ?thesis by (simp add: NewMembership_def mb_wf_def)
qed

lemma mb_wf_heartbeat: "mb_wf m \<Longrightarrow> mb_wf (fst (RecordHeartbeat now n ss m))"
  by (auto simp: RecordHeartbeat_def split: option.splits intro!: mb_wf_put dest: mb_wf_get)

lemma mb_wf_AddNode: "mb_wf m \<Longrightarrow> mb_wf (AddNode spec m)"
  by (auto simp: AddNode_def new_node_def split: option.splits intro!: mb_wf_put dest: mb_wf_get)

lemma refresh_loop_nodes: "fst (refresh_loop now w ns) = map (\<lambda>(k, n). (k, refresh_node now w n)) ns"
  by (induction now w ns rule: refresh_loop.induct) (auto simp: Let_def split: prod.splits)

lemma refresh_loop_changed:
  "snd (refresh_loop now w ns) = map (refresh_node now w \<circ> snd) (filter (\<lambda>(k, n). nsIsAlive n \<noteq> nsIsAlive (refresh_node now w n)) ns)"
  by (induction now w ns rule: refresh_loop.induct) (auto simp: Let_def split: prod.splits)

lemma map_of_map_snd: "map_of (map (\<lambda>(k, n). (k, f n)) ns) i = map_option f (map_of ns i)"
  by (induction ns) auto

lemma Refresh_get: "map_of (mbNodes (fst (RefreshLiveness now m))) i = map_option (refresh_node now (mbTimeout m)) (map_of (mbNodes m) i)"
  using refresh_loop_nodes [of now "mbTimeout m" "mbNodes m"]
  by (auto simp: RefreshLiveness_def map_of_map_snd split: prod.splits)

lemma mb_wf_Refresh: "mb_wf m \<Longrightarrow> mb_wf (fst (RefreshLiveness now m))"
proof -
  assume "mb_wf m"
  moreover have "map fst (mbNodes (fst (RefreshLiveness now m))) = map fst (mbNodes m)"
    using refresh_loop_nodes [of now "mbTimeout m" "mbNodes m"]
    by (auto simp: RefreshLiveness_def split: prod.splits)
  ultimately show ?thesis
    by (auto simp: mb_wf_def gm_wf_def Refresh_get refresh_node_def)
qed

section \<open>Failure detection\<close>

text \<open>
  A refresh decides liveness correctly: afterwards a node counts as alive if and only if
  it is known, has sent a heartbeat, and the last one is younger than the failure timeout; the refresh
  reports exactly the nodes whose state it changed, and changes nothing else about a node.
\<close>

theorem RefreshLiveness_correct:
  assumes "mb_wf m" "RefreshLiveness now m = (m', changed)"
  shows "(alive m' i \<longleftrightarrow> (\<exists>ns. map_of (mbNodes m) i = Some ns \<and> nsLastHeartbeatAt ns \<noteq> 0 \<and>
           time_sub now (nsLastHeartbeatAt ns) < mbTimeout m)) \<and>
    (i \<in> nsID ` set changed \<longleftrightarrow> alive m i \<noteq> alive m' i) \<and>
    VersionForShard m' i s = VersionForShard m i s"
proof -
  have m': "map_of (mbNodes m') j = map_option (refresh_node now (mbTimeout m)) (map_of (mbNodes m) j)" for j
    using Refresh_get [of now m j] assms(2) by simp
  have ch: "changed = map (refresh_node now (mbTimeout m) \<circ> snd)
      (filter (\<lambda>(k, n). nsIsAlive n \<noteq> nsIsAlive (refresh_node now (mbTimeout m) n)) (mbNodes m))"
    using assms(2) refresh_loop_changed [of now "mbTimeout m" "mbNodes m"] by (auto simp: RefreshLiveness_def split: prod.splits)
  have mem: "(k, n) \<in> set (mbNodes m) \<longleftrightarrow> map_of (mbNodes m) k = Some n" for k n
    using assms(1) by (simp add: mb_wf_def gm_wf_def)
  have "nsID ` set changed = {i. \<exists>n. map_of (mbNodes m) i = Some n \<and> nsIsAlive n \<noteq> nsIsAlive (refresh_node now (mbTimeout m) n)}"
    using mb_wf_get [OF assms(1)] unfolding ch
    by (fastforce simp: mem refresh_node_def image_iff)
  then show ?thesis
    by (auto simp: alive_def mb_Get_def m' VersionForShard_def refresh_node_def split: option.splits)
qed

definition demo_membership :: membership where
  "demo_membership = fst (RecordHeartbeat 100 ''a'' [\<lparr>ssShardID = ''s'', ssRole = ''LEADER'', ssVersion = 7, ssIsReady = True, ssTerm = 1\<rparr>]
     (NewMembership [\<lparr>nspID = ''a'', nspAddress = ''h1''\<rparr>, \<lparr>nspID = ''b'', nspAddress = ''h2''\<rparr>] 50))"

lemma demo_membership_eq:
  "demo_membership = \<lparr>mbNodes = [(''a'', \<lparr>nsID = ''a'', nsAddress = ''h1'', nsIsAlive = False, nsLastHeartbeatAt = 100, nsShardVersions = [(''s'', 7)]\<rparr>),
     (''b'', \<lparr>nsID = ''b'', nsAddress = ''h2'', nsIsAlive = False, nsLastHeartbeatAt = 0, nsShardVersions = []\<rparr>)], mbTimeout = 50\<rparr>"
  by (simp add: demo_membership_def RecordHeartbeat_def NewMembership_def new_node_def)

theorem RefreshLiveness_correct_witness:
  "let (m', changed) = RefreshLiveness 140 demo_membership in alive m' ''a'' \<and> ''a'' \<in> nsID ` set changed \<and> \<not> alive m' ''b''"
proof -
  have wf: "mb_wf demo_membership" unfolding demo_membership_def by (intro mb_wf_heartbeat mb_wf_New)
  obtain m' changed where r: "RefreshLiveness 140 demo_membership = (m', changed)" by fastforce
  show ?thesis
    using RefreshLiveness_correct [OF wf r, of "''a''" "[]"] RefreshLiveness_correct [OF wf r, of "''b''" "[]"] r
    by (auto simp: demo_membership_eq alive_def mb_Get_def time_sub_def)
qed

end
