(* ===== verification/LeaderManager.thy ===== *)
theory LeaderManager
  imports ShardMap Membership
begin

text \<open>
  Leader assignment by the coordinator, \<^verbatim>\<open>coordinator/leader.go\<close>.  The \<^verbatim>\<open>LeaderManager\<close> shares the shard map and
  the membership with the server; its own state is the map of terms.  \<^verbatim>\<open>NotifyLeader\<close> holds the manager's
  mutex throughout and is one step.  \<^verbatim>\<open>CheckAndReassign\<close> releases it between choosing a candidate
  (\<open>pickCandidate\<close>) and recording it (\<open>reassign_commit\<close>), so the two are separate definitions; \<open>CheckAndReassign\<close>
  is the run in which nothing comes in between.
\<close>

type_synonym terms = "(string, uint64) gomap"

fun init_shards :: "shard_spec list \<Rightarrow> shard_map \<times> terms \<Rightarrow> (shard_map \<times> terms) \<times> shardmap_error option" where
  "init_shards [] st = (st, None)"
| "init_shards (spec # specs) (sm, ts) =
     (case AddShard \<lparr>siID = sspID spec, siReplicas = sspReplicas spec, siLeader = sspInitialLeader spec,
                      siBootstrapSourceShardID = [], siIncomingReplicas = []\<rparr> sm of
        (sm', Some e) \<Rightarrow> ((sm', ts), Some e)
      | (sm', None) \<Rightarrow> init_shards specs (sm', gm_put (sspID spec) 1 ts))"

definition InitFromConfig :: "cluster_config \<Rightarrow> shard_map \<times> terms \<Rightarrow> (shard_map \<times> terms) \<times> shardmap_error option" where
  "InitFromConfig cfg st = init_shards (clShards cfg) st"

definition InitTerm :: "string \<Rightarrow> terms \<Rightarrow> terms" where
  "InitTerm shardID ts = (case gm_get ts shardID of None \<Rightarrow> gm_put shardID 1 ts | Some t \<Rightarrow> ts)"

definition TermForShard :: "terms \<Rightarrow> string \<Rightarrow> uint64" where
  "TermForShard ts shardID = gm_or0 ts shardID"

fun pick_loop :: "membership \<Rightarrow> shard_info \<Rightarrow> string list \<Rightarrow> string \<Rightarrow> uint64 \<Rightarrow> string" where
  "pick_loop mb shard [] bestID bestVersion = bestID"
| "pick_loop mb shard (r # rs) bestID bestVersion =
     (if r = siLeader shard then pick_loop mb shard rs bestID bestVersion
      else if \<not> alive mb r then pick_loop mb shard rs bestID bestVersion
      else let v = VersionForShard mb r (siID shard) in
           if bestID = [] \<or> bestVersion < v then pick_loop mb shard rs r v
           else pick_loop mb shard rs bestID bestVersion)"

definition pickCandidate :: "membership \<Rightarrow> terms \<Rightarrow> shard_info \<Rightarrow> string \<times> uint64" where
  "pickCandidate mb ts shard =
     (let currentTerm = gm_or0 ts (siID shard); bestID = pick_loop mb shard (siReplicas shard) [] 0
      in if bestID = [] then ([], 0) else (bestID, currentTerm + 1))"

definition reassign_commit :: "string \<Rightarrow> string \<Rightarrow> uint64 \<Rightarrow> shard_map \<times> terms \<Rightarrow> (shard_map \<times> terms) \<times> bool" where
  "reassign_commit shardID candidate t st = (case SetLeader shardID candidate (fst st) of
      (sm', None) \<Rightarrow> ((sm', gm_put shardID t (snd st)), True)
    | (sm', Some e) \<Rightarrow> ((sm', snd st), False))"

definition reassign_shard :: "membership \<Rightarrow> shard_info \<Rightarrow> (shard_map \<times> terms) \<times> string list \<Rightarrow> (shard_map \<times> terms) \<times> string list" where
  "reassign_shard mb shard x =
     (let st = fst x; changed = snd x in
      if siLeader shard = [] then
        (case pickCandidate mb (snd st) shard of (candidate, t) \<Rightarrow>
           if candidate = [] then (st, changed)
           else (case reassign_commit (siID shard) candidate t st of
                   (st', ok) \<Rightarrow> (st', if ok then changed @ [siID shard] else changed)))
      else if \<not> alive mb (siLeader shard) then
        (case pickCandidate mb (snd st) shard of (candidate, t) \<Rightarrow>
           if candidate = [] then (st, changed)
           else (case reassign_commit (siID shard) candidate t st of
                   (st', ok) \<Rightarrow> (st', if ok then changed @ [siID shard] else changed)))
      else (st, changed))"

definition CheckAndReassign :: "membership \<Rightarrow> shard_map \<times> terms \<Rightarrow> (shard_map \<times> terms) \<times> string list" where
  "CheckAndReassign mb st = fold (reassign_shard mb) (sh_All (fst st)) (st, [])"

definition NotifyLeader :: "string \<Rightarrow> string \<Rightarrow> uint64 \<Rightarrow> shard_map \<times> terms \<Rightarrow> (shard_map \<times> terms) \<times> bool" where
  "NotifyLeader shardID leaderID t st = (case gm_get (snd st) shardID of
      None \<Rightarrow> (st, False)
    | Some currentTerm \<Rightarrow>
        if t \<le> currentTerm then (st, False)
        else (case SetLeader shardID leaderID (fst st) of
                (sm', Some e) \<Rightarrow> ((sm', snd st), False)
              | (sm', None) \<Rightarrow> ((sm', gm_put shardID t (snd st)), True)))"

section \<open>Choosing a candidate\<close>

definition eligible :: "membership \<Rightarrow> shard_info \<Rightarrow> string \<Rightarrow> bool" where
  "eligible mb s r \<longleftrightarrow> r \<in> set (siReplicas s) \<and> r \<noteq> siLeader s \<and> alive mb r"

definition picked :: "membership \<Rightarrow> shard_info \<Rightarrow> string list \<Rightarrow> string \<Rightarrow> uint64 \<Rightarrow> string \<Rightarrow> bool" where
  "picked mb s rs best ver p \<longleftrightarrow>
     (p = [] \<longleftrightarrow> best = [] \<and> (\<forall>r\<in>set rs. r = siLeader s \<or> \<not> alive mb r)) \<and>
     (p \<noteq> [] \<longrightarrow> (p = best \<or> p \<in> set rs \<and> p \<noteq> siLeader s \<and> alive mb p) \<and>
       (best \<noteq> [] \<longrightarrow> ver \<le> VersionForShard mb p (siID s)) \<and>
       (\<forall>r\<in>set rs. r \<noteq> siLeader s \<longrightarrow> alive mb r \<longrightarrow> VersionForShard mb r (siID s) \<le> VersionForShard mb p (siID s)))"

lemma pick_loop_picked:
  assumes "\<not> alive mb []" "best \<noteq> [] \<Longrightarrow> ver = VersionForShard mb best (siID s)"
  shows "picked mb s rs best ver (pick_loop mb s rs best ver)"
  using assms
proof (induction rs arbitrary: best ver)
  case Nil
  then show ?case by (auto simp: picked_def)
next
  case (Cons r rs)
  let ?v = "VersionForShard mb r (siID s)"
  show ?case
  proof (cases "r \<noteq> siLeader s \<and> alive mb r \<and> (best = [] \<or> ver < ?v)")
    case True
    then have eq: "pick_loop mb s (r # rs) best ver = pick_loop mb s rs r ?v" by (auto simp: Let_def)
    have r: "r \<noteq> []" "picked mb s rs r ?v (pick_loop mb s rs r ?v)" using Cons True by auto
    then show ?thesis using True unfolding eq picked_def by (auto intro: order.trans less_imp_le)
  next
    case False
    then have eq: "pick_loop mb s (r # rs) best ver = pick_loop mb s rs best ver" by (auto simp: Let_def)
    have "picked mb s rs best ver (pick_loop mb s rs best ver)" using Cons by simp
    with False show ?thesis unfolding eq picked_def by (auto simp: not_less intro: order.trans)
  qed
qed

text \<open>
  The replacement leader is the best one: it is an alive replica other than the current
  leader, no other such replica has reported a higher version, and the term is the next one; no
  candidate is returned only when there is none.
\<close>

theorem pickCandidate_best:
  assumes "\<not> alive mb []" "pickCandidate mb ts s = (c, t)"
  shows "(c = [] \<longleftrightarrow> (\<forall>r. \<not> eligible mb s r)) \<and>
    (c \<noteq> [] \<longrightarrow> eligible mb s c \<and> t = TermForShard ts (siID s) + 1 \<and>
       (\<forall>r. eligible mb s r \<longrightarrow> VersionForShard mb r (siID s) \<le> VersionForShard mb c (siID s)))"
proof -
  have "c = pick_loop mb s (siReplicas s) [] 0" "c \<noteq> [] \<Longrightarrow> t = TermForShard ts (siID s) + 1"
    using assms(2) by (auto simp: pickCandidate_def TermForShard_def Let_def split: if_splits)
  with pick_loop_picked [OF assms(1), of "[]" 0 s "siReplicas s"] show ?thesis by (auto simp: picked_def eligible_def)
qed

definition demo_alive :: membership where
  "demo_alive = \<lparr>mbNodes = map (\<lambda>(i, v). (i, \<lparr>nsID = i, nsAddress = ''h'', nsIsAlive = v \<noteq> 0, nsLastHeartbeatAt = 1,
     nsShardVersions = [(''s'', v)]\<rparr>)) [(''a'', 0), (''b'', 3), (''c'', 5)], mbTimeout = 50\<rparr>"

definition demo_info :: shard_info where
  "demo_info = \<lparr>siID = ''s'', siReplicas = [''a'', ''b'', ''c''], siLeader = ''a'', siBootstrapSourceShardID = [], siIncomingReplicas = []\<rparr>"

lemma demo_alive_named: "\<not> alive demo_alive []"
  by (simp add: demo_alive_def alive_def mb_Get_def)

theorem pickCandidate_best_witness:
  "pickCandidate demo_alive [(''s'', 4)] demo_info = (''c'', 5) \<and> eligible demo_alive demo_info ''c''"
proof -
  have "pickCandidate demo_alive [(''s'', 4)] demo_info = (''c'', 5)"
    by (simp add: pickCandidate_def demo_info_def demo_alive_def alive_def mb_Get_def VersionForShard_def gm_or0_def Let_def)
  then show ?thesis using pickCandidate_best [of demo_alive "[(''s'', 4)]" demo_info "''c''" 5] demo_alive_named by simp
qed

section \<open>Reassignment\<close>

lemma gm_or0_put [simp]: "gm_or0 (gm_put k v m) j = (if j = k then v else gm_or0 m j)"
  by (simp add: gm_or0_def gomap_simps)

definition needs_leader :: "membership \<Rightarrow> shard_info \<Rightarrow> bool" where
  "needs_leader mb s \<longleftrightarrow> \<not> (siLeader s \<noteq> [] \<and> alive mb (siLeader s)) \<and> fst (pickCandidate mb [] s) \<noteq> []"

definition reassigned :: "membership \<Rightarrow> shard_info \<Rightarrow> shard_info" where
  "reassigned mb s = (if needs_leader mb s then s\<lparr>siLeader := fst (pickCandidate mb [] s)\<rparr> else s)"

lemma pickCandidate_terms:
  "pickCandidate mb ts s = (fst (pickCandidate mb [] s), if fst (pickCandidate mb [] s) = [] then 0 else gm_or0 ts (siID s) + 1)"
  by (simp add: pickCandidate_def Let_def)

lemma pick_replica: "\<not> alive mb [] \<Longrightarrow> fst (pickCandidate mb [] s) \<noteq> [] \<Longrightarrow> fst (pickCandidate mb [] s) \<in> set (siReplicas s)"
  using pick_loop_picked [of mb "[]" 0 s "siReplicas s"] by (auto simp: pickCandidate_def Let_def picked_def split: if_splits)

lemma reassign_shard_eq:
  assumes "\<not> alive mb []" "map_of (shShards sm) (siID s) = Some s"
  shows "reassign_shard mb s ((sm, ts), ch) = (if needs_leader mb s
     then ((\<lparr>shVersion = shVersion sm + 1, shShards = gm_put (siID s) (reassigned mb s) (shShards sm)\<rparr>,
            gm_put (siID s) (gm_or0 ts (siID s) + 1) ts), ch @ [siID s])
     else ((sm, ts), ch))"
  using assms pick_replica [OF assms(1), of s] pickCandidate_terms [of mb ts s]
  by (auto simp: reassign_shard_def reassign_commit_def SetLeader_def reassigned_def needs_leader_def Let_def)

lemma reassign_fold:
  assumes na: "\<not> alive mb []" and "distinct (map siID xs)" "\<And>s. s \<in> set xs \<Longrightarrow> map_of (shShards sm) (siID s) = Some s"
    and "fold (reassign_shard mb) xs ((sm, ts), ch) = ((sm', ts'), ch')"
  shows "(map_of (shShards sm') i = (if i \<in> siID ` set xs then map_option (reassigned mb) (map_of (shShards sm) i) else map_of (shShards sm) i)) \<and>
    (gm_or0 ts' i = gm_or0 ts i + (if \<exists>s\<in>set xs. siID s = i \<and> needs_leader mb s then 1 else 0)) \<and>
    ch' = ch @ map siID (filter (needs_leader mb) xs)"
  using assms(2-)
proof (induction xs arbitrary: sm ts ch)
  case (Cons s xs)
  have s: "map_of (shShards sm) (siID s) = Some s" using Cons.prems(2) by auto
  obtain sm1 ts1 ch1 where r: "reassign_shard mb s ((sm, ts), ch) = ((sm1, ts1), ch1)"
    by (cases "reassign_shard mb s ((sm, ts), ch)") auto
  have e: "map_of (shShards sm1) j = (if j = siID s then Some (reassigned mb s) else map_of (shShards sm) j)"
    "gm_or0 ts1 j = gm_or0 ts j + (if j = siID s \<and> needs_leader mb s then 1 else 0)"
    "ch1 = ch @ (if needs_leader mb s then [siID s] else [])" for j
    using r s reassign_shard_eq [OF na s, of ts ch] by (auto simp: gomap_simps reassigned_def split: if_splits)
  have new: "siID s \<notin> siID ` set xs" using Cons.prems(1) by auto
  have "map_of (shShards sm1) (siID s') = Some s'" if "s' \<in> set xs" for s'
  proof -
    have "siID s' \<noteq> siID s" using new that by (metis imageI)
    then show ?thesis using Cons.prems(2) [of s'] that e(1) [of "siID s'"] by simp
  qed
  moreover have "fold (reassign_shard mb) xs ((sm1, ts1), ch1) = ((sm', ts'), ch')" "distinct (map siID xs)"
    using Cons.prems(1,3) r by simp_all
  ultimately have IH: "map_of (shShards sm') i = (if i \<in> siID ` set xs then map_option (reassigned mb) (map_of (shShards sm1) i) else map_of (shShards sm1) i)"
    "gm_or0 ts' i = gm_or0 ts1 i + (if \<exists>s\<in>set xs. siID s = i \<and> needs_leader mb s then 1 else 0)"
    "ch' = ch1 @ map siID (filter (needs_leader mb) xs)"
    using Cons.IH [of sm1 ts1 ch1] by blast+
  show ?case
  proof (cases "i = siID s")
    case True
    with new have "\<not> (\<exists>s'\<in>set xs. siID s' = i \<and> needs_leader mb s')" by (metis imageI)
    with True new IH e s show ?thesis by simp
  next
    case False
    with IH e show ?thesis by simp
  qed
qed simp

lemma sh_wf_mem: "sh_wf sm \<Longrightarrow> s \<in> set (sh_All sm) \<longleftrightarrow> map_of (shShards sm) (siID s) = Some s"
proof -
  assume wf: "sh_wf sm"
  then have "s \<in> set (sh_All sm) \<longleftrightarrow> (\<exists>k. map_of (shShards sm) k = Some s)"
    by (auto simp: sh_wf_def gm_wf_def sh_All_def image_iff Bex_def)
  then show ?thesis using sh_wf_get [OF wf] by blast
qed

lemma sh_wf_ids: "sh_wf sm \<Longrightarrow> map siID (sh_All sm) = map fst (shShards sm)"
  unfolding sh_All_def list.map_comp by (rule map_cong [OF refl]) (simp add: sh_wf_def gm_wf_def split_paired_all)

lemma CheckAndReassign_get:
  assumes "sh_wf sm" "\<not> alive mb []" "CheckAndReassign mb (sm, ts) = ((sm', ts'), ch)"
  shows "map_of (shShards sm') i = map_option (reassigned mb) (map_of (shShards sm) i)"
    and "gm_or0 ts' i = gm_or0 ts i + (if \<exists>s. map_of (shShards sm) i = Some s \<and> needs_leader mb s then 1 else 0)"
    and "i \<in> set ch \<longleftrightarrow> (\<exists>s. map_of (shShards sm) i = Some s \<and> needs_leader mb s)"
proof -
  have d: "distinct (map siID (sh_All sm))" using assms(1) sh_wf_ids [of sm] by (simp add: sh_wf_def gm_wf_def)
  have m: "map_of (shShards sm) (siID s) = Some s" if "s \<in> set (sh_All sm)" for s
    using that assms(1) sh_wf_mem [of sm s] by simp
  have i: "i \<in> siID ` set (sh_All sm) \<longleftrightarrow> map_of (shShards sm) i \<noteq> None"
    using sh_wf_ids [OF assms(1)] by (metis list.set_map map_of_eq_None_iff)
  have ex: "(\<exists>s\<in>set (sh_All sm). siID s = i \<and> needs_leader mb s) \<longleftrightarrow> (\<exists>s. map_of (shShards sm) i = Some s \<and> needs_leader mb s)"
    using sh_wf_mem [OF assms(1)] sh_wf_get [OF assms(1)] by metis
  note f = reassign_fold [OF assms(2) d m assms(3) [unfolded CheckAndReassign_def fst_conv], of i, simplified]
  show "map_of (shShards sm') i = map_option (reassigned mb) (map_of (shShards sm) i)" using f i by auto
  show "gm_or0 ts' i = gm_or0 ts i + (if \<exists>s. map_of (shShards sm) i = Some s \<and> needs_leader mb s then 1 else 0)"
    using f ex by simp
  show "i \<in> set ch \<longleftrightarrow> (\<exists>s. map_of (shShards sm) i = Some s \<and> needs_leader mb s)" using f ex by auto
qed

lemma needs_leader_iff:
  "\<not> alive mb [] \<Longrightarrow> needs_leader mb s \<longleftrightarrow> \<not> (siLeader s \<noteq> [] \<and> alive mb (siLeader s)) \<and> (\<exists>r. eligible mb s r)"
  using pick_loop_picked [of mb "[]" 0 s "siReplicas s"]
  by (auto simp: needs_leader_def pickCandidate_def Let_def picked_def eligible_def)

lemma reassigned_best:
  "\<not> alive mb [] \<Longrightarrow> needs_leader mb s \<Longrightarrow> eligible mb s (siLeader (reassigned mb s)) \<and>
     (\<forall>r. eligible mb s r \<longrightarrow> VersionForShard mb r (siID s) \<le> VersionForShard mb (siLeader (reassigned mb s)) (siID s))"
  using pick_loop_picked [of mb "[]" 0 s "siReplicas s"]
  by (auto simp: reassigned_def needs_leader_def pickCandidate_def Let_def picked_def eligible_def split: if_splits)

text \<open>
  Property C19.  One pass of reassignment repairs the cluster: a shard whose leader is alive keeps its
  leader and its term; every other shard that has an alive replica gets the best one as its leader and
  the next term, and is reported; a shard without an alive replica is left alone.  Replica sets never change.
\<close>

theorem CheckAndReassign_correct:
  assumes "sh_wf sm" "\<not> alive mb []" "CheckAndReassign mb (sm, ts) = ((sm', ts'), ch)" "map_of (shShards sm) i = Some s"
  shows "\<exists>s'. map_of (shShards sm') i = Some s' \<and> siReplicas s' = siReplicas s \<and>
    (if (siLeader s \<noteq> [] \<and> alive mb (siLeader s)) \<or> (\<forall>r. \<not> eligible mb s r)
     then s' = s \<and> TermForShard ts' i = TermForShard ts i \<and> i \<notin> set ch
     else eligible mb s (siLeader s') \<and> TermForShard ts' i = TermForShard ts i + 1 \<and> i \<in> set ch \<and>
       (\<forall>r. eligible mb s r \<longrightarrow> VersionForShard mb r i \<le> VersionForShard mb (siLeader s') i))"
proof -
  have s: "siID s = i" using assms(1,4) sh_wf_get by blast
  note g = CheckAndReassign_get [OF assms(1-3), of i]
  show ?thesis
  proof (cases "needs_leader mb s")
    case True
    then show ?thesis using g assms(4) s reassigned_best [OF assms(2) True] needs_leader_iff [OF assms(2), of s]
      by (auto simp: TermForShard_def reassigned_def)
  next
    case False
    then show ?thesis using g assms(4) needs_leader_iff [OF assms(2), of s] by (auto simp: TermForShard_def reassigned_def)
  qed
qed

definition demo_shards :: shard_map where
  "demo_shards = \<lparr>shVersion = 1, shShards = [(''s'', demo_info)]\<rparr>"

lemma demo_shards_wf: "sh_wf demo_shards"
  by (auto simp: demo_shards_def demo_info_def sh_wf_def gm_wf_def leader_ok_def split: if_splits)

theorem CheckAndReassign_correct_witness:
  "\<exists>sm' ts' ch s'. CheckAndReassign demo_alive (demo_shards, [(''s'', 4)]) = ((sm', ts'), ch) \<and> map_of (shShards sm') ''s'' = Some s' \<and>
     eligible demo_alive demo_info (siLeader s') \<and> TermForShard ts' ''s'' = 5 \<and> ch = [''s'']"
proof -
  obtain sm' ts' ch where r: "CheckAndReassign demo_alive (demo_shards, [(''s'', 4)]) = ((sm', ts'), ch)"
    by (cases "CheckAndReassign demo_alive (demo_shards, [(''s'', 4)])") auto
  have e: "eligible demo_alive demo_info ''c''" "\<not> alive demo_alive ''a''"
    by (simp_all add: eligible_def demo_info_def demo_alive_def alive_def mb_Get_def)
  have "ch = [''s'']"
    using r by (simp add: CheckAndReassign_def demo_shards_def sh_All_def reassign_shard_def demo_info_def demo_alive_def alive_def mb_Get_def
        pickCandidate_def VersionForShard_def gm_or0_def Let_def reassign_commit_def SetLeader_def)
  moreover have "map_of (shShards demo_shards) ''s'' = Some demo_info" "TermForShard [(''s'', 4)] ''s'' = 4"
    by (simp_all add: demo_shards_def TermForShard_def gm_or0_def)
  ultimately show ?thesis
    using CheckAndReassign_correct [OF demo_shards_wf demo_alive_named r, of "''s''" demo_info] r by (auto split: if_splits)
qed

section \<open>Terms and leaders\<close>

inductive lm_step :: "shard_map \<times> terms \<Rightarrow> shard_map \<times> terms \<Rightarrow> bool" where
  lm_notify: "NotifyLeader i l t st = (st', ok) \<Longrightarrow> lm_step st st'"
| lm_reassign: "CheckAndReassign mb st = (st', ch) \<Longrightarrow> \<not> alive mb [] \<Longrightarrow> \<forall>i. TermForShard (snd st) i \<noteq> - 1 \<Longrightarrow> lm_step st st'"
| lm_init: "lm_step st (fst st, InitTerm i (snd st))"

inductive lm_steps :: "shard_map \<times> terms \<Rightarrow> shard_map \<times> terms \<Rightarrow> bool" where
  lm_nil: "lm_steps st st"
| lm_snoc: "lm_steps st st' \<Longrightarrow> lm_step st' st'' \<Longrightarrow> lm_steps st st''"

definition advances :: "shard_map \<times> terms \<Rightarrow> shard_map \<times> terms \<Rightarrow> string \<Rightarrow> bool" where
  "advances st st' i \<longleftrightarrow> TermForShard (snd st) i \<le> TermForShard (snd st') i \<and>
     map_option siReplicas (map_of (shShards (fst st')) i) = map_option siReplicas (map_of (shShards (fst st)) i) \<and>
     (TermForShard (snd st') i = TermForShard (snd st) i \<longrightarrow>
        map_option siLeader (map_of (shShards (fst st')) i) = map_option siLeader (map_of (shShards (fst st)) i))"

lemma advances_refl [simp]: "advances st st i"
  by (simp add: advances_def)

lemma advances_trans:
  assumes "advances a b i" "advances b c i"
  shows "advances a c i"
proof -
  have le: "TermForShard (snd a) i \<le> TermForShard (snd b) i" "TermForShard (snd b) i \<le> TermForShard (snd c) i"
    using assms by (simp_all add: advances_def)
  then have "TermForShard (snd b) i = TermForShard (snd a) i" if "TermForShard (snd c) i = TermForShard (snd a) i"
    using that by (simp add: order.antisym)
  with assms order.trans [OF le] show ?thesis by (simp add: advances_def)
qed

lemma SetLeader_wf: "SetLeader i l sm = (sm', e) \<Longrightarrow> sh_wf sm \<Longrightarrow> sh_wf sm'"
  using sh_wf_step [of sm "OpSetLeader i l"] by simp

lemma NotifyLeader_advances:
  assumes "sh_wf (fst st)" "NotifyLeader j l t st = (st', ok)"
  shows "sh_wf (fst st') \<and> advances st st' i"
proof (cases "\<exists>cur e sm'. map_of (snd st) j = Some cur \<and> cur < t \<and> SetLeader j l (fst st) = (sm', None)")
  case True
  then obtain cur sm' where c: "map_of (snd st) j = Some cur" "cur < t" "SetLeader j l (fst st) = (sm', None)" by blast
  then have "st' = (sm', gm_put j t (snd st))" using assms(2) by (auto simp: NotifyLeader_def split: if_splits)
  moreover have "sh_wf sm'" using assms(1) SetLeader_wf [OF c(3)] by simp
  moreover have "TermForShard (snd st) j = cur" using c(1) by (simp add: TermForShard_def gm_or0_def)
  ultimately show ?thesis
    using c by (auto simp: advances_def TermForShard_def SetLeader_def gomap_simps split: option.splits if_splits)
next
  case False
  moreover have "sm' = fst st" if "SetLeader j l (fst st) = (sm', Some e)" for sm' e
    using that by (auto simp: SetLeader_def split: option.splits if_splits)
  ultimately have "st' = st"
    using assms(2) by (cases st) (auto simp: NotifyLeader_def not_le split: option.splits if_splits prod.splits)
  with assms(1) show ?thesis by simp
qed

lemma CheckAndReassign_wf:
  assumes "sh_wf (fst st)" "CheckAndReassign mb st = (st', ch)"
  shows "sh_wf (fst st')"
proof -
  have "sh_wf (fst (fst (fold (reassign_shard mb) xs (st, ch0))))" for xs ch0 using assms(1)
  proof (induction xs arbitrary: st ch0)
    case (Cons s xs)
    have "sh_wf (fst (fst (reassign_shard mb s (st, ch0))))"
      using Cons.prems SetLeader_wf [of "siID s" _ "fst st"]
      by (auto simp: reassign_shard_def reassign_commit_def Let_def split: prod.splits option.splits)
    then show ?case using Cons.IH [of "fst (reassign_shard mb s (st, ch0))" "snd (reassign_shard mb s (st, ch0))"] by simp
  qed simp
  from this [of "sh_All (fst st)" "[]"] assms(2) show ?thesis by (simp add: CheckAndReassign_def)
qed

lemma CheckAndReassign_advances:
  assumes "sh_wf (fst st)" "CheckAndReassign mb st = (st', ch)" "TermForShard (snd st) i \<noteq> - 1" "\<not> alive mb []"
  shows "advances st st' i"
proof -
  obtain sm ts sm' ts' where st: "st = (sm, ts)" "st' = (sm', ts')" by (cases st, cases st')
  have g: "map_of (shShards sm') i = map_option (reassigned mb) (map_of (shShards sm) i)"
    "gm_or0 ts' i = gm_or0 ts i + (if \<exists>s. map_of (shShards sm) i = Some s \<and> needs_leader mb s then 1 else 0)"
    using CheckAndReassign_get [of sm mb ts sm' ts' ch i] assms(1,2,4) unfolding st by simp_all
  have "gm_or0 ts i < gm_or0 ts i + 1"
    using assms(3) by (simp add: st TermForShard_def uint64_less_succ uint64_succ_neq0_iff)
  with g show ?thesis
    by (cases "map_of (shShards sm) i") (auto simp: advances_def st TermForShard_def reassigned_def less_imp_le)
qed

lemma lm_step_advances: "lm_step st st' \<Longrightarrow> sh_wf (fst st) \<Longrightarrow> sh_wf (fst st') \<and> advances st st' i"
proof (induction rule: lm_step.induct)
  case (lm_init st j)
  then show ?case
    by (auto simp: advances_def InitTerm_def TermForShard_def gm_or0_def gomap_simps split: option.splits)
qed (auto intro: CheckAndReassign_advances CheckAndReassign_wf dest: NotifyLeader_advances)

lemma lm_steps_advances: "lm_steps st st' \<Longrightarrow> sh_wf (fst st) \<Longrightarrow> sh_wf (fst st') \<and> advances st st' i"
  by (induction rule: lm_steps.induct) (auto dest: lm_step_advances intro: advances_trans)

text \<open>
  Property C15.  The coordinator names one leader per term: along every sequence of notifications,
  term initialisations and undisturbed reassignment passes, the term of a shard never goes down, and
  as long as it stays the same, so does the shard's leader.
\<close>

theorem one_leader_per_term:
  assumes "sh_wf sm" "lm_steps (sm, ts) (sm', ts')" "LeaderFor sm i = Inr l" "LeaderFor sm' i = Inr l'"
  shows "TermForShard ts i \<le> TermForShard ts' i \<and> (TermForShard ts' i = TermForShard ts i \<longrightarrow> l' = l)"
  using lm_steps_advances [OF assms(2), of i] assms(1,3,4)
  by (auto simp: advances_def LeaderFor_def sh_Get_def split: option.splits if_splits)

theorem one_leader_per_term_witness:
  "\<exists>sm' ts'. lm_steps (demo_shards, [(''s'', 4)]) (sm', ts') \<and> LeaderFor demo_shards ''s'' = Inr ''a'' \<and> LeaderFor sm' ''s'' = Inr ''b'' \<and>
     TermForShard [(''s'', 4)] ''s'' \<le> TermForShard ts' ''s'' \<and> TermForShard ts' ''s'' \<noteq> TermForShard [(''s'', 4)] ''s''"
proof -
  let ?ts = "[(''s'', 4 :: uint64)]"
  obtain sm' ts' ok where n: "NotifyLeader ''s'' ''b'' 7 (demo_shards, ?ts) = ((sm', ts'), ok)"
    by (cases "NotifyLeader ''s'' ''b'' 7 (demo_shards, ?ts)") auto
  then have "LeaderFor sm' ''s'' = Inr ''b''" "LeaderFor demo_shards ''s'' = Inr ''a''"
    by (auto simp: NotifyLeader_def SetLeader_def demo_shards_def demo_info_def LeaderFor_def sh_Get_def)
  moreover have "lm_steps (demo_shards, ?ts) (sm', ts')" using n by (blast intro: lm_nil lm_snoc lm_notify)
  ultimately show ?thesis using one_leader_per_term [OF demo_shards_wf, of ?ts sm' ts' "''s''" "''a''" "''b''"] by auto
qed

text \<open>
  A reassignment pass that is overtaken by an election result undoes it: when a node's
  higher term is accepted between the choice of a candidate and its recording, the recording replaces
  the elected leader and sets the shard's term back.
\<close>

theorem reassign_race:
  assumes "\<not> alive mb []" "map_of (shShards sm) (siID s) = Some s"
    and "pickCandidate mb ts s = (c, t)" "c \<noteq> []"
    and "NotifyLeader (siID s) l t' (sm, ts) = ((sm1, ts1), True)" "t < t'"
    and "reassign_commit (siID s) c t (sm1, ts1) = ((sm2, ts2), ok)"
  shows "ok \<and> TermForShard ts2 (siID s) < TermForShard ts1 (siID s) \<and> LeaderFor sm1 (siID s) \<in> {Inr l, Inl (NoLeader (siID s))} \<and>
    LeaderFor sm2 (siID s) = Inr c"
proof -
  have "c \<in> set (siReplicas s)" using assms(3,4) pick_replica [OF assms(1), of s] pickCandidate_terms [of mb ts s] by auto
  moreover have sm1: "sm1 = \<lparr>shVersion = shVersion sm + 1, shShards = gm_put (siID s) (s\<lparr>siLeader := l\<rparr>) (shShards sm)\<rparr>" "ts1 = gm_put (siID s) t' ts"
    using assms(2,5) by (auto simp: NotifyLeader_def SetLeader_def split: option.splits if_splits prod.splits)
  ultimately have "ok" "ts2 = gm_put (siID s) t ts1" "map_of (shShards sm2) (siID s) = Some (s\<lparr>siLeader := c\<rparr>)"
    using assms(7) by (auto simp: reassign_commit_def SetLeader_def gomap_simps split: prod.splits option.splits)
  with sm1 assms(4,6) show ?thesis by (auto simp: TermForShard_def LeaderFor_def sh_Get_def gomap_simps)
qed

theorem reassign_race_witness:
  "let ts = [(''s'', 4)]; (c, t) = pickCandidate demo_alive ts demo_info;
       ((sm1, ts1), b) = NotifyLeader ''s'' ''b'' 9 (demo_shards, ts);
       ((sm2, ts2), ok) = reassign_commit ''s'' c t (sm1, ts1)
   in b \<and> LeaderFor sm1 ''s'' = Inr ''b'' \<and> TermForShard ts1 ''s'' = 9 \<and> LeaderFor sm2 ''s'' = Inr ''c'' \<and>
     TermForShard ts2 ''s'' < TermForShard ts1 ''s''"
proof -
  let ?ts = "[(''s'', 4 :: uint64)]"
  have p: "pickCandidate demo_alive ?ts demo_info = (''c'', 5)"
    by (simp add: pickCandidate_def demo_info_def demo_alive_def alive_def mb_Get_def VersionForShard_def gm_or0_def Let_def)
  obtain sm1 ts1 b where n: "NotifyLeader ''s'' ''b'' 9 (demo_shards, ?ts) = ((sm1, ts1), b)"
    by (cases "NotifyLeader ''s'' ''b'' 9 (demo_shards, ?ts)") auto
  then have b: "b" "LeaderFor sm1 ''s'' = Inr ''b''" "TermForShard ts1 ''s'' = 9"
    by (auto simp: NotifyLeader_def SetLeader_def demo_shards_def demo_info_def LeaderFor_def sh_Get_def TermForShard_def gm_or0_def)
  obtain sm2 ts2 ok where c: "reassign_commit ''s'' ''c'' 5 (sm1, ts1) = ((sm2, ts2), ok)"
    by (cases "reassign_commit ''s'' ''c'' 5 (sm1, ts1)") auto
  have "siID demo_info = ''s''" "map_of (shShards demo_shards) ''s'' = Some demo_info"
    by (simp_all add: demo_info_def demo_shards_def)
  then show ?thesis
    using reassign_race [of demo_alive demo_shards demo_info ?ts "''c''" 5 "''b''" 9 sm1 ts1 sm2 ts2 ok] n b p c demo_alive_named
    by (simp add: Let_def)
qed

end
