(* ===== verification/Migration.thy ===== *)
theory Migration
  imports LeaderManager
begin

text \<open>
  Shard migration and the end of shard splits, \<^verbatim>\<open>coordinator/migration.go\<close>.  The manager's state is the map of
  pending migrations; it works on the shard map, the membership and the terms of the server.  The
  operations are given as they run when nothing comes in between their calls.
\<close>

record migration =
  mgShardID :: string
  mgNewReplicas :: "string list"

type_synonym migrations = "(string, migration) gomap"

datatype migration_error = MigrationShard shardmap_error

fun widen :: "string list \<Rightarrow> string list \<Rightarrow> string list \<Rightarrow> string list" where
  "widen existing [] u = u"
| "widen existing (r # rs) u = widen existing rs (if r \<in> set existing then u else u @ [r])"

definition StartMigration :: "string \<Rightarrow> string list \<Rightarrow> shard_map \<times> migrations \<Rightarrow> (shard_map \<times> migrations) \<times> migration_error option" where
  "StartMigration shardID newReplicas st = (case sh_Get (fst st) shardID of
      Inl e \<Rightarrow> (st, Some (MigrationShard e))
    | Inr shard \<Rightarrow>
        (case SetReplicas shardID (widen (siReplicas shard) newReplicas (siReplicas shard)) (fst st) of
           (sm1, Some e) \<Rightarrow> ((sm1, snd st), Some (MigrationShard e))
         | (sm1, None) \<Rightarrow>
             (case SetIncomingReplicas shardID newReplicas sm1 of
                (sm2, Some e) \<Rightarrow> ((sm2, snd st), Some (MigrationShard e))
              | (sm2, None) \<Rightarrow>
                  ((sm2, gm_put shardID \<lparr>mgShardID = shardID, mgNewReplicas = newReplicas\<rparr> (snd st)), None))))"

definition allReady :: "membership \<Rightarrow> string \<Rightarrow> string list \<Rightarrow> bool" where
  "allReady mb shardID replicas \<longleftrightarrow> replicas \<noteq> [] \<and>
     list_all (\<lambda>nodeID. alive mb nodeID \<and> VersionForShard mb nodeID shardID \<noteq> 0) replicas"

definition finaliseMigration :: "membership \<Rightarrow> migration \<Rightarrow> (shard_map \<times> terms) \<times> migrations \<Rightarrow> (shard_map \<times> terms) \<times> migrations" where
  "finaliseMigration mb m st = (case st of ((sm, ts), migs) \<Rightarrow>
     (case SetReplicas (mgShardID m) (mgNewReplicas m) sm of
        (sm1, Some e) \<Rightarrow> ((sm1, ts), migs)
      | (sm1, None) \<Rightarrow>
          (let sm2 = fst (SetIncomingReplicas (mgShardID m) [] sm1) in
           (fst (CheckAndReassign mb (sm2, ts)), gm_del (mgShardID m) migs))))"

definition check_pending :: "membership \<Rightarrow> migration \<Rightarrow> (shard_map \<times> terms) \<times> migrations \<Rightarrow> (shard_map \<times> terms) \<times> migrations" where
  "check_pending mb m st = (if allReady mb (mgShardID m) (mgNewReplicas m) then finaliseMigration mb m st else st)"

definition check_split :: "membership \<Rightarrow> shard_info \<Rightarrow> shard_map \<times> terms \<Rightarrow> shard_map \<times> terms" where
  "check_split mb sh st =
     (if siBootstrapSourceShardID sh = [] then st
      else if \<not> allReady mb (siID sh) (siReplicas sh) then st
      else (case ClearBootstrapSource (siID sh) (fst st) of
              (sm1, Some e) \<Rightarrow> (sm1, snd st)
            | (sm1, None) \<Rightarrow> if siLeader sh = [] then fst (CheckAndReassign mb (sm1, snd st)) else (sm1, snd st)))"

definition CheckMigrations :: "membership \<Rightarrow> (shard_map \<times> terms) \<times> migrations \<Rightarrow> (shard_map \<times> terms) \<times> migrations" where
  "CheckMigrations mb st =
     (let st1 = fold (check_pending mb) (map snd (snd st)) st;
          shards = snd (sh_Snapshot (fst (fst st1)))
      in (fold (check_split mb) shards (fst st1), snd st1))"

section \<open>Invariants\<close>

lemma widen_eq: "widen ex rs u = u @ filter (\<lambda>r. r \<notin> set ex) rs"
  by (induction ex rs u rule: widen.induct) auto

lemma SetReplicas_wf:
  "SetReplicas i rs sm = (sm', e) \<Longrightarrow> sh_wf sm \<Longrightarrow> sh_wf sm'"
  using sh_wf_step [of sm "OpSetReplicas i rs"] by simp

lemma SetIncoming_wf:
  "SetIncomingReplicas i rs sm = (sm', e) \<Longrightarrow> sh_wf sm \<Longrightarrow> sh_wf sm'"
  using sh_wf_step [of sm "OpSetIncomingReplicas i rs"] by simp

lemma ClearBootstrap_wf:
  "ClearBootstrapSource i sm = (sm', e) \<Longrightarrow> sh_wf sm \<Longrightarrow> sh_wf sm'"
  using sh_wf_step [of sm "OpClearBootstrapSource i"] by simp

definition migs_ok :: "migrations \<Rightarrow> bool" where
  "migs_ok migs \<longleftrightarrow> gm_wf migs \<and> (\<forall>i m. map_of migs i = Some m \<longrightarrow> mgShardID m = i)"

definition mm_wf :: "(shard_map \<times> terms) \<times> migrations \<Rightarrow> bool" where
  "mm_wf st \<longleftrightarrow> sh_wf (fst (fst st)) \<and> migs_ok (snd st)"

lemma StartMigration_wf:
  assumes "sh_wf sm" "migs_ok migs" "StartMigration i new (sm, migs) = ((sm', migs'), e)"
  shows "sh_wf sm' \<and> migs_ok migs'"
proof (cases "sh_Get sm i")
  case (Inr s)
  let ?u = "widen (siReplicas s) new (siReplicas s)"
  obtain sm1 e1 where r: "SetReplicas i ?u sm = (sm1, e1)" by fastforce
  obtain sm2 e2 where r2: "SetIncomingReplicas i new sm1 = (sm2, e2)" by fastforce
  show ?thesis
    using assms SetReplicas_wf [OF r assms(1)] SetIncoming_wf [OF r2] r r2 Inr
    by (auto simp: StartMigration_def migs_ok_def gomap_simps split: option.splits if_splits)
qed (use assms in \<open>auto simp: StartMigration_def\<close>)

lemma finalise_wf: "mm_wf st \<Longrightarrow> mm_wf (finaliseMigration mb m st)"
proof -
  assume wf: "mm_wf st"
  obtain sm ts migs where st: "st = ((sm, ts), migs)" by (metis prod_cases3 surj_pair)
  obtain sm1 e1 where r: "SetReplicas (mgShardID m) (mgNewReplicas m) sm = (sm1, e1)" by fastforce
  obtain sm2 e2 where r2: "SetIncomingReplicas (mgShardID m) [] sm1 = (sm2, e2)" by fastforce
  have w: "sh_wf sm2" "sh_wf sm1"
    using wf SetReplicas_wf [OF r] SetIncoming_wf [OF r2] by (auto simp: mm_wf_def st)
  have "sh_wf (fst (fst (CheckAndReassign mb (sm2, ts))))"
    using w CheckAndReassign_wf [of "(sm2, ts)" mb] by (cases "CheckAndReassign mb (sm2, ts)") auto
  then show ?thesis
    using wf w(2) r r2 by (auto simp: finaliseMigration_def st mm_wf_def migs_ok_def gomap_simps Let_def split: option.splits)
qed

lemma check_split_wf: "sh_wf (fst st) \<Longrightarrow> sh_wf (fst (check_split mb sh st))"
proof -
  assume wf: "sh_wf (fst st)"
  obtain sm1 e where r: "ClearBootstrapSource (siID sh) (fst st) = (sm1, e)" by fastforce
  have w: "sh_wf sm1" using ClearBootstrap_wf [OF r wf] .
  then have "sh_wf (fst (fst (CheckAndReassign mb (sm1, snd st))))"
    using CheckAndReassign_wf [of "(sm1, snd st)" mb] by (cases "CheckAndReassign mb (sm1, snd st)") auto
  with w wf r show ?thesis by (auto simp: check_split_def split: option.splits)
qed

lemma pending_wf:
  "mm_wf st \<Longrightarrow> mm_wf (fold (check_pending mb) ms st)"
  by (induction ms arbitrary: st) (simp_all add: check_pending_def finalise_wf)

lemma splits_wf: "sh_wf (fst st) \<Longrightarrow> sh_wf (fst (fold (check_split mb) shs st))"
  by (induction shs arbitrary: st) (simp_all add: check_split_wf)

lemma CheckMigrations_wf: "mm_wf st \<Longrightarrow> mm_wf (CheckMigrations mb st)"
  using pending_wf [of st mb "map snd (snd st)"]
  by (auto simp: CheckMigrations_def Let_def mm_wf_def intro: splits_wf)

section \<open>Migrations complete\<close>

definition settled :: "membership \<Rightarrow> string \<Rightarrow> string list \<Rightarrow> shard_map \<Rightarrow> bool" where
  "settled mb i new sm \<longleftrightarrow> (\<exists>s. map_of (shShards sm) i = Some s \<and> siReplicas s = new \<and> siIncomingReplicas s = [] \<and>
     siLeader s \<in> set new \<and> alive mb (siLeader s))"

lemma settled_reassign:
  assumes "sh_wf sm" "\<not> alive mb []" "settled mb i new sm" "CheckAndReassign mb (sm, ts) = ((sm', ts'), ch)"
  shows "settled mb i new sm'"
proof -
  obtain s where s: "map_of (shShards sm) i = Some s" "siReplicas s = new" "siLeader s \<in> set new" "alive mb (siLeader s)"
    "siIncomingReplicas s = []" using assms(3) by (auto simp: settled_def)
  then have "\<not> needs_leader mb s" using assms(2) by (auto simp: needs_leader_def)
  with s CheckAndReassign_get(1) [OF assms(1,2,4), of i] show ?thesis by (auto simp: settled_def reassigned_def)
qed

lemma settled_split: "sh_wf (fst st) \<Longrightarrow> \<not> alive mb [] \<Longrightarrow> settled mb i new (fst st) \<Longrightarrow> settled mb i new (fst (check_split mb sh st))"
proof -
  assume wf: "sh_wf (fst st)" and na: "\<not> alive mb []" and se: "settled mb i new (fst st)"
  obtain sm1 e where r: "ClearBootstrapSource (siID sh) (fst st) = (sm1, e)" by fastforce
  have w: "sh_wf sm1" using ClearBootstrap_wf [OF r wf] .
  have s1: "settled mb i new sm1"
    using r se by (auto simp: ClearBootstrapSource_def settled_def gomap_simps split: option.splits if_splits)
  obtain sm2 ts2 ch where c: "CheckAndReassign mb (sm1, snd st) = ((sm2, ts2), ch)"
    by (cases "CheckAndReassign mb (sm1, snd st)") auto
  show ?thesis using settled_reassign [OF w na s1 c] s1 se r c by (auto simp: check_split_def split: option.splits)
qed

lemma finalise_other:
  assumes "mm_wf st" "\<not> alive mb []" "mgShardID m \<noteq> i" "settled mb i new (fst (fst st))"
  shows "settled mb i new (fst (fst (finaliseMigration mb m st)))"
proof -
  obtain sm ts migs where st: "st = ((sm, ts), migs)" by (metis prod_cases3 surj_pair)
  obtain sm1 e1 where r: "SetReplicas (mgShardID m) (mgNewReplicas m) sm = (sm1, e1)" by fastforce
  obtain sm2 e2 where r2: "SetIncomingReplicas (mgShardID m) [] sm1 = (sm2, e2)" by fastforce
  have w: "sh_wf sm2" "settled mb i new sm1" "settled mb i new sm2"
    using assms SetReplicas_wf [OF r] SetIncoming_wf [OF r2] r r2
    by (auto simp: mm_wf_def st settled_def SetReplicas_def SetIncomingReplicas_def gomap_simps Let_def split: option.splits)
  obtain sm3 ts3 ch where c: "CheckAndReassign mb (sm2, ts) = ((sm3, ts3), ch)" by (cases "CheckAndReassign mb (sm2, ts)") auto
  show ?thesis using settled_reassign [OF w(1) assms(2) w(3) c] w r r2 c
    by (auto simp: finaliseMigration_def st Let_def split: option.splits)
qed

lemma finalise_own:
  assumes "mm_wf st" "\<not> alive mb []" "map_of (shShards (fst (fst st))) (mgShardID m) \<noteq> None"
    and ready: "allReady mb (mgShardID m) (mgNewReplicas m)"
  shows "settled mb (mgShardID m) (mgNewReplicas m) (fst (fst (finaliseMigration mb m st)))"
    and "map_of (snd (finaliseMigration mb m st)) (mgShardID m) = None"
proof -
  let ?i = "mgShardID m" and ?new = "mgNewReplicas m"
  obtain sm ts migs where st: "st = ((sm, ts), migs)" by (metis prod_cases3 surj_pair)
  obtain s where s: "map_of (shShards sm) ?i = Some s" using assms(3) st by auto
  obtain sm1 where r: "SetReplicas ?i ?new sm = (sm1, None)" using s by (simp add: SetReplicas_def Let_def)
  obtain sm2 e2 where r2: "SetIncomingReplicas ?i [] sm1 = (sm2, e2)" by fastforce
  have w: "sh_wf sm2"
    using assms(1) SetReplicas_wf [OF r] SetIncoming_wf [OF r2] by (auto simp: mm_wf_def st)
  obtain s2 where s2: "map_of (shShards sm2) ?i = Some s2" "siReplicas s2 = ?new" "siIncomingReplicas s2 = []"
    using s r r2 by (auto simp: SetReplicas_def SetIncomingReplicas_def gomap_simps Let_def)
  have lok: "leader_ok s2" using sh_wf_get [OF w(1) s2(1)] by simp
  obtain sm3 ts3 ch where c: "CheckAndReassign mb (sm2, ts) = ((sm3, ts3), ch)" by (cases "CheckAndReassign mb (sm2, ts)") auto
  have al: "?new \<noteq> []" "\<And>r. r \<in> set ?new \<Longrightarrow> alive mb r" using ready by (auto simp: allReady_def list_all_iff)
  have "siLeader (reassigned mb s2) \<in> set ?new \<and> alive mb (siLeader (reassigned mb s2))"
  proof (cases "siLeader s2 = []")
    case True
    have h: "hd ?new \<in> set ?new" using al(1) by (rule hd_in_set)
    then have "hd ?new \<noteq> []" using assms(2) al(2) by metis
    with h have "eligible mb s2 (hd ?new)" using True al(2) s2(2) by (simp add: eligible_def)
    then have "needs_leader mb s2" using needs_leader_iff [OF assms(2), of s2] True by auto
    then show ?thesis using reassigned_best [OF assms(2), of s2] s2(2) by (auto simp: eligible_def)
  next
    case False
    then have "siLeader s2 \<in> set ?new" using s2 lok by (auto simp: leader_ok_def)
    then show ?thesis using al False by (simp add: reassigned_def needs_leader_def)
  qed
  moreover have "siReplicas (reassigned mb s2) = ?new" "siIncomingReplicas (reassigned mb s2) = []"
    using s2 by (simp_all add: reassigned_def)
  ultimately have "settled mb ?i ?new sm3"
    using CheckAndReassign_get(1) [OF w assms(2) c, of ?i] s2(1) by (simp add: settled_def)
  moreover have "finaliseMigration mb m st = ((sm3, ts3), gm_del ?i migs)"
    using r r2 c by (simp add: finaliseMigration_def st Let_def)
  ultimately show "settled mb ?i ?new (fst (fst (finaliseMigration mb m st)))" "map_of (snd (finaliseMigration mb m st)) ?i = None"
    by (simp_all add: gomap_simps)
qed

lemma CheckAndReassign_dom:
  "sh_wf sm \<Longrightarrow> \<not> alive mb [] \<Longrightarrow> map_of (shShards (fst (fst (CheckAndReassign mb (sm, ts))))) i = None \<longleftrightarrow> map_of (shShards sm) i = None"
  using CheckAndReassign_get(1) [of sm mb ts _ _ _ i] by (cases "CheckAndReassign mb (sm, ts)") auto

lemma finalise_keeps_shard:
  assumes "mm_wf st" "\<not> alive mb []" "map_of (shShards (fst (fst st))) i \<noteq> None"
  shows "map_of (shShards (fst (fst (finaliseMigration mb m st)))) i \<noteq> None"
proof -
  obtain sm ts migs where st: "st = ((sm, ts), migs)" by (metis prod_cases3 surj_pair)
  obtain sm1 e1 where r: "SetReplicas (mgShardID m) (mgNewReplicas m) sm = (sm1, e1)" by fastforce
  obtain sm2 e2 where r2: "SetIncomingReplicas (mgShardID m) [] sm1 = (sm2, e2)" by fastforce
  have "sh_wf sm2" "map_of (shShards sm1) i \<noteq> None" "map_of (shShards sm2) i \<noteq> None"
    using assms SetReplicas_wf [OF r] SetIncoming_wf [OF r2] r r2
    by (auto simp: mm_wf_def st SetReplicas_def SetIncomingReplicas_def gomap_simps Let_def split: option.splits)
  then show ?thesis using r r2 assms(2) CheckAndReassign_dom [of sm2 mb ts i]
    by (auto simp: finaliseMigration_def st Let_def split: option.splits)
qed

lemma pending_before:
  assumes "mm_wf st" "\<not> alive mb []" "map_of (shShards (fst (fst st))) i \<noteq> None"
  shows "map_of (shShards (fst (fst (fold (check_pending mb) ms st)))) i \<noteq> None"
  using assms
proof (induction ms arbitrary: st)
  case (Cons m ms)
  have "mm_wf (check_pending mb m st)" "map_of (shShards (fst (fst (check_pending mb m st)))) i \<noteq> None"
    using Cons.prems finalise_wf [of st mb m] finalise_keeps_shard [of st mb i m] by (simp_all add: check_pending_def)
  then show ?case using Cons.IH [of "check_pending mb m st"] Cons.prems(2) by simp
qed simp

lemma pending_after:
  assumes "mm_wf st" "\<not> alive mb []" "\<And>m. m \<in> set ms \<Longrightarrow> mgShardID m \<noteq> i"
    and "settled mb i new (fst (fst st))" "map_of (snd st) i = None"
  shows "settled mb i new (fst (fst (fold (check_pending mb) ms st))) \<and> map_of (snd (fold (check_pending mb) ms st)) i = None"
  using assms
proof (induction ms arbitrary: st)
  case (Cons m ms)
  have "map_of (snd (finaliseMigration mb m st)) i = None"
    using Cons.prems(5) by (cases st) (auto simp: finaliseMigration_def gomap_simps Let_def split: prod.splits option.splits)
  then have "mm_wf (check_pending mb m st)" "settled mb i new (fst (fst (check_pending mb m st)))" "map_of (snd (check_pending mb m st)) i = None"
    using Cons.prems finalise_wf [of st mb m] finalise_other [of st mb m i new] by (simp_all add: check_pending_def)
  then show ?case using Cons.IH [of "check_pending mb m st"] Cons.prems(2,3) by simp
qed simp

lemma settled_splits: "sh_wf (fst st) \<Longrightarrow> \<not> alive mb [] \<Longrightarrow> settled mb i new (fst st) \<Longrightarrow> settled mb i new (fst (fold (check_split mb) shs st))"
  by (induction shs arbitrary: st) (simp_all add: check_split_wf settled_split)

text \<open>
  Property C20.  Migrations complete: when every incoming replica of a pending migration is alive and
  has reported a version, one pass of \<^verbatim>\<open>CheckMigrations\<close>, whatever else is pending, makes the incoming set
  the shard's replica set, clears the mark and the record of the migration, and leaves the shard with
  an alive leader from the new set.
\<close>

theorem CheckMigrations_completes:
  assumes wf: "mm_wf st" and m: "map_of (snd st) i = Some m" "map_of (shShards (fst (fst st))) i \<noteq> None"
    and ready: "allReady mb i (mgNewReplicas m)" and na: "\<not> alive mb []"
  shows "settled mb i (mgNewReplicas m) (fst (fst (CheckMigrations mb st))) \<and> map_of (snd (CheckMigrations mb st)) i = None"
proof -
  have id: "mgShardID m = i" using wf m(1) by (simp add: mm_wf_def migs_ok_def)
  obtain as bs where split: "snd st = as @ (i, m) # bs" using m(1) by (meson map_of_SomeD split_list)
  let ?A = "fold (check_pending mb) (map snd as) st" and ?B = "map snd bs"
  have ids: "map (mgShardID \<circ> snd) (snd st) = map fst (snd st)"
    using wf by (intro map_cong) (auto simp: mm_wf_def migs_ok_def gm_wf_def)
  have other: "mgShardID m' \<noteq> i" if "m' \<in> set ?B" for m'
  proof -
    have "i \<notin> fst ` set bs" using wf split by (auto simp: mm_wf_def migs_ok_def gm_wf_def)
    moreover have "map (mgShardID \<circ> snd) bs = map fst bs" using ids split by simp
    ultimately show ?thesis using that by (metis image_eqI list.map_comp list.set_map)
  qed
  have A: "mm_wf ?A" "map_of (shShards (fst (fst ?A))) i \<noteq> None"
    using pending_wf [OF wf, of mb "map snd as"] pending_before [OF wf na m(2), of "map snd as"] by simp_all
  have own: "mm_wf (check_pending mb m ?A)" "settled mb i (mgNewReplicas m) (fst (fst (check_pending mb m ?A)))" "map_of (snd (check_pending mb m ?A)) i = None"
    using finalise_wf [OF A(1), of mb m] finalise_own [OF A(1) na, of m] A(2) ready id by (auto simp: check_pending_def)
  have "settled mb i (mgNewReplicas m) (fst (fst (fold (check_pending mb) ?B (check_pending mb m ?A)))) \<and>
      map_of (snd (fold (check_pending mb) ?B (check_pending mb m ?A))) i = None \<and> mm_wf (fold (check_pending mb) ?B (check_pending mb m ?A))"
    using pending_after [OF own(1) na _ own(2,3), of ?B] pending_wf [OF own(1), of mb ?B] other by blast
  then show ?thesis
    using split na by (auto simp: CheckMigrations_def Let_def mm_wf_def intro: settled_splits)
qed

definition demo_migrating :: "(shard_map \<times> terms) \<times> migrations" where
  "demo_migrating = (case StartMigration ''s'' [''c'', ''b''] (demo_shards, []) of ((sm, migs), e) \<Rightarrow> ((sm, [(''s'', 4)]), migs))"

lemma demo_migrating_wf: "mm_wf demo_migrating"
proof -
  obtain sm migs e where r: "StartMigration ''s'' [''c'', ''b''] (demo_shards, []) = ((sm, migs), e)"
    by (cases "StartMigration ''s'' [''c'', ''b''] (demo_shards, [])") auto
  show ?thesis
    using StartMigration_wf [OF demo_shards_wf _ r] r by (simp add: demo_migrating_def mm_wf_def migs_ok_def)
qed

theorem CheckMigrations_completes_witness:
  "allReady demo_alive ''s'' [''c'', ''b''] \<and> settled demo_alive ''s'' [''c'', ''b''] (fst (fst (CheckMigrations demo_alive demo_migrating))) \<and>
   map_of (snd (CheckMigrations demo_alive demo_migrating)) ''s'' = None"
proof -
  have "allReady demo_alive ''s'' [''c'', ''b'']"
    by (simp add: allReady_def demo_alive_def alive_def mb_Get_def VersionForShard_def gm_or0_def)
  moreover have "map_of (snd demo_migrating) ''s'' = Some \<lparr>mgShardID = ''s'', mgNewReplicas = [''c'', ''b'']\<rparr>"
    "map_of (shShards (fst (fst demo_migrating))) ''s'' \<noteq> None"
    by (simp_all add: demo_migrating_def StartMigration_def sh_Get_def SetReplicas_def SetIncomingReplicas_def demo_shards_def demo_info_def Let_def)
  ultimately show ?thesis
    using CheckMigrations_completes [OF demo_migrating_wf, of "''s''" "\<lparr>mgShardID = ''s'', mgNewReplicas = [''c'', ''b'']\<rparr>" demo_alive] demo_alive_named by simp
qed

text \<open>
  The start of a migration does not interrupt service: on success the shard keeps its
  leader and every old replica, the new ones are appended, and the target set is recorded; on failure
  nothing changes, and it fails only for an unknown shard.
\<close>

theorem StartMigration_widens:
  assumes "sh_wf sm" "StartMigration i new (sm, migs) = ((sm', migs'), e)"
  shows "(case map_of (shShards sm) i of
      None \<Rightarrow> e = Some (MigrationShard (ShardNotFound i)) \<and> sm' = sm \<and> migs' = migs
    | Some s \<Rightarrow> e = None \<and> migs' = gm_put i \<lparr>mgShardID = i, mgNewReplicas = new\<rparr> migs \<and> shVersion sm' = shVersion sm + 2 \<and>
        map_of (shShards sm') = (map_of (shShards sm))(i \<mapsto>
          s\<lparr>siReplicas := siReplicas s @ filter (\<lambda>r. r \<notin> set (siReplicas s)) new, siIncomingReplicas := new\<rparr>))"
proof (cases "map_of (shShards sm) i")
  case (Some s)
  have "leader_ok s" using sh_wf_get [OF assms(1) Some] by simp
  then show ?thesis
    using assms(2) Some
    by (auto simp: StartMigration_def sh_Get_def SetReplicas_def SetIncomingReplicas_def gomap_simps Let_def widen_eq leader_ok_def)
qed (use assms(2) in \<open>simp add: StartMigration_def sh_Get_def\<close>)

theorem StartMigration_widens_witness:
  "\<exists>sm' migs'. StartMigration ''s'' [''c'', ''d''] (demo_shards, []) = ((sm', migs'), None) \<and> shVersion sm' = 3"
proof -
  obtain sm' migs' e where r: "StartMigration ''s'' [''c'', ''d''] (demo_shards, []) = ((sm', migs'), e)"
    by (cases "StartMigration ''s'' [''c'', ''d''] (demo_shards, [])") auto
  show ?thesis using StartMigration_widens [OF demo_shards_wf r] r by (simp add: demo_shards_def)
qed

definition demo_lag :: membership where
  "demo_lag = \<lparr>mbNodes = map (\<lambda>(i, v). (i, \<lparr>nsID = i, nsAddress = ''h'', nsIsAlive = True, nsLastHeartbeatAt = 1,
     nsShardVersions = [(''s'', v)]\<rparr>)) [(''a'', 100), (''b'', 1), (''c'', 1)], mbTimeout = 50\<rparr>"

text \<open>
  A migration can finish on replicas that lack acknowledged writes: any nonzero reported
  version counts as ready, so with the leader at version 100 and the incoming replicas at version 1 the
  migration completes, the old leader is dropped, and the new leader is one that is 99 writes behind.
\<close>

theorem migration_to_lagging_replicas:
  "let sm' = fst (fst (CheckMigrations demo_lag demo_migrating))
   in LeaderFor demo_shards ''s'' = Inr ''a'' \<and> alive demo_lag ''a'' \<and> VersionForShard demo_lag ''a'' ''s'' = 100 \<and>
     LeaderFor sm' ''s'' = Inr ''c'' \<and> VersionForShard demo_lag ''c'' ''s'' = 1 \<and>
     (\<exists>s. map_of (shShards sm') ''s'' = Some s \<and> \<not> HasReplica s ''a'')"
proof -
  have m: "demo_migrating = ((\<lparr>shVersion = 3, shShards = [(''s'', demo_info\<lparr>siIncomingReplicas := [''c'', ''b'']\<rparr>)]\<rparr>, [(''s'', 4)]),
      [(''s'', \<lparr>mgShardID = ''s'', mgNewReplicas = [''c'', ''b'']\<rparr>)])"
    by (simp add: demo_migrating_def StartMigration_def sh_Get_def SetReplicas_def SetIncomingReplicas_def demo_shards_def demo_info_def Let_def)
  have r: "allReady demo_lag ''s'' [''c'', ''b'']" "alive demo_lag ''a''" "VersionForShard demo_lag ''a'' ''s'' = 100"
    "VersionForShard demo_lag ''c'' ''s'' = 1" "VersionForShard demo_lag ''b'' ''s'' = 1" "alive demo_lag ''b''" "alive demo_lag ''c''"
    by (simp_all add: allReady_def demo_lag_def alive_def mb_Get_def VersionForShard_def gm_or0_def)
  show ?thesis using r unfolding m
    by (simp add: CheckMigrations_def check_pending_def finaliseMigration_def SetReplicas_def SetIncomingReplicas_def demo_info_def Let_def
        CheckAndReassign_def sh_All_def reassign_shard_def pickCandidate_def reassign_commit_def SetLeader_def sh_Snapshot_def check_split_def
        LeaderFor_def sh_Get_def HasReplica_def demo_shards_def)
qed

end
