(* ===== verification/Coordinator.thy ===== *)
theory Coordinator
  imports Migration
begin

text \<open>
  The coordinator's server, \<^verbatim>\<open>coordinator/server.go\<close> and \<^verbatim>\<open>coordinator/grpc.go\<close>: construction, the HTTP and gRPC
  handlers, the health monitor and the gauges it sets.  A handler is a function from the decoded
  request, \<open>None\<close> when the body does not decode, and the state to the new state and the reply.  The
  counters handed to the metrics package are left out; the gauges, which are computed here, are kept.
\<close>

record coordinator =
  coCfg :: cluster_config
  coMembership :: membership
  coShards :: shard_map
  coTerms :: terms
  coMigrations :: migrations
  coReady :: bool

datatype coord_error =
    BadRequest
  | HeartbeatRejected membership_error
  | LeaderLookup shardmap_error
  | LeaderNodeNotFound
  | CoordNotReady
  | MissingFields
  | StaleOrUnknown
  | MigrationRefused migration_error
  | SourceShardNotFound
  | SplitConflict shardmap_error

fun http_status :: "coord_error \<Rightarrow> nat" where
  "http_status (LeaderLookup e) = 404"
| "http_status LeaderNodeNotFound = 500"
| "http_status CoordNotReady = 503"
| "http_status StaleOrUnknown = 409"
| "http_status (SplitConflict e) = 409"
| "http_status _ = 400"

definition coord_NewServer :: "cluster_config \<Rightarrow> coordinator" where
  "coord_NewServer cfg = \<lparr>coCfg = cfg, coMembership = NewMembership (clNodes cfg) (ccFailureTimeout (clCoordinator cfg)),
     coShards = shardmap_New, coTerms = [], coMigrations = [], coReady = False\<rparr>"

definition coord_Init :: "coordinator \<Rightarrow> coordinator \<times> shardmap_error option" where
  "coord_Init s = (case InitFromConfig (coCfg s) (coShards s, coTerms s) of
      ((sm, ts), Some e) \<Rightarrow> (s\<lparr>coShards := sm, coTerms := ts\<rparr>, Some e)
    | ((sm, ts), None) \<Rightarrow> (s\<lparr>coShards := sm, coTerms := ts, coReady := True\<rparr>, None))"

section \<open>HTTP handlers\<close>

record heartbeat_body =
  hqNodeID :: string
  hqShards :: "shard_status list"

definition handleHeartbeat :: "gotime \<Rightarrow> heartbeat_body option \<Rightarrow> coordinator \<Rightarrow> coordinator \<times> (coord_error + uint64)" where
  "handleHeartbeat now body s = (case body of
      None \<Rightarrow> (s, Inl BadRequest)
    | Some req \<Rightarrow>
        (case RecordHeartbeat now (hqNodeID req) (hqShards req) (coMembership s) of
           (mb, Some e) \<Rightarrow> (s\<lparr>coMembership := mb\<rparr>, Inl (HeartbeatRejected e))
         | (mb, None) \<Rightarrow> (s\<lparr>coMembership := mb\<rparr>, Inr (fst (sh_Snapshot (coShards s))))))"

record shard_map_response =
  smrVersion :: uint64
  smrShards :: "shard_info list"
  smrNodeAddresses :: "(string, string) gomap"

definition node_addrs :: "node_status list \<Rightarrow> (string, string) gomap" where
  "node_addrs nodes = fold (\<lambda>ns m. gm_put (nsID ns) (nsAddress ns) m) nodes []"

definition buildShardMapResponse :: "coordinator \<Rightarrow> shard_map_response" where
  "buildShardMapResponse s = (case sh_Snapshot (coShards s) of (version, shards) \<Rightarrow>
     \<lparr>smrVersion = version, smrShards = shards, smrNodeAddresses = node_addrs (mb_All (coMembership s))\<rparr>)"

definition handleShardMap :: "coordinator \<Rightarrow> shard_map_response" where
  "handleShardMap s = buildShardMapResponse s"

record leader_query_response =
  lqShardID :: string
  lqLeaderID :: string
  lqAddress :: string
  lqTerm :: uint64

definition handleLeaderQuery :: "string \<Rightarrow> coordinator \<Rightarrow> coord_error + leader_query_response" where
  "handleLeaderQuery shardID s = (case LeaderFor (coShards s) shardID of
      Inl e \<Rightarrow> Inl (LeaderLookup e)
    | Inr leader \<Rightarrow>
        (case mb_Get (coMembership s) leader of
           Inl e \<Rightarrow> Inl LeaderNodeNotFound
         | Inr ns \<Rightarrow> Inr \<lparr>lqShardID = shardID, lqLeaderID = leader, lqAddress = nsAddress ns,
                         lqTerm = TermForShard (coTerms s) shardID\<rparr>))"

record node_status_response =
  nrNodeID :: string
  nrAddress :: string
  nrIsAlive :: bool
  nrLastHeartbeatMs :: int

record shard_status_response =
  srInfo :: shard_info
  srTerm :: uint64
  srQuorumAlive :: bool
  srReplicaVersions :: "(string, uint64) gomap"
  srMaxReplicationLag :: uint64

record coord_status_response =
  csShardMapVersion :: uint64
  csNodes :: "node_status_response list"
  csShards :: "shard_status_response list"

definition to_millis :: "duration \<Rightarrow> int" where
  "to_millis d = (if d < 0 then - ((- d) div 1000000) else d div 1000000)"

definition node_response :: "gotime \<Rightarrow> node_status \<Rightarrow> node_status_response" where
  "node_response now ns = \<lparr>nrNodeID = nsID ns, nrAddress = nsAddress ns, nrIsAlive = nsIsAlive ns,
     nrLastHeartbeatMs = (if is_zero_time (nsLastHeartbeatAt ns) then - 1 else to_millis (time_sub now (nsLastHeartbeatAt ns)))\<rparr>"

fun versions_loop :: "membership \<Rightarrow> shard_info \<Rightarrow> string list \<Rightarrow> (string, uint64) gomap \<Rightarrow> uint64 \<Rightarrow> (string, uint64) gomap \<times> uint64" where
  "versions_loop mb sh [] vs lv = (vs, lv)"
| "versions_loop mb sh (rep # reps) vs lv =
     (let v = VersionForShard mb rep (siID sh)
      in versions_loop mb sh reps (gm_put rep v vs) (if rep = siLeader sh then v else lv))"

fun lag_loop :: "(string, bool) gomap \<Rightarrow> (string, uint64) gomap \<Rightarrow> uint64 \<Rightarrow> string list \<Rightarrow> uint64 \<Rightarrow> nat \<Rightarrow> uint64 \<times> nat" where
  "lag_loop aliveNodes vs lv [] lag n = (lag, n)"
| "lag_loop aliveNodes vs lv (rep # reps) lag n =
     (let n' = (if gm_get aliveNodes rep = Some True then n + 1 else n); v = gm_or0 vs rep
      in lag_loop aliveNodes vs lv reps (if v < lv \<and> lag < lv - v then lv - v else lag) n')"

definition alive_set :: "node_status list \<Rightarrow> (string, bool) gomap" where
  "alive_set nodes = fold (\<lambda>ns m. if nsIsAlive ns then gm_put (nsID ns) True m else m) nodes []"

definition shard_response :: "membership \<Rightarrow> terms \<Rightarrow> (string, bool) gomap \<Rightarrow> shard_info \<Rightarrow> shard_status_response" where
  "shard_response mb ts aliveNodes sh =
     (let (vs, lv) = versions_loop mb sh (siReplicas sh) [] 0;
          (lag, n) = lag_loop aliveNodes vs lv (siReplicas sh) 0 0
      in \<lparr>srInfo = sh, srTerm = TermForShard ts (siID sh), srQuorumAlive = (si_Quorum sh \<le> n),
          srReplicaVersions = vs, srMaxReplicationLag = lag\<rparr>)"

definition coord_handleStatus :: "gotime \<Rightarrow> coordinator \<Rightarrow> coord_status_response" where
  "coord_handleStatus now s =
     (let nodes = mb_All (coMembership s); (version, shards) = sh_Snapshot (coShards s)
      in \<lparr>csShardMapVersion = version, csNodes = map (node_response now) nodes,
          csShards = map (shard_response (coMembership s) (coTerms s) (alive_set nodes)) shards\<rparr>)"

definition coord_handleReady :: "coordinator \<Rightarrow> coord_error + unit" where
  "coord_handleReady s = (if \<not> coReady s then Inl CoordNotReady else Inr ())"

record notify_body =
  nqShardID :: string
  nqLeaderID :: string
  nqTerm :: uint64

definition handleNotifyLeader :: "notify_body option \<Rightarrow> coordinator \<Rightarrow> coordinator \<times> (coord_error + unit)" where
  "handleNotifyLeader body s = (case body of
      None \<Rightarrow> (s, Inl BadRequest)
    | Some req \<Rightarrow>
        if nqShardID req = [] \<or> nqLeaderID req = [] \<or> nqTerm req = 0 then (s, Inl MissingFields)
        else (case NotifyLeader (nqShardID req) (nqLeaderID req) (nqTerm req) (coShards s, coTerms s) of
                ((sm, ts), ok) \<Rightarrow> (s\<lparr>coShards := sm, coTerms := ts\<rparr>, if ok then Inr () else Inl StaleOrUnknown)))"

section \<open>Admin handlers\<close>

definition handleAdminAddNode :: "node_spec option \<Rightarrow> coordinator \<Rightarrow> coordinator \<times> (coord_error + unit)" where
  "handleAdminAddNode body s = (case body of
      None \<Rightarrow> (s, Inl BadRequest)
    | Some req \<Rightarrow>
        if nspID req = [] \<or> nspAddress req = [] then (s, Inl MissingFields)
        else (s\<lparr>coMembership := AddNode req (coMembership s)\<rparr>, Inr ()))"

definition handleAdminMigrateShard :: "(string \<times> string list) option \<Rightarrow> coordinator \<Rightarrow> coordinator \<times> (coord_error + unit)" where
  "handleAdminMigrateShard body s = (case body of
      None \<Rightarrow> (s, Inl BadRequest)
    | Some (shardID, newReplicas) \<Rightarrow>
        if shardID = [] \<or> newReplicas = [] then (s, Inl MissingFields)
        else (case StartMigration shardID newReplicas (coShards s, coMigrations s) of
                ((sm, migs), Some e) \<Rightarrow> (s\<lparr>coShards := sm, coMigrations := migs\<rparr>, Inl (MigrationRefused e))
              | ((sm, migs), None) \<Rightarrow> (s\<lparr>coShards := sm, coMigrations := migs\<rparr>, Inr ())))"

record split_body =
  sqSourceShardID :: string
  sqNewShardID :: string
  sqNewReplicas :: "string list"

definition handleAdminSplitShard :: "split_body option \<Rightarrow> coordinator \<Rightarrow> coordinator \<times> (coord_error + unit)" where
  "handleAdminSplitShard body s = (case body of
      None \<Rightarrow> (s, Inl BadRequest)
    | Some req \<Rightarrow>
        if sqSourceShardID req = [] \<or> sqNewShardID req = [] \<or> sqNewReplicas req = [] then (s, Inl MissingFields)
        else (case sh_Get (coShards s) (sqSourceShardID req) of
                Inl e \<Rightarrow> (s, Inl SourceShardNotFound)
              | Inr src \<Rightarrow>
                  (case AddShard \<lparr>siID = sqNewShardID req, siReplicas = sqNewReplicas req, siLeader = [],
                          siBootstrapSourceShardID = sqSourceShardID req, siIncomingReplicas = []\<rparr> (coShards s) of
                     (sm, Some e) \<Rightarrow> (s\<lparr>coShards := sm\<rparr>, Inl (SplitConflict e))
                   | (sm, None) \<Rightarrow> (s\<lparr>coShards := sm, coTerms := InitTerm (sqNewShardID req) (coTerms s)\<rparr>, Inr ()))))"

section \<open>Health monitor\<close>

definition health_tick :: "gotime \<Rightarrow> coordinator \<Rightarrow> coordinator \<times> string list" where
  "health_tick now s =
     (let (mb, changed) = RefreshLiveness now (coMembership s);
          ((sm1, ts1), reassigned) = (if changed \<noteq> [] then CheckAndReassign mb (coShards s, coTerms s) else ((coShards s, coTerms s), []));
          ((sm2, ts2), migs) = CheckMigrations mb ((sm1, ts1), coMigrations s)
      in (s\<lparr>coMembership := mb, coShards := sm2, coTerms := ts2, coMigrations := migs\<rparr>, reassigned))"

record gauges =
  gShardsTotal :: nat
  gShardsWithLeader :: nat
  gShardsQuorumAvailable :: nat
  gShardTerm :: "(string, uint64) gomap"
  gNodeAlive :: "(string, bool) gomap"

definition refreshMetrics :: "coordinator \<Rightarrow> gauges" where
  "refreshMetrics s =
     (let shards = snd (sh_Snapshot (coShards s)); nodes = mb_All (coMembership s);
          alive_count = (\<lambda>sh. length (filter (\<lambda>rep. list_ex (\<lambda>ns. nsID ns = rep \<and> nsIsAlive ns) nodes) (siReplicas sh)))
      in \<lparr>gShardsTotal = length shards, gShardsWithLeader = length (filter (\<lambda>sh. siLeader sh \<noteq> []) shards),
          gShardsQuorumAvailable = length (filter (\<lambda>sh. si_Quorum sh \<le> alive_count sh) shards),
          gShardTerm = fold (\<lambda>sh m. gm_put (siID sh) (TermForShard (coTerms s) (siID sh)) m) shards [],
          gNodeAlive = fold (\<lambda>ns m. gm_put (nsID ns) (nsIsAlive ns) m) nodes []\<rparr>)"

section \<open>gRPC\<close>

record shard_heartbeat =
  phShardId :: string
  phRole :: string
  phTerm :: uint64
  phVersion :: uint64
  phIsReady :: bool

record proto_shard_info =
  psShardId :: string
  psLeader :: string
  psReplicas :: "string list"

record get_shard_map_response =
  gmVersion :: uint64
  gmShards :: "proto_shard_info list"
  gmNodeAddresses :: "(string, string) gomap"

datatype grpc_error = InvalidArgument membership_error | NotFoundErr shardmap_error | InternalErr

definition shardInfoToProto :: "shard_info list \<Rightarrow> proto_shard_info list" where
  "shardInfoToProto shards = map (\<lambda>sh. \<lparr>psShardId = siID sh, psLeader = siLeader sh, psReplicas = siReplicas sh\<rparr>) shards"

definition grpc_Heartbeat :: "gotime \<Rightarrow> string \<Rightarrow> shard_heartbeat list \<Rightarrow> coordinator \<Rightarrow> coordinator \<times> (grpc_error + uint64)" where
  "grpc_Heartbeat now nodeId shs s =
     (let shards = map (\<lambda>sh. \<lparr>ssShardID = phShardId sh, ssRole = phRole sh, ssVersion = phVersion sh,
                              ssIsReady = phIsReady sh, ssTerm = phTerm sh\<rparr>) shs
      in case RecordHeartbeat now nodeId shards (coMembership s) of
           (mb, Some e) \<Rightarrow> (s\<lparr>coMembership := mb\<rparr>, Inl (InvalidArgument e))
         | (mb, None) \<Rightarrow> (s\<lparr>coMembership := mb\<rparr>, Inr (fst (sh_Snapshot (coShards s)))))"

definition GetShardMap :: "coordinator \<Rightarrow> get_shard_map_response" where
  "GetShardMap s = (case sh_Snapshot (coShards s) of (version, shards) \<Rightarrow>
     \<lparr>gmVersion = version, gmShards = shardInfoToProto shards, gmNodeAddresses = node_addrs (mb_All (coMembership s))\<rparr>)"

definition WhereIsLeader :: "string \<Rightarrow> coordinator \<Rightarrow> grpc_error + (string \<times> string \<times> uint64)" where
  "WhereIsLeader shardId s = (case LeaderFor (coShards s) shardId of
      Inl e \<Rightarrow> Inl (NotFoundErr e)
    | Inr leader \<Rightarrow>
        (case mb_Get (coMembership s) leader of
           Inl e \<Rightarrow> Inl InternalErr
         | Inr ns \<Rightarrow> Inr (leader, nsAddress ns, TermForShard (coTerms s) shardId)))"

definition coord_GetStatus :: "gotime \<Rightarrow> coordinator \<Rightarrow> uint64 \<times> node_status_response list \<times> proto_shard_info list" where
  "coord_GetStatus now s = (case sh_Snapshot (coShards s) of (version, shards) \<Rightarrow>
     (version, map (node_response now) (mb_All (coMembership s)), shardInfoToProto shards))"

definition grpc_NotifyLeader :: "string \<Rightarrow> string \<Rightarrow> uint64 \<Rightarrow> coordinator \<Rightarrow> coordinator \<times> (bool \<times> uint64)" where
  "grpc_NotifyLeader shardId leaderId t s = (case NotifyLeader shardId leaderId t (coShards s, coTerms s) of
     ((sm, ts), accepted) \<Rightarrow> (s\<lparr>coShards := sm, coTerms := ts\<rparr>, (accepted, TermForShard ts shardId)))"

section \<open>The invariant of the coordinator\<close>

definition mb_named :: "membership \<Rightarrow> bool" where
  "mb_named m \<longleftrightarrow> mb_wf m \<and> map_of (mbNodes m) [] = None"

definition coord_wf :: "coordinator \<Rightarrow> bool" where
  "coord_wf s \<longleftrightarrow> sh_wf (coShards s) \<and> mb_named (coMembership s) \<and> migs_ok (coMigrations s)"

lemma named_not_alive: "mb_named m \<Longrightarrow> \<not> alive m []"
  by (simp add: mb_named_def alive_def mb_Get_def)

lemma named_heartbeat: "RecordHeartbeat now n ss m = (m', e) \<Longrightarrow> mb_named m \<Longrightarrow> mb_named m'"
  using mb_wf_heartbeat [of m now n ss]
  by (auto simp: mb_named_def RecordHeartbeat_def gomap_simps split: option.splits)

lemma named_AddNode: "mb_named m \<Longrightarrow> nspID spec \<noteq> [] \<Longrightarrow> mb_named (AddNode spec m)"
  using mb_wf_AddNode [of m spec] by (auto simp: mb_named_def AddNode_def gomap_simps split: option.splits)

lemma named_Refresh: "mb_named m \<Longrightarrow> mb_named (fst (RefreshLiveness now m))"
  using mb_wf_Refresh [of m now] by (simp add: mb_named_def Refresh_get)

lemma named_New:
  assumes "\<forall>n\<in>set nodes. nspID n \<noteq> []"
  shows "mb_named (NewMembership nodes t)"
proof -
  have "map_of m [] = None \<Longrightarrow> map_of (fold (\<lambda>n m. gm_put (nspID n) (new_node n) m) nodes m) [] = None" for m
    using assms by (induction nodes arbitrary: m) (auto simp: gomap_simps)
  from this [of "[]"] mb_wf_New [of nodes t] show ?thesis by (simp add: mb_named_def NewMembership_def)
qed

inductive coord_step :: "coordinator \<Rightarrow> coordinator \<Rightarrow> bool" where
  co_heartbeat: "handleHeartbeat now b s = (s', r) \<Longrightarrow> coord_step s s'"
| co_grpc_heartbeat: "grpc_Heartbeat now n shs s = (s', r') \<Longrightarrow> coord_step s s'"
| co_notify: "handleNotifyLeader nb s = (s', u) \<Longrightarrow> coord_step s s'"
| co_grpc_notify: "grpc_NotifyLeader i l t s = (s', v) \<Longrightarrow> coord_step s s'"
| co_add_node: "handleAdminAddNode ab s = (s', u) \<Longrightarrow> coord_step s s'"
| co_migrate: "handleAdminMigrateShard mb s = (s', u) \<Longrightarrow> coord_step s s'"
| co_split: "handleAdminSplitShard sb s = (s', u) \<Longrightarrow> coord_step s s'"
| co_tick: "health_tick now s = (s', re) \<Longrightarrow> coord_step s s'"

inductive coord_steps :: "coordinator \<Rightarrow> coordinator \<Rightarrow> bool" where
  co_nil: "coord_steps s s"
| co_snoc: "coord_steps s s' \<Longrightarrow> coord_step s' s'' \<Longrightarrow> coord_steps s s''"

lemma NotifyLeader_wf: "sh_wf sm \<Longrightarrow> NotifyLeader i l t (sm, ts) = ((sm', ts'), ok) \<Longrightarrow> sh_wf sm'"
  using NotifyLeader_advances [of "(sm, ts)" i l t "(sm', ts')" ok] by simp

lemma AddShard_wf: "sh_wf sm \<Longrightarrow> leader_ok info \<Longrightarrow> sh_wf (fst (AddShard info sm))"
  using sh_wf_step [of sm "OpAddShard info"] by simp

lemma tick_wf:
  assumes "coord_wf s" "health_tick now s = (s', re)"
  shows "coord_wf s'"
proof -
  obtain mb changed where r: "RefreshLiveness now (coMembership s) = (mb, changed)" by fastforce
  obtain sm1 ts1 re1 where c: "(if changed \<noteq> [] then CheckAndReassign mb (coShards s, coTerms s) else ((coShards s, coTerms s), [])) = ((sm1, ts1), re1)"
    by (metis prod_cases3 surj_pair)
  obtain sm2 ts2 migs where m: "CheckMigrations mb ((sm1, ts1), coMigrations s) = ((sm2, ts2), migs)"
    by (metis prod_cases3 surj_pair)
  have "sh_wf sm1"
    using assms(1) c CheckAndReassign_wf [of "(coShards s, coTerms s)" mb "(sm1, ts1)" re1] by (auto simp: coord_wf_def split: if_splits)
  then have "sh_wf sm2 \<and> migs_ok migs"
    using assms(1) CheckMigrations_wf [of "((sm1, ts1), coMigrations s)" mb] m by (simp add: coord_wf_def mm_wf_def)
  moreover have "mb_named mb" using assms(1) named_Refresh [of "coMembership s" now] r by (simp add: coord_wf_def)
  ultimately show ?thesis using assms(2) r c m by (auto simp: health_tick_def Let_def coord_wf_def)
qed

lemma coord_step_wf: "coord_step s s' \<Longrightarrow> coord_wf s \<Longrightarrow> coord_wf s'"
proof (induction rule: coord_step.induct)
  case (co_heartbeat now b s s' r)
  then show ?case by (auto simp: handleHeartbeat_def coord_wf_def split: option.splits prod.splits dest: named_heartbeat)
next
  case (co_grpc_heartbeat now n shs s s' r)
  then show ?case by (auto simp: grpc_Heartbeat_def coord_wf_def Let_def split: option.splits prod.splits dest: named_heartbeat)
next
  case (co_notify nb s s' u)
  then show ?case by (auto simp: handleNotifyLeader_def coord_wf_def split: option.splits prod.splits if_splits intro: NotifyLeader_wf)
next
  case (co_grpc_notify i l t s s' v)
  then show ?case by (auto simp: grpc_NotifyLeader_def coord_wf_def split: prod.splits intro: NotifyLeader_wf)
next
  case (co_add_node ab s s' u)
  then show ?case by (auto simp: handleAdminAddNode_def coord_wf_def split: option.splits if_splits intro: named_AddNode)
next
  case (co_migrate mb s s' u)
  then show ?case
    by (auto simp: handleAdminMigrateShard_def coord_wf_def split: option.splits prod.splits if_splits dest: StartMigration_wf)
next
  case (co_split sb s s' u)
  then show ?case
    using AddShard_wf [of "coShards s" "\<lparr>siID = sqNewShardID (the sb), siReplicas = sqNewReplicas (the sb), siLeader = [],
      siBootstrapSourceShardID = sqSourceShardID (the sb), siIncomingReplicas = []\<rparr>"]
    by (auto simp: handleAdminSplitShard_def coord_wf_def leader_ok_def split: option.splits prod.splits if_splits sum.splits)
qed (rule tick_wf)

lemma init_shards_wf:
  "sh_wf (fst st) \<Longrightarrow> (\<forall>spec\<in>set specs. sspInitialLeader spec \<in> insert [] (set (sspReplicas spec))) \<Longrightarrow>
   sh_wf (fst (fst (init_shards specs st)))"
proof (induction specs st rule: init_shards.induct)
  case (2 spec specs sm ts)
  let ?info = "\<lparr>siID = sspID spec, siReplicas = sspReplicas spec, siLeader = sspInitialLeader spec,
    siBootstrapSourceShardID = [], siIncomingReplicas = []\<rparr>"
  obtain sm' e where a: "AddShard ?info sm = (sm', e)" by fastforce
  have "sh_wf sm'" using AddShard_wf [of sm ?info] 2(2,3) a by (auto simp: leader_ok_def)
  then show ?case using 2(1) [OF a [symmetric]] 2(3) a by (auto split: option.splits)
qed simp

text \<open>
  Property C7.  The coordinator's invariant: started from a valid configuration whose initial leaders
  are replicas of their shards, it keeps, through every sequence of heartbeats, election notices,
  admin requests and health ticks, a consistent shard map, membership and table of migrations; in
  particular a leader that it names is always a replica of its shard.
\<close>

theorem coordinator_invariant:
  assumes "cluster_ok cfg" "\<forall>spec\<in>set (clShards cfg). sspInitialLeader spec \<in> insert [] (set (sspReplicas spec))"
    and "coord_Init (coord_NewServer cfg) = (s\<^sub>0, e)" "coord_steps s\<^sub>0 s"
  shows "coord_wf s \<and> (WhereIsLeader i s = Inr (l, addr, t) \<longrightarrow> (\<exists>sh. sh_Get (coShards s) i = Inr sh \<and> HasReplica sh l \<and> l \<noteq> []))"
proof -
  have "coord_wf s\<^sub>0"
    using assms(1-3) named_New [of "clNodes cfg"] init_shards_wf [of "(shardmap_New, [])" "clShards cfg"]
    by (auto simp: coord_Init_def coord_NewServer_def InitFromConfig_def coord_wf_def cluster_ok_def migs_ok_def split: prod.splits option.splits)
  with assms(4) have wf: "coord_wf s" by (induction rule: coord_steps.induct) (auto intro: coord_step_wf)
  moreover have "\<exists>sh. sh_Get (coShards s) i = Inr sh \<and> HasReplica sh l \<and> l \<noteq> []" if "WhereIsLeader i s = Inr (l, addr, t)"
    using that wf sh_wf_get [of "coShards s" i]
    by (auto simp: WhereIsLeader_def LeaderFor_def sh_Get_def HasReplica_def leader_ok_def coord_wf_def split: option.splits if_splits sum.splits)
  ultimately show ?thesis by blast
qed

definition demo_cfg :: cluster_config where
  "demo_cfg = \<lparr>clCoordinator = \<lparr>ccAddress = ''c'', ccHeartbeatInterval = 10, ccHeartbeatIntervalMs = 0, ccFailureTimeout = 50, ccFailureTimeoutMs = 0\<rparr>,
     clNodes = [\<lparr>nspID = ''a'', nspAddress = ''h1''\<rparr>, \<lparr>nspID = ''b'', nspAddress = ''h2''\<rparr>],
     clShards = [\<lparr>sspID = ''s'', sspReplicas = [''a'', ''b''], sspInitialLeader = ''a''\<rparr>],
     clReplication = \<lparr>rpQuorumTimeoutMs = 0, rpMaxLagVersions = 0, rpMaxBufferedVersions = 0\<rparr>\<rparr>"

definition demo_coord :: coordinator where
  "demo_coord = fst (coord_Init (coord_NewServer demo_cfg))"

theorem coordinator_invariant_witness:
  "\<exists>s. coord_steps demo_coord s \<and> coord_wf s \<and> WhereIsLeader ''s'' s = Inr (''b'', ''h2'', 7) \<and>
     (\<exists>sh. sh_Get (coShards s) ''s'' = Inr sh \<and> HasReplica sh ''b'')"
proof -
  obtain s v where n: "grpc_NotifyLeader ''s'' ''b'' 7 demo_coord = (s, v)"
    by (cases "grpc_NotifyLeader ''s'' ''b'' 7 demo_coord")
  have "coord_steps demo_coord s" using n by (blast intro: co_nil co_snoc co_grpc_notify)
  moreover have "\<not> (7 :: uint64) \<le> 1" by (simp add: word_le_nat_alt)
  then have "WhereIsLeader ''s'' s = Inr (''b'', ''h2'', 7)"
    using n by (auto simp: grpc_NotifyLeader_def demo_coord_def demo_cfg_def coord_Init_def coord_NewServer_def InitFromConfig_def AddShard_def
        shardmap_New_def NotifyLeader_def SetLeader_def WhereIsLeader_def LeaderFor_def sh_Get_def mb_Get_def NewMembership_def new_node_def
        TermForShard_def gm_or0_def)
  moreover have "cluster_ok demo_cfg" "\<forall>spec\<in>set (clShards demo_cfg). sspInitialLeader spec \<in> insert [] (set (sspReplicas spec))"
    by (simp_all add: cluster_ok_def demo_cfg_def shard_spec_ok_def)
  moreover obtain e where "coord_Init (coord_NewServer demo_cfg) = (demo_coord, e)"
    by (cases "coord_Init (coord_NewServer demo_cfg)") (simp add: demo_coord_def)
  ultimately show ?thesis using coordinator_invariant [of demo_cfg demo_coord e s "''s''" "''b''" "''h2''" 7] by blast
qed

section \<open>Failover\<close>

definition led :: "membership \<Rightarrow> string \<Rightarrow> shard_map \<Rightarrow> bool" where
  "led mb i sm \<longleftrightarrow> (\<exists>s. map_of (shShards sm) i = Some s \<and> siLeader s \<noteq> [] \<and> alive mb (siLeader s))"

lemma led_reassign:
  "sh_wf sm \<Longrightarrow> \<not> alive mb [] \<Longrightarrow> led mb i sm \<Longrightarrow> CheckAndReassign mb (sm, ts) = ((sm', ts'), ch) \<Longrightarrow> led mb i sm'"
  using CheckAndReassign_get(1) [of sm mb ts sm' ts' ch i] by (auto simp: led_def reassigned_def needs_leader_def)

lemma led_finalise:
  assumes "mm_wf st" "\<not> alive mb []" "led mb i (fst (fst st))"
  shows "led mb i (fst (fst (check_pending mb m st)))"
proof (cases "allReady mb (mgShardID m) (mgNewReplicas m)")
  case True
  show ?thesis
  proof (cases "mgShardID m = i")
    case True
    have "map_of (shShards (fst (fst st))) (mgShardID m) \<noteq> None" using assms(3) True by (auto simp: led_def)
    then have "settled mb (mgShardID m) (mgNewReplicas m) (fst (fst (finaliseMigration mb m st)))"
      using finalise_own [OF assms(1,2)] \<open>allReady mb (mgShardID m) (mgNewReplicas m)\<close> by blast
    with True assms(2) \<open>allReady mb (mgShardID m) (mgNewReplicas m)\<close> show ?thesis by (auto simp: check_pending_def settled_def led_def)
  next
    case False
    obtain sm ts migs where st: "st = ((sm, ts), migs)" by (metis prod_cases3 surj_pair)
    obtain sm1 e1 where r: "SetReplicas (mgShardID m) (mgNewReplicas m) sm = (sm1, e1)" by fastforce
    obtain sm2 e2 where r2: "SetIncomingReplicas (mgShardID m) [] sm1 = (sm2, e2)" by fastforce
    have w: "sh_wf sm2" "led mb i sm1" "led mb i sm2"
      using assms False SetReplicas_wf [OF r] SetIncoming_wf [OF r2] r r2
      by (auto simp: mm_wf_def st led_def SetReplicas_def SetIncomingReplicas_def gomap_simps Let_def split: option.splits)
    obtain sm3 ts3 ch where c: "CheckAndReassign mb (sm2, ts) = ((sm3, ts3), ch)" by (cases "CheckAndReassign mb (sm2, ts)") auto
    show ?thesis using led_reassign [OF w(1) assms(2) w(3) c] w r r2 c assms(3)
      by (auto simp: check_pending_def finaliseMigration_def st Let_def split: option.splits)
  qed
qed (use assms in \<open>simp add: check_pending_def\<close>)

lemma led_split: "sh_wf (fst st) \<Longrightarrow> \<not> alive mb [] \<Longrightarrow> led mb i (fst st) \<Longrightarrow> led mb i (fst (check_split mb sh st))"
proof -
  assume wf: "sh_wf (fst st)" and na: "\<not> alive mb []" and l: "led mb i (fst st)"
  obtain sm1 e where r: "ClearBootstrapSource (siID sh) (fst st) = (sm1, e)" by fastforce
  have l1: "led mb i sm1" using r l by (auto simp: ClearBootstrapSource_def led_def gomap_simps split: option.splits if_splits)
  obtain sm2 ts2 ch where c: "CheckAndReassign mb (sm1, snd st) = ((sm2, ts2), ch)"
    by (cases "CheckAndReassign mb (sm1, snd st)") auto
  show ?thesis using led_reassign [OF ClearBootstrap_wf [OF r wf] na l1 c] l1 l r c by (auto simp: check_split_def split: option.splits)
qed

lemma led_CheckMigrations:
  assumes "mm_wf st" "\<not> alive mb []" "led mb i (fst (fst st))"
  shows "led mb i (fst (fst (CheckMigrations mb st)))"
proof -
  have "mm_wf (fold (check_pending mb) ms st) \<and> led mb i (fst (fst (fold (check_pending mb) ms st)))" for ms
    using assms(1,3)
  proof (induction ms arbitrary: st)
    case (Cons m ms)
    have "mm_wf (check_pending mb m st)" using pending_wf [OF Cons.prems(1), of mb "[m]"] by simp
    then show ?case using Cons.IH led_finalise [OF Cons.prems(1) assms(2) Cons.prems(2)] by simp
  qed simp
  moreover have "sh_wf (fst st') \<Longrightarrow> led mb i (fst st') \<Longrightarrow> led mb i (fst (fold (check_split mb) shs st'))" for shs st'
    by (induction shs arbitrary: st') (simp_all add: check_split_wf led_split assms(2))
  ultimately show ?thesis by (simp add: CheckMigrations_def Let_def mm_wf_def)
qed

text \<open>
  Property C9.  Failover: when the leader of a shard, alive until now, has missed its heartbeats for the
  failure timeout and another replica has not, the next health tick leaves the shard with an alive leader,
  whatever migrations and splits the tick completes.
\<close>

theorem failover:
  assumes wf: "coord_wf s" and l: "LeaderFor (coShards s) i = Inr l" "map_of (mbNodes (coMembership s)) l = Some nl" "nsIsAlive nl"
    and dead: "mbTimeout (coMembership s) \<le> time_sub now (nsLastHeartbeatAt nl)"
    and r: "sh_Get (coShards s) i = Inr sh" "HasReplica sh r" "map_of (mbNodes (coMembership s)) r = Some nr"
      "nsLastHeartbeatAt nr \<noteq> 0" "time_sub now (nsLastHeartbeatAt nr) < mbTimeout (coMembership s)"
    and tick: "health_tick now s = (s', re)"
  shows "\<exists>l'. LeaderFor (coShards s') i = Inr l' \<and> alive (coMembership s') l' \<and> l' \<noteq> l"
proof -
  obtain mb changed where rf: "RefreshLiveness now (coMembership s) = (mb, changed)" by fastforce
  have mbw: "mb_named mb" using wf named_Refresh [of "coMembership s" now] rf by (simp add: coord_wf_def)
  note na = named_not_alive [OF mbw]
  have get: "map_of (mbNodes mb) j = map_option (refresh_node now (mbTimeout (coMembership s))) (map_of (mbNodes (coMembership s)) j)" for j
    using Refresh_get [of now "coMembership s" j] rf by simp
  have al: "\<not> alive mb l" "alive mb r"
    using l dead r by (auto simp: alive_def mb_Get_def get refresh_node_def)
  have "(l, nl) \<in> set (filter (\<lambda>(k, n). nsIsAlive n \<noteq> nsIsAlive (refresh_node now (mbTimeout (coMembership s)) n)) (mbNodes (coMembership s)))"
    using l dead by (auto simp: refresh_node_def dest: map_of_SomeD)
  then have "snd (refresh_loop now (mbTimeout (coMembership s)) (mbNodes (coMembership s))) \<noteq> []"
    unfolding refresh_loop_changed list.map_disc_iff by (rule length_pos_if_in_set [THEN length_greater_0_conv [THEN iffD1]])
  then have "changed \<noteq> []" using rf by (auto simp: RefreshLiveness_def split: prod.splits)
  then obtain sm1 ts1 where c: "CheckAndReassign mb (coShards s, coTerms s) = ((sm1, ts1), re)"
      "(s', re) = (let ((sm2, ts2), migs) = CheckMigrations mb ((sm1, ts1), coMigrations s)
         in (s\<lparr>coMembership := mb, coShards := sm2, coTerms := ts2, coMigrations := migs\<rparr>, re))"
    using tick rf by (cases "CheckAndReassign mb (coShards s, coTerms s)") (auto simp: health_tick_def Let_def split: prod.splits)
  have sh: "map_of (shShards (coShards s)) i = Some sh" "siLeader sh = l" "l \<noteq> []"
    using l(1) r(1) by (auto simp: LeaderFor_def sh_Get_def split: option.splits if_splits)
  have "eligible mb sh r" using r(2) al sh by (auto simp: eligible_def HasReplica_def)
  then have n: "needs_leader mb sh" using needs_leader_iff [OF na, of sh] al sh by auto
  have w: "sh_wf (coShards s)" "migs_ok (coMigrations s)" using wf by (simp_all add: coord_wf_def)
  have "led mb i sm1"
    using CheckAndReassign_get(1) [OF w(1) na c(1), of i] sh(1) reassigned_best [OF na n] na
    by (auto simp: led_def eligible_def)
  moreover have "sh_wf sm1" using CheckAndReassign_wf [of "(coShards s, coTerms s)" mb "(sm1, ts1)" re] w(1) c(1) by simp
  ultimately have "led mb i (fst (fst (CheckMigrations mb ((sm1, ts1), coMigrations s))))"
    using led_CheckMigrations [of "((sm1, ts1), coMigrations s)" mb i] na w(2) by (simp add: mm_wf_def)
  then show ?thesis
    using c(2) al(1) by (auto simp: led_def LeaderFor_def sh_Get_def Let_def split: prod.splits)
qed

theorem failover_witness:
  "let s = demo_coord\<lparr>coMembership := \<lparr>mbNodes =
         [(''a'', \<lparr>nsID = ''a'', nsAddress = ''h1'', nsIsAlive = True, nsLastHeartbeatAt = 100, nsShardVersions = []\<rparr>),
          (''b'', \<lparr>nsID = ''b'', nsAddress = ''h2'', nsIsAlive = True, nsLastHeartbeatAt = 180, nsShardVersions = []\<rparr>)], mbTimeout = 50\<rparr>\<rparr>
   in \<exists>l'. LeaderFor (coShards s) ''s'' = Inr ''a'' \<and> LeaderFor (coShards (fst (health_tick 200 s))) ''s'' = Inr l' \<and> l' \<noteq> ''a''"
proof -
  let ?na = "\<lparr>nsID = ''a'', nsAddress = ''h1'', nsIsAlive = True, nsLastHeartbeatAt = 100, nsShardVersions = []\<rparr>"
  let ?nb = "\<lparr>nsID = ''b'', nsAddress = ''h2'', nsIsAlive = True, nsLastHeartbeatAt = 180, nsShardVersions = []\<rparr>"
  let ?s = "demo_coord\<lparr>coMembership := \<lparr>mbNodes = [(''a'', ?na), (''b'', ?nb)], mbTimeout = 50\<rparr>\<rparr>"
  let ?sh = "\<lparr>siID = ''s'', siReplicas = [''a'', ''b''], siLeader = ''a'', siBootstrapSourceShardID = [], siIncomingReplicas = []\<rparr>"
  have sm: "coShards ?s = \<lparr>shVersion = 1, shShards = [(''s'', ?sh)]\<rparr>" "coMigrations ?s = []"
    by (simp_all add: demo_coord_def demo_cfg_def coord_Init_def coord_NewServer_def InitFromConfig_def AddShard_def shardmap_New_def)
  have wf: "coord_wf ?s"
    using sm by (auto simp: coord_wf_def sh_wf_def gm_wf_def leader_ok_def mb_named_def mb_wf_def migs_ok_def split: if_splits)
  obtain s' re where t: "health_tick 200 ?s = (s', re)" by (cases "health_tick 200 ?s")
  have "LeaderFor (coShards ?s) ''s'' = Inr ''a''" "sh_Get (coShards ?s) ''s'' = Inr ?sh" "HasReplica ?sh ''b''"
    using sm by (simp_all add: LeaderFor_def sh_Get_def HasReplica_def)
  then show ?thesis
    using failover [OF wf, of "''s''" "''a''" ?na 200 ?sh "''b''" ?nb s' re] t by (auto simp: time_sub_def Let_def)
qed

section \<open>The status page and the gauges\<close>

lemma alive_set_get: "map_of (alive_set nodes) i = Some True \<longleftrightarrow> (\<exists>ns\<in>set nodes. nsID ns = i \<and> nsIsAlive ns)"
proof -
  have "map_of (fold (\<lambda>ns m. if nsIsAlive ns then gm_put (nsID ns) True m else m) nodes m) i = Some True \<longleftrightarrow>
      map_of m i = Some True \<or> (\<exists>ns\<in>set nodes. nsID ns = i \<and> nsIsAlive ns)" for m
    by (induction nodes arbitrary: m) (auto simp: gomap_simps)
  from this [of "[]"] show ?thesis by (simp add: alive_set_def)
qed

lemma lag_loop_count:
  "snd (lag_loop al vs lv reps lag n) = n + length (filter (\<lambda>rep. map_of al rep = Some True) reps)"
  by (induction al vs lv reps lag n rule: lag_loop.induct) (auto simp: Let_def)

lemma lag_loop_max:
  "lag \<le> fst (lag_loop al vs lv reps lag n) \<and> (\<forall>r\<in>set reps. gm_or0 vs r < lv \<longrightarrow> lv - gm_or0 vs r \<le> fst (lag_loop al vs lv reps lag n)) \<and>
   (fst (lag_loop al vs lv reps lag n) = lag \<or> (\<exists>r\<in>set reps. gm_or0 vs r < lv \<and> fst (lag_loop al vs lv reps lag n) = lv - gm_or0 vs r))"
proof (induction al vs lv reps lag n rule: lag_loop.induct)
  case (2 al vs lv rep reps lag n)
  let ?n' = "if map_of al rep = Some True then n + 1 else n" and ?v = "gm_or0 vs rep"
  note IH = 2 [OF refl refl]
  show ?case
  proof (cases "?v < lv \<and> lag < lv - ?v")
    case True
    then show ?thesis using IH by (auto simp: Let_def intro: order.trans less_imp_le)
  next
    case False
    then have "?v < lv \<Longrightarrow> lv - ?v \<le> lag" by (simp add: not_less)
    then show ?thesis using IH False by (auto simp: Let_def intro: order.trans)
  qed
qed simp

lemma versions_loop_eq:
  "map_of (fst (versions_loop mb sh reps vs lv)) r = (if r \<in> set reps then Some (VersionForShard mb r (siID sh)) else map_of vs r) \<and>
   snd (versions_loop mb sh reps vs lv) = (if siLeader sh \<in> set reps then VersionForShard mb (siLeader sh) (siID sh) else lv)"
  by (induction mb sh reps vs lv rule: versions_loop.induct) (auto simp: Let_def gomap_simps)

text \<open>
  The status page and the gauges agree and are right: the shards that \<^verbatim>\<open>GET /status\<close> shows with
  an alive quorum are as many as the gauge counts, and they are those whose alive replicas are a
  majority of their replicas.
\<close>

theorem status_matches_gauges:
  "let live = nsID ` set (filter nsIsAlive (mb_All (coMembership s)));
       flags = map (\<lambda>sh. length (siReplicas sh) < 2 * length (filter (\<lambda>i. i \<in> live) (siReplicas sh))) (snd (sh_Snapshot (coShards s)))
   in map srQuorumAlive (csShards (coord_handleStatus now s)) = flags \<and>
      gShardsQuorumAvailable (refreshMetrics s) = length (filter id flags)"
proof -
  have l: "i \<in> nsID ` set (filter nsIsAlive nodes) \<longleftrightarrow> (\<exists>ns\<in>set nodes. nsID ns = i \<and> nsIsAlive ns)" for i nodes by auto
  have q: "srQuorumAlive (shard_response mb ts (alive_set nodes) sh) \<longleftrightarrow>
      si_Quorum sh \<le> length (filter (\<lambda>i. \<exists>ns\<in>set nodes. nsID ns = i \<and> nsIsAlive ns) (siReplicas sh))" for mb ts nodes sh
    using lag_loop_count [of "alive_set nodes" "fst (versions_loop mb sh (siReplicas sh) [] 0)" "snd (versions_loop mb sh (siReplicas sh) [] 0)" "siReplicas sh" 0 0]
    by (simp add: shard_response_def Let_def split_def alive_set_get)
  have h: "si_Quorum sh \<le> n \<longleftrightarrow> length (siReplicas sh) < 2 * n" for sh n by (auto simp: si_Quorum_def)
  show ?thesis
    by (simp only: Let_def l) (simp add: coord_handleStatus_def refreshMetrics_def sh_Snapshot_def Let_def filter_map comp_def q h list_ex_iff)
qed

text \<open>
  The replication lag on the status page is exact: no replica is behind the reported version
  of the leader by more than the lag, and a lag above zero is reached by one of them.
\<close>

theorem status_lag_exact:
  assumes "r \<in> set (csShards (coord_handleStatus now s))" "siLeader (srInfo r) \<in> set (siReplicas (srInfo r))"
  shows "(\<forall>p\<in>set (siReplicas (srInfo r)).
      unat (VersionForShard (coMembership s) (siLeader (srInfo r)) (siID (srInfo r))) - unat (VersionForShard (coMembership s) p (siID (srInfo r)))
        \<le> unat (srMaxReplicationLag r)) \<and>
    (srMaxReplicationLag r \<noteq> 0 \<longrightarrow> (\<exists>p\<in>set (siReplicas (srInfo r)).
      srMaxReplicationLag r = VersionForShard (coMembership s) (siLeader (srInfo r)) (siID (srInfo r)) - VersionForShard (coMembership s) p (siID (srInfo r))))"
proof -
  obtain sh where r: "r = shard_response (coMembership s) (coTerms s) (alive_set (mb_All (coMembership s))) sh"
    using assms(1) by (auto simp: coord_handleStatus_def sh_Snapshot_def Let_def)
  let ?vl = "versions_loop (coMembership s) sh (siReplicas sh) [] 0" and ?V = "\<lambda>p. VersionForShard (coMembership s) p (siID sh)"
  have i: "srInfo r = sh" "srMaxReplicationLag r = fst (lag_loop (alive_set (mb_All (coMembership s))) (fst ?vl) (snd ?vl) (siReplicas sh) 0 0)"
    by (simp_all add: r shard_response_def Let_def split_def)
  have v: "snd ?vl = ?V (siLeader sh)" "\<And>p. p \<in> set (siReplicas sh) \<Longrightarrow> gm_or0 (fst ?vl) p = ?V p"
    using assms(2) i(1) versions_loop_eq [of "coMembership s" sh "siReplicas sh" "[]" 0] by (simp_all add: gm_or0_def)
  note m = lag_loop_max [of 0 "alive_set (mb_All (coMembership s))" "fst ?vl" "snd ?vl" "siReplicas sh" 0, folded i(2)]
  have "unat (?V (siLeader sh)) - unat (?V p) \<le> unat (srMaxReplicationLag r)" if "p \<in> set (siReplicas sh)" for p
  proof (cases "?V p < ?V (siLeader sh)")
    case True
    then have "?V (siLeader sh) - ?V p \<le> srMaxReplicationLag r" using m v that by auto
    then show ?thesis using unat_sub [OF less_imp_le [OF True]] by (simp add: word_le_nat_alt)
  next
    case False
    then show ?thesis by (simp add: not_less word_le_nat_alt)
  qed
  with m v i(1) show ?thesis by auto
qed

theorem status_lag_exact_witness:
  "\<exists>r. csShards (coord_handleStatus 5 (demo_coord\<lparr>coMembership := demo_lag, coShards := demo_shards\<rparr>)) = [r] \<and> srMaxReplicationLag r = 99 \<and>
     unat (VersionForShard demo_lag ''a'' ''s'') - unat (VersionForShard demo_lag ''b'' ''s'') \<le> unat (srMaxReplicationLag r)"
proof -
  let ?s = "demo_coord\<lparr>coMembership := demo_lag, coShards := demo_shards\<rparr>"
  let ?r = "shard_response demo_lag (coTerms demo_coord) (alive_set (mb_All demo_lag)) demo_info"
  have c: "csShards (coord_handleStatus 5 ?s) = [?r]"
    by (simp add: coord_handleStatus_def sh_Snapshot_def demo_shards_def Let_def)
  have v: "VersionForShard demo_lag ''a'' ''s'' = 100" "VersionForShard demo_lag ''b'' ''s'' = 1" "VersionForShard demo_lag ''c'' ''s'' = 1"
    by (simp_all add: demo_lag_def VersionForShard_def gm_or0_def)
  have i: "srInfo ?r = demo_info" "srMaxReplicationLag ?r = 99"
    using v by (simp_all add: shard_response_def demo_info_def Let_def gm_or0_def word_less_nat_alt split: prod.split)
  show ?thesis using status_lag_exact [of ?r 5 ?s] c i by (simp add: demo_info_def)
qed

end
