(* ===== verification/NodeServer.thy ===== *)
theory NodeServer
  imports Election Coordinator
begin

text \<open>
  The node's server, \<^verbatim>\<open>node/server.go\<close>, the conversions of \<^verbatim>\<open>node/grpc_client.go\<close> and the remaining handlers of
  \<^verbatim>\<open>node/grpc.go\<close> and \<^verbatim>\<open>node/election.go\<close>: the table of replicas, initialisation from the shard map and from
  disk, adoption of a new shard map, heartbeats to the coordinator, and the lookup of the replica in front
  of each handler.  The disk state of a shard is the one its state machine holds.  Cancel functions
  are the list of shards whose background loops run.
\<close>

record node =
  ndCfg :: node_config
  ndReplicas :: "(string, replica) gomap"
  ndNodeAddresses :: "(string, string) gomap"
  ndShardLeaders :: "(string, string) gomap"
  ndShardMapVersion :: uint64
  ndStartedAt :: gotime
  ndServing :: bool
  ndCancel :: "string list"

text \<open>What the operating system and the random number generator contribute while a shard is initialised.\<close>

record init_io =
  inMkdir :: io
  inOpen :: io
  inRead :: "nat \<Rightarrow> io"
  inWal :: io
  inRand :: int

definition init_io_ok :: init_io where
  "init_io_ok = \<lparr>inMkdir = IoOk, inOpen = IoOk, inRead = (\<lambda>_. IoOk), inWal = IoOk, inRand = 0\<rparr>"

definition node_NewServer :: "node_config \<Rightarrow> gotime \<Rightarrow> node" where
  "node_NewServer cfg now = \<lparr>ndCfg = EnsureDefaults cfg, ndReplicas = [], ndNodeAddresses = [], ndShardLeaders = [],
     ndShardMapVersion = 0, ndStartedAt = now, ndServing = False, ndCancel = []\<rparr>"

abbreviation nodeID :: "node \<Rightarrow> string" where
  "nodeID n \<equiv> nspID (ncNode (ndCfg n))"

definition shardDataDir :: "string \<Rightarrow> string \<Rightarrow> string" where
  "shardDataDir dataDir shardID = dataDir @ ''/shards/'' @ shardID"

definition close_replica :: "replica \<Rightarrow> replica" where
  "close_replica r = r\<lparr>rSM := (rSM r)\<lparr>smDs := map_option ds_close (smDs (rSM r))\<rparr>\<rparr>"

definition node_Close :: "node \<Rightarrow> node" where
  "node_Close n = n\<lparr>ndReplicas := map (\<lambda>(k, r). (k, close_replica r)) (ndReplicas n)\<rparr>"

section \<open>Initialising a shard\<close>

definition shard_peers :: "string \<Rightarrow> shard_info \<Rightarrow> string list" where
  "shard_peers me shard = filter (\<lambda>r. r \<noteq> me) (siReplicas shard)"

definition restore_disk :: "init_io \<Rightarrow> node_config \<Rightarrow> string \<Rightarrow> replica \<Rightarrow> fs \<Rightarrow> fs \<times> replica" where
  "restore_disk io cfg shardID r fs =
     (if ncDataDir cfg = [] then (fs, r)
      else (case openDiskState (inMkdir io) (inOpen io) (shardDataDir (ncDataDir cfg) shardID)
                   (ncSnapshotInterval cfg) (ncSnapshotRetention cfg) fs of
              (fs', Inl e) \<Rightarrow> (fs', r)
            | (fs', Inr ds) \<Rightarrow>
                let r1 = r\<lparr>rSM := sm_SetDiskState (rSM r) ds\<rparr> in
                (case ds_load (inRead io) (inWal io) ds fs' of
                   Inl e \<Rightarrow> (fs', r1)
                 | Inr loaded \<Rightarrow>
                     if \<not> dValid loaded then (fs', r1)
                     else (case sm_ApplySnapshot disk_io_ok (rSM r1)
                                 \<lparr>snTerm = dTerm loaded, snVersion = dVersion loaded, snKV = dKV loaded\<rparr> SnapshotNoPersist fs' of
                             (fs'', sm', Some e) \<Rightarrow> (fs'', r1\<lparr>rSM := sm', rBootstrapShardID := [], rBootstrapLeaderAddr := []\<rparr>)
                           | (fs'', sm', None) \<Rightarrow>
                               (fs'', r1\<lparr>rSM := sm', rIsReady := True, rRecoveryState := RecoveryStateHealthy,
                                         rBootstrapShardID := [], rBootstrapLeaderAddr := []\<rparr>)))))"

definition bootstrap_addr :: "string \<Rightarrow> shard_map_response \<Rightarrow> string" where
  "bootstrap_addr src resp = (case find (\<lambda>sh. siID sh = src \<and> siLeader sh \<noteq> []) (smrShards resp) of
      None \<Rightarrow> []
    | Some sh \<Rightarrow> (case gm_get (smrNodeAddresses resp) (siLeader sh) of None \<Rightarrow> [] | Some a \<Rightarrow> a))"

definition init_replica :: "init_io \<Rightarrow> gotime \<Rightarrow> shard_info \<Rightarrow> shard_map_response \<Rightarrow> node \<Rightarrow> replica" where
  "init_replica io now shard resp n =
     (let cfg = ndCfg n; me = nodeID n; peers = shard_peers me shard;
          r0 = NewReplicaState (siID shard) me peers (ncReplicationLogSize cfg)
                 (electionTimeout (ncElectionTimeoutMin cfg) (ncElectionTimeoutMax cfg) (inRand io));
          r1 = r0\<lparr>rPeerLastContact := fold (\<lambda>p m. gm_put p now m) peers (rPeerLastContact r0)\<rparr>;
          r2 = (if siLeader shard = me then
                  (let l = r1\<lparr>rRole := RoleLeader\<rparr> in
                   if siBootstrapSourceShardID shard = [] then l\<lparr>rIsReady := True, rRecoveryState := RecoveryStateHealthy\<rparr> else l)
                else r1);
          r3 = r2\<lparr>rLeaderID := siLeader shard, rShardMapVersion := ndShardMapVersion n\<rparr>
      in if siBootstrapSourceShardID shard \<noteq> [] then
           r3\<lparr>rBootstrapShardID := siBootstrapSourceShardID shard,
              rBootstrapLeaderAddr := bootstrap_addr (siBootstrapSourceShardID shard) resp\<rparr>
         else r3)"

definition initShardLocked :: "init_io \<Rightarrow> gotime \<Rightarrow> shard_info \<Rightarrow> shard_map_response \<Rightarrow> node \<times> fs \<Rightarrow> node \<times> fs" where
  "initShardLocked io now shard resp st = (case st of (n, fs) \<Rightarrow>
     (case gm_get (ndReplicas n) (siID shard) of
        Some r \<Rightarrow> (n, fs)
      | None \<Rightarrow>
          (case restore_disk io (ndCfg n) (siID shard) (init_replica io now shard resp n) fs of
             (fs', r) \<Rightarrow> (n\<lparr>ndReplicas := gm_put (siID shard) r (ndReplicas n)\<rparr>, fs'))))"

definition InitShards :: "(string \<Rightarrow> init_io) \<Rightarrow> gotime \<Rightarrow> shard_map_response \<Rightarrow> node \<times> fs \<Rightarrow> node \<times> fs" where
  "InitShards io now resp st = (case st of (n, fs) \<Rightarrow>
     fold (\<lambda>shard st. if \<not> HasReplica shard (nodeID n) then st else initShardLocked (io (siID shard)) now shard resp st)
       (smrShards resp) (n\<lparr>ndNodeAddresses := smrNodeAddresses resp, ndShardMapVersion := smrVersion resp\<rparr>, fs))"

section \<open>Background loops\<close>

definition seed_contact :: "gotime \<Rightarrow> replica \<Rightarrow> replica" where
  "seed_contact now r = r\<lparr>rLastLeaderContact := now\<rparr>"

definition startShardGoroutines :: "gotime \<Rightarrow> string \<Rightarrow> node \<Rightarrow> node" where
  "startShardGoroutines now shardID n = (case gm_get (ndReplicas n) shardID of
      None \<Rightarrow> n
    | Some r \<Rightarrow>
        if \<not> ndServing n then n
        else n\<lparr>ndReplicas := gm_put shardID (seed_contact now r) (ndReplicas n), ndCancel := List.insert shardID (ndCancel n)\<rparr>)"

definition startBackgroundJobs :: "gotime \<Rightarrow> node \<Rightarrow> node" where
  "startBackgroundJobs now n = n\<lparr>ndServing := True,
     ndReplicas := map (\<lambda>(k, r). (k, seed_contact now r)) (ndReplicas n),
     ndCancel := fold (\<lambda>(k, r) c. List.insert (rShardID r) c) (ndReplicas n) (ndCancel n)\<rparr>"

definition dropShard :: "string \<Rightarrow> node \<Rightarrow> node" where
  "dropShard shardID n = n\<lparr>ndCancel := removeAll shardID (ndCancel n), ndReplicas := gm_del shardID (ndReplicas n),
     ndShardLeaders := gm_del shardID (ndShardLeaders n)\<rparr>"

definition leaderAddrForReplica :: "replica \<Rightarrow> node \<Rightarrow> string" where
  "leaderAddrForReplica r n = (if rLeaderID r = [] then []
     else (case gm_get (ndNodeAddresses n) (rLeaderID r) of None \<Rightarrow> [] | Some a \<Rightarrow> a))"

section \<open>Conversions of the coordinator's answers\<close>

definition shardInfoFromProto :: "proto_shard_info list \<Rightarrow> shard_info list" where
  "shardInfoFromProto shards = map (\<lambda>sh. \<lparr>siID = psShardId sh, siReplicas = psReplicas sh, siLeader = psLeader sh,
     siBootstrapSourceShardID = [], siIncomingReplicas = []\<rparr>) shards"

definition shardMapResponseFromProto :: "get_shard_map_response option \<Rightarrow> shard_map_response" where
  "shardMapResponseFromProto resp = (case resp of
      None \<Rightarrow> \<lparr>smrVersion = 0, smrShards = [], smrNodeAddresses = []\<rparr>
    | Some p \<Rightarrow> \<lparr>smrVersion = gmVersion p, smrShards = shardInfoFromProto (gmShards p), smrNodeAddresses = gmNodeAddresses p\<rparr>)"

definition shardHeartbeatsFromStatus :: "shard_status list \<Rightarrow> shard_heartbeat list" where
  "shardHeartbeatsFromStatus shards = map (\<lambda>sh. \<lparr>phShardId = ssShardID sh, phRole = ssRole sh, phTerm = ssTerm sh,
     phVersion = ssVersion sh, phIsReady = ssIsReady sh\<rparr>) shards"

definition grpcDeadline :: "duration \<Rightarrow> duration" where
  "grpcDeadline timeout = (if timeout \<le> 0 then 2 * 1000000000 else timeout)"

fun role_string :: "role \<Rightarrow> string" where
  "role_string RoleLeader = ''LEADER''"
| "role_string RoleFollower = ''FOLLOWER''"
| "role_string RoleUnknown = ''UNKNOWN''"

section \<open>Adopting a shard map\<close>

definition adopt_shard :: "gotime \<Rightarrow> string \<Rightarrow> uint64 \<Rightarrow> shard_info \<Rightarrow> replica \<Rightarrow> replica" where
  "adopt_shard now me version shard r0 =
     (let oldLeader = rLeaderID r0; peers = shard_peers me shard;
          peerLast = fold (\<lambda>p m. gm_put p (case gm_get (rPeerLastContact r0) p of Some t \<Rightarrow> t | None \<Rightarrow> now) m) peers [];
          r1 = r0\<lparr>rLeaderID := siLeader shard, rPeers := peers, rPeerLastContact := peerLast\<rparr>;
          r2 = (if siLeader shard = me \<and> rRole r1 \<noteq> RoleLeader then
                  (let l = r1\<lparr>rRole := RoleLeader\<rparr> in
                   if rBootstrapShardID l = [] then l\<lparr>rIsReady := True, rRecoveryState := RecoveryStateHealthy\<rparr> else l)
                else if siLeader shard \<noteq> me \<and> rRole r1 = RoleLeader then r1\<lparr>rRole := RoleFollower\<rparr>
                else r1);
          r3 = (if rLeaderID r2 \<noteq> oldLeader then r2\<lparr>rLastLeaderContact := now\<rparr> else r2)
      in r3\<lparr>rShardMapVersion := version\<rparr>)"

definition refetch_step :: "(string \<Rightarrow> init_io) \<Rightarrow> gotime \<Rightarrow> shard_map_response \<Rightarrow> string \<times> shard_info
    \<Rightarrow> (node \<times> fs) \<times> string list \<Rightarrow> (node \<times> fs) \<times> string list" where
  "refetch_step io now resp ks x = (case ks of (shardID, shard) \<Rightarrow> (case x of ((n, fs), new) \<Rightarrow>
     (case gm_get (ndReplicas n) shardID of
        Some r \<Rightarrow> ((n\<lparr>ndReplicas := gm_put shardID (adopt_shard now (nodeID n) (ndShardMapVersion n) shard r) (ndReplicas n)\<rparr>, fs), new)
      | None \<Rightarrow> (initShardLocked (io shardID) now shard resp (n, fs), new @ [shardID]))))"

text \<open>\<open>reply\<close> is the reply to \<^verbatim>\<open>GetShardMap\<close>; \<open>None\<close> stands for a failed dial or call.\<close>

definition refetchShardMap :: "(string \<Rightarrow> init_io) \<Rightarrow> gotime \<Rightarrow> get_shard_map_response option \<Rightarrow> node \<times> fs \<Rightarrow> node \<times> fs" where
  "refetchShardMap io now reply st = (case reply of
      None \<Rightarrow> st
    | Some p \<Rightarrow> (case st of (n, fs) \<Rightarrow>
        let resp = shardMapResponseFromProto (Some p);
            shouldHost = fold (\<lambda>sh m. if HasReplica sh (nodeID n) then gm_put (siID sh) sh m else m) (smrShards resp) [];
            n1 = n\<lparr>ndNodeAddresses := smrNodeAddresses resp, ndShardMapVersion := smrVersion resp,
                   ndShardLeaders := fold (\<lambda>sh m. gm_put (siID sh) (siLeader sh) m) (smrShards resp) (ndShardLeaders n)\<rparr>;
            toRemove = filter (\<lambda>k. gm_get shouldHost k = None) (map fst (ndReplicas n1));
            ((n2, fs2), newIDs) = fold (refetch_step io now resp) shouldHost ((n1, fs), []);
            n3 = fold (startShardGoroutines now) newIDs n2
        in (fold dropShard toRemove n3, fs2)))"

section \<open>Heartbeats to the coordinator\<close>

definition heartbeat_shards :: "gotime \<Rightarrow> node \<Rightarrow> shard_status list" where
  "heartbeat_shards now n = map (\<lambda>(k, r). let snap = StatusSnapshot now r in
     \<lparr>ssShardID = stShardID snap, ssRole = role_string (stRole snap), ssVersion = stVersion snap,
      ssIsReady = stIsReady snap, ssTerm = stTerm snap\<rparr>) (ndReplicas n)"

text \<open>
  \<open>send\<close> is the call of \<^verbatim>\<open>Heartbeat\<close>, from the node's identity and its shards to the version in the reply, \<open>None\<close>
  when dialling or the call fails; \<open>reply\<close> is the shard map that a following refetch receives.
\<close>

definition sendHeartbeat :: "(string \<Rightarrow> init_io) \<Rightarrow> gotime \<Rightarrow> (string \<Rightarrow> shard_heartbeat list \<Rightarrow> uint64 option) \<Rightarrow>
    get_shard_map_response option \<Rightarrow> node \<times> fs \<Rightarrow> node \<times> fs" where
  "sendHeartbeat io now send reply st = (case st of (n, fs) \<Rightarrow>
     (case send (nodeID n) (shardHeartbeatsFromStatus (heartbeat_shards now n)) of
        None \<Rightarrow> st
      | Some v \<Rightarrow> if ndShardMapVersion n < v then refetchShardMap io now reply st else st))"

section \<open>Handlers behind the replica table\<close>

text \<open>
  Every gRPC handler first looks the replica up; \<^verbatim>\<open>NotFound\<close> is the answer when the node does not host
  the shard.  The handlers proper are in the theories \<open>Replica\<close> and \<open>LeaderWrite\<close>.
\<close>

definition with_replica :: "string \<Rightarrow> (replica \<Rightarrow> fs \<Rightarrow> fs \<times> replica \<times> 'a) \<Rightarrow> node \<times> fs \<Rightarrow> (node \<times> fs) \<times> (rpc_error + 'a)" where
  "with_replica shardID f st = (case st of (n, fs) \<Rightarrow>
     (case gm_get (ndReplicas n) shardID of
        None \<Rightarrow> (st, Inl NotFound)
      | Some r \<Rightarrow> (case f r fs of (fs', r', x) \<Rightarrow> ((n\<lparr>ndReplicas := gm_put shardID r' (ndReplicas n)\<rparr>, fs'), Inr x))))"

definition node_Put :: "write_env \<Rightarrow> string \<Rightarrow> string \<Rightarrow> string \<Rightarrow> node \<times> fs \<Rightarrow> (node \<times> fs) \<times> (rpc_error + put_result)" where
  "node_Put w shardID key v st = with_replica shardID (replica_Put w (ndShardMapVersion (fst st)) (ndNodeAddresses (fst st)) key v) st"

datatype delete_result = DELETE_OK uint64 int | DELETE_NOT_LEADER string | DELETE_NOT_READY | DELETE_QUORUM_UNAVAILABLE

fun mapWriteResult :: "put_result \<Rightarrow> delete_result" where
  "mapWriteResult (PUT_OK v q) = DELETE_OK v q"
| "mapWriteResult (PUT_NOT_LEADER h) = DELETE_NOT_LEADER h"
| "mapWriteResult PUT_QUORUM_UNAVAILABLE = DELETE_QUORUM_UNAVAILABLE"
| "mapWriteResult PUT_NOT_READY = DELETE_NOT_READY"

definition node_Delete :: "write_env \<Rightarrow> string \<Rightarrow> string \<Rightarrow> node \<times> fs \<Rightarrow> (node \<times> fs) \<times> (rpc_error + delete_result)" where
  "node_Delete w shardID key st =
     (case with_replica shardID (replica_Delete w (ndShardMapVersion (fst st)) (ndNodeAddresses (fst st)) key) st of
        (st', Inl e) \<Rightarrow> (st', Inl e)
      | (st', Inr res) \<Rightarrow> (st', Inr (mapWriteResult res)))"

definition node_Get :: "gotime \<Rightarrow> string \<Rightarrow> string \<Rightarrow> node \<Rightarrow> rpc_error + get_result" where
  "node_Get now shardID key n = (case gm_get (ndReplicas n) shardID of None \<Rightarrow> Inl NotFound | Some r \<Rightarrow> Inr (Get now key r))"

definition node_Replicate :: "write_io \<Rightarrow> gotime \<Rightarrow> string \<Rightarrow> replicate_request \<Rightarrow> node \<times> fs
    \<Rightarrow> (node \<times> fs) \<times> (rpc_error + (rpc_error + replicate_response))" where
  "node_Replicate io now shardID req st = with_replica shardID (Replicate io now req) st"

definition node_ForceRecover :: "gotime \<Rightarrow> string \<Rightarrow> node \<times> fs \<Rightarrow> (node \<times> fs) \<times> (rpc_error + unit)" where
  "node_ForceRecover now shardID st = with_replica shardID (\<lambda>r fs. (fs, ForceRecover now r, ())) st"

definition node_RequestVote :: "gotime \<Rightarrow> string \<Rightarrow> vote_request \<Rightarrow> node \<times> fs \<Rightarrow> (node \<times> fs) \<times> (rpc_error + vote_response)" where
  "node_RequestVote now shardID req st =
     with_replica shardID (\<lambda>r fs. case RequestVote now req r of (r', resp) \<Rightarrow> (fs, r', resp)) st"

definition node_LeaderHeartbeat :: "gotime \<Rightarrow> string \<Rightarrow> heartbeat_request \<Rightarrow> node \<times> fs \<Rightarrow> (node \<times> fs) \<times> (rpc_error + uint64)" where
  "node_LeaderHeartbeat now shardID req st =
     with_replica shardID (\<lambda>r fs. case LeaderHeartbeat now req r of (r', t) \<Rightarrow> (fs, r', t)) st"

record node_status_page =
  npNodeID :: string
  npUptime :: duration
  npShardMapVersion :: uint64
  npShards :: "replica_status list"

definition node_handleStatus :: "gotime \<Rightarrow> node \<Rightarrow> node_status_page" where
  "node_handleStatus now n = \<lparr>npNodeID = nodeID n, npUptime = time_sub now (ndStartedAt n),
     npShardMapVersion = ndShardMapVersion n, npShards = map (\<lambda>(k, r). StatusSnapshot now r) (ndReplicas n)\<rparr>"

definition node_GetStatus :: "gotime \<Rightarrow> node \<Rightarrow> node_status_page" where
  "node_GetStatus now n = (let shards = map (\<lambda>(k, r). StatusSnapshot now r) (ndReplicas n)
     in \<lparr>npNodeID = nodeID n, npUptime = time_sub now (ndStartedAt n), npShardMapVersion = ndShardMapVersion n, npShards = shards\<rparr>)"

definition node_handleReady :: "gotime \<Rightarrow> node \<Rightarrow> bool" where
  "node_handleReady now n = list_all (\<lambda>(k, r). stIsReady (StatusSnapshot now r)) (ndReplicas n)"

section \<open>HTTP handlers of recovery and election\<close>

text \<open>
  The bodies decode from JSON; \<open>None\<close> is one that does not.  \<^verbatim>\<open>handleRecover\<close> ignores the error of
  \<^verbatim>\<open>strconv.ParseUint\<close>, which returns 0 on a syntax error and the largest value on overflow.
\<close>

fun parse_uint_loop :: "string \<Rightarrow> nat \<Rightarrow> uint64" where
  "parse_uint_loop [] n = of_nat n"
| "parse_uint_loop (c # cs) n =
     (if \<not> is_dec_digit c then 0
      else let m = n * 10 + (of_char c - 48) in if 2 ^ 64 \<le> m then - 1 else parse_uint_loop cs m)"

definition parse_since :: "string \<Rightarrow> uint64" where
  "parse_since s = (if s = [] then 0 else parse_uint_loop s 0)"

record http_recover_response =
  hrType :: string
  hrVersion :: uint64
  hrEntries :: "entry list"
  hrTerm :: uint64
  hrKV :: "(string, string) gomap"

definition handleRecover :: "string \<Rightarrow> replica \<Rightarrow> rpc_error + http_recover_response" where
  "handleRecover since r =
     (if rRole r \<noteq> RoleLeader then Inl FailedPrecondition
      else
        let sinceVersion = parse_since since; snap = sm_Snapshot (rSM r); leaderVersion = snVersion snap;
            base = \<lparr>hrType = [], hrVersion = leaderVersion, hrEntries = [], hrTerm = 0, hrKV = []\<rparr>;
            full = base\<lparr>hrType := ''snapshot'', hrTerm := snTerm snap, hrKV := snKV snap\<rparr> in
        if leaderVersion < sinceVersion then Inr full
        else if leaderVersion = sinceVersion then Inr (base\<lparr>hrType := ''entries''\<rparr>)
        else (case sm_EntriesSince (rSM r) sinceVersion of (es, ok) \<Rightarrow>
                if ok \<and> (es \<noteq> [] \<or> leaderVersion = sinceVersion)
                then Inr (base\<lparr>hrType := ''entries'', hrEntries := es\<rparr>)
                else Inr full))"

definition handleForceRecover :: "gotime \<Rightarrow> replica \<Rightarrow> replica" where
  "handleForceRecover now r = r\<lparr>rIsReady := False, rRecoveryState := RecoveryStateLagging,
     rRecoverySource := recoverySourceLeader (rLeaderID r), rSM := sm_ResetLog (rSM r), rLastLeaderContact := now\<rparr>"

definition handleLeaderHeartbeat :: "gotime \<Rightarrow> heartbeat_request option \<Rightarrow> replica \<Rightarrow> replica \<times> uint64 option" where
  "handleLeaderHeartbeat now body r = (case body of
      None \<Rightarrow> (r, None)
    | Some req \<Rightarrow>
        if hbTerm req < rTerm r then (r, Some (rTerm r))
        else let r1 = (if rTerm r < hbTerm req then (set_term (hbTerm req) r)\<lparr>rRole := RoleFollower\<rparr> else r);
                 r2 = r1\<lparr>rLeaderID := hbLeaderID req, rLastLeaderContact := now\<rparr>
             in (r2, Some (rTerm r2)))"

definition handleRequestVote :: "gotime \<Rightarrow> vote_request option \<Rightarrow> replica \<Rightarrow> replica \<times> vote_response option" where
  "handleRequestVote now body r = (case body of
      None \<Rightarrow> (r, None)
    | Some req \<Rightarrow>
        if vqTerm req < rTerm r then (r, Some \<lparr>vsTerm = rTerm r, vsGranted = False\<rparr>)
        else
          let higher = rTerm r < vqTerm req;
              r1 = (if higher then (set_term (vqTerm req) r)\<lparr>rVotedFor := [], rVotedForTerm := 0, rRole := RoleFollower\<rparr> else r);
              myTerm = (if higher then vqTerm req else rTerm r) in
          if rVotedForTerm r1 = vqTerm req \<and> rVotedFor r1 \<noteq> [] \<and> rVotedFor r1 \<noteq> vqCandidateID req
          then (r1, Some \<lparr>vsTerm = myTerm, vsGranted = False\<rparr>)
          else if vqVersion req < rVersion r1 then (r1, Some \<lparr>vsTerm = myTerm, vsGranted = False\<rparr>)
          else (r1\<lparr>rVotedFor := vqCandidateID req, rVotedForTerm := vqTerm req, rLastLeaderContact := now\<rparr>,
                Some \<lparr>vsTerm = myTerm, vsGranted = True\<rparr>))"

text \<open>The reply over HTTP, read as the message of the gRPC service.\<close>

definition recover_to_proto :: "http_recover_response \<Rightarrow> recover_response" where
  "recover_to_proto h = \<lparr>rcType = (if hrType h = ''entries'' then TYPE_ENTRIES else TYPE_SNAPSHOT), rcVersion = hrVersion h,
     rcEntries = entriesToProto (hrEntries h), rcTerm = hrTerm h, rcKv = kvToProto (hrKV h)\<rparr>"

text \<open>
  Property C26.  The HTTP handlers for votes, leader heartbeats and recovery do what their gRPC twins do,
  on every replica and for every request; a recovery reply carries the same entries or the same snapshot.
\<close>

theorem http_matches_grpc:
  "handleRequestVote now (Some v) r = (case RequestVote now v r of (r', resp) \<Rightarrow> (r', Some resp)) \<and>
   handleLeaderHeartbeat now (Some hb) r = (case LeaderHeartbeat now hb r of (r', t) \<Rightarrow> (r', Some t)) \<and>
   handleForceRecover now r = ForceRecover now r \<and>
   Recover (parse_since since) r = map_sum id recover_to_proto (handleRecover since r)"
proof -
  have "handleRequestVote now (Some v) r = (case RequestVote now v r of (r', resp) \<Rightarrow> (r', Some resp))"
    by (auto simp: handleRequestVote_def RequestVote_def Let_def)
  moreover have "handleLeaderHeartbeat now (Some hb) r = (case LeaderHeartbeat now hb r of (r', t) \<Rightarrow> (r', Some t))"
    by (auto simp: handleLeaderHeartbeat_def LeaderHeartbeat_def adopt_term_def Let_def)
  moreover have "handleForceRecover now r = ForceRecover now r" by (simp add: handleForceRecover_def ForceRecover_def)
  moreover have "Recover (parse_since since) r = map_sum id recover_to_proto (handleRecover since r)"
    by (auto simp: Recover_def handleRecover_def recover_to_proto_def Let_def entriesToProto_def kvToProto_def split: prod.splits)
  ultimately show ?thesis by blast
qed

section \<open>Restart\<close>

definition in_dir :: "node_config \<Rightarrow> string \<Rightarrow> disk_state \<Rightarrow> bool" where
  "in_dir cfg shardID d \<longleftrightarrow> ncDataDir cfg \<noteq> [] \<and> 0 < ncSnapshotInterval cfg \<and> 0 < ncSnapshotRetention cfg \<and>
     walPath d = filepath_join (shardDataDir (ncDataDir cfg) shardID) ''wal.jsonl'' \<and>
     snapshotPath d = filepath_join (shardDataDir (ncDataDir cfg) shardID) ''snapshot.json'' \<and>
     snapshotRetention d = nat (ncSnapshotRetention cfg)"

lemma ds_load_paths:
  "walPath d' = walPath d \<Longrightarrow> snapshotPath d' = snapshotPath d \<Longrightarrow> snapshotRetention d' = snapshotRetention d \<Longrightarrow>
   ds_load rio wio d' fs = ds_load rio wio d fs"
  by (simp add: ds_load_def)

lemma disk_good_paths:
  assumes "walPath d' = walPath d" "snapshotPath d' = snapshotPath d" "snapshotRetention d' = snapshotRetention d"
    "wPath (walFile d') = walPath d'" "wOpen (walFile d')" "\<not> wEncErr (walFile d')" and "disk_good d fs"
  shows "disk_good d' fs"
proof -
  have "snap_at d' fs = snap_at d fs" using assms(2) by (intro ext) (simp add: snap_at_def)
  then have "newest_first d' fs = newest_first d fs" unfolding newest_first_def assms(3) by (simp only:)
  with assms show ?thesis by (auto simp: disk_good_def disk_inv_def ds_wf_def wal_holds_def split: sum.splits)
qed

lemma reopen:
  assumes "in_dir cfg i d" "disk_good d fs"
  obtains d' where "openDiskState IoOk IoOk (shardDataDir (ncDataDir cfg) i) (ncSnapshotInterval cfg) (ncSnapshotRetention cfg) fs = (fs, Inr d')"
    "disk_good d' fs" "ds_restart d' fs = ds_restart d fs"
proof -
  have "map_of fs (walPath d) \<noteq> None"
    using assms(2) by (auto simp: disk_good_def disk_inv_def ds_wf_def wal_holds_def split: sum.splits)
  then obtain d' where d': "openDiskState IoOk IoOk (shardDataDir (ncDataDir cfg) i) (ncSnapshotInterval cfg) (ncSnapshotRetention cfg) fs = (fs, Inr d')"
    "walPath d' = walPath d" "snapshotPath d' = snapshotPath d" "snapshotRetention d' = snapshotRetention d"
    "wPath (walFile d') = walPath d'" "wOpen (walFile d')" "\<not> wEncErr (walFile d')"
    using assms(1) by (auto simp: openDiskState_def wal_Open_def in_dir_def Let_def)
  show thesis using that d'(1) disk_good_paths [OF d'(2-7) assms(2)] ds_load_paths [OF d'(2-4), of "\<lambda>_. IoOk" IoOk fs] by simp
qed

lemma replay_wf: "gm_wf (dKV l) \<Longrightarrow> gm_wf (dKV (fold replay_step es l))"
  by (induction es arbitrary: l) (auto simp: replay_step_def)

lemma ds_load_cases:
  assumes "ds_load rio wio d fs = Inr ld"
  shows "ld = disk_load_zero \<or> dValid ld \<and> gm_wf (dKV ld)"
proof -
  have "dValid (fold replay_step es l) = dValid l" for es l
    by (induction es arbitrary: l) (auto simp: replay_step_def)
  then show ?thesis
    using assms replay_wf by (fastforce simp: ds_load_def split: prod.splits sum.splits if_splits option.splits)
qed

lemma kv_ok_same_map: "kv_ok m \<Longrightarrow> gm_wf m' \<Longrightarrow> map_of m' = map_of m \<Longrightarrow> kv_ok m'"
  using map_of_inject_set [of m' m] by (simp add: kv_ok_def gm_wf_def list_all_iff)

lemma restore_disk_durable:
  assumes dur: "sm_durable sm fs" "smDs sm = Some d" "in_dir cfg i d"
    and fresh: "sm_abs (rSM r) = (0, 0, Map.empty)" "kv_ok (sdata (smKv (rSM r)))"
    and r: "restore_disk init_io_ok cfg i r fs = (fs', r')"
  shows "fs' = fs \<and> sm_abs (rSM r') = sm_abs sm \<and> sm_durable (rSM r') fs \<and> (smVersion sm \<noteq> 0 \<longrightarrow> rIsReady r') \<and>
    rRole r' = rRole r \<and> rVotedFor r' = rVotedFor r \<and> rVotedForTerm r' = rVotedForTerm r"
proof -
  have d: "disk_good d fs" "disk_abs d fs = Some (sm_abs sm)" using dur(1,2) by (simp_all add: sm_durable_def)
  obtain d' where d': "openDiskState IoOk IoOk (shardDataDir (ncDataDir cfg) i) (ncSnapshotInterval cfg) (ncSnapshotRetention cfg) fs = (fs, Inr d')"
    "disk_good d' fs" "ds_restart d' fs = ds_restart d fs" using reopen [OF dur(3) d(1)] .
  obtain ld where ld: "ds_restart d' fs = Inr ld" "load_abs ld = sm_abs sm"
    using d(2) d'(3) by (auto simp: disk_abs_def split: sum.splits)
  have da: "disk_abs d' fs = Some (sm_abs sm)" using ld by (simp add: disk_abs_def)
  show ?thesis
  proof (cases "dValid ld")
    case True
    then have wf: "gm_wf (dKV ld)" using ds_load_cases [OF ld(1)] by (auto simp: disk_load_zero_def)
    have kv: "kv_ok (dKV ld)"
      using kv_ok_same_map [of "sdata (smKv sm)" "dKV ld"] wf ld(2) dur(1)
      by (auto simp: sm_durable_def load_abs_def sm_abs_def mem_abs_def)
    have r': "fs' = fs" "r' = r\<lparr>rSM := fst (snd (sm_ApplySnapshot disk_io_ok (sm_SetDiskState (rSM r) d')
        \<lparr>snTerm = dTerm ld, snVersion = dVersion ld, snKV = dKV ld\<rparr> SnapshotNoPersist fs)), rIsReady := True,
        rRecoveryState := RecoveryStateHealthy, rBootstrapShardID := [], rBootstrapLeaderAddr := []\<rparr>"
      using r d'(1) ld(1) True dur(3)
      by (auto simp: restore_disk_def init_io_ok_def in_dir_def Let_def sm_ApplySnapshot_def)
    have sm': "sm_abs (rSM r') = sm_abs sm" "smDs (rSM r') = Some d'" "kv_ok (sdata (smKv (rSM r')))"
      using kv wf ld(2) by (auto simp: r' sm_ApplySnapshot_def sm_SetDiskState_def sm_abs_def load_abs_def mem_ApplySnapshot_def mem_abs_def Let_def)
    then show ?thesis using r' d'(2) da by (simp add: sm_durable_def)
  next
    case False
    then have z: "ld = disk_load_zero" using ds_load_cases [OF ld(1)] by blast
    then have "sm_abs sm = (0, 0, Map.empty)" using ld(2) by (simp add: load_abs_def disk_load_zero_def)
    moreover have "fs' = fs" "r' = r\<lparr>rSM := sm_SetDiskState (rSM r) d'\<rparr>"
      using r d'(1) ld(1) z dur(3) by (auto simp: restore_disk_def init_io_ok_def in_dir_def Let_def disk_load_zero_def)
    ultimately show ?thesis
      using fresh d'(2) da by (auto simp: sm_durable_def sm_SetDiskState_def sm_abs_def)
  qed
qed

lemma init_replica_fresh:
  "sm_abs (rSM (init_replica io now shard resp n)) = (0, 0, Map.empty)" "kv_ok (sdata (smKv (rSM (init_replica io now shard resp n))))"
  "rVotedFor (init_replica io now shard resp n) = []" "rVotedForTerm (init_replica io now shard resp n) = 0"
  by (simp_all add: init_replica_def NewReplicaState_def newShardStateMachine_def sm_abs_def mem_abs_def mem_New_def kv_ok_def Let_def)


definition demo_node :: node where
  "demo_node = node_NewServer (demo_node_config\<lparr>ncDataDir := ''d''\<rparr>) 1"

definition demo_shard_info :: shard_info where
  "demo_shard_info = \<lparr>siID = ''s'', siReplicas = [''n1'', ''n2''], siLeader = ''n2'', siBootstrapSourceShardID = [], siIncomingReplicas = []\<rparr>"

text \<open>A replica of that shard that has applied one write, and its disk.\<close>

definition demo_ds :: disk_state where
  "demo_ds = \<lparr>walFile = \<lparr>wPath = ''d/shards/s/wal.jsonl'', wOpen = True, wEncErr = False\<rparr>, walPath = ''d/shards/s/wal.jsonl'',
     snapshotPath = ''d/shards/s/snapshot.json'', writesSinceSnapshot = 0, snapshotInterval = 100, snapshotRetention = 2\<rparr>"

definition demo_written :: "fs \<times> shard_sm \<times> sm_error option" where
  "demo_written = sm_Apply WriteOk (newShardStateMachine mem_New (rlog_New 0) 0 0 (Some demo_ds)) (demo_entry 1 ''k'' ''x'') ApplyWithWAL
     [(''d/shards/s/wal.jsonl'', [])]"

definition demo_replica :: replica where
  "demo_replica = (NewReplicaState ''s'' ''n1'' [''n2''] 10 0)\<lparr>rSM := fst (snd demo_written)\<rparr>"

lemma demo_replica_facts:
  "sm_durable (rSM demo_replica) (fst demo_written)" "\<exists>d. smDs (rSM demo_replica) = Some d \<and> in_dir (ndCfg demo_node) ''s'' d"
  "rVersion demo_replica = 1" "rTerm demo_replica = 1" "rVotedFor demo_replica = []"
proof -
  let ?sm = "newShardStateMachine mem_New (rlog_New 0) 0 0 (Some demo_ds)" and ?fs = "[(''d/shards/s/wal.jsonl'', [])]"
  have "disk_good demo_ds ?fs \<and> disk_abs demo_ds ?fs = Some (0, 0, Map.empty)"
    by (rule disk_fresh) (simp_all add: ds_wf_def demo_ds_def)
  then have dur: "sm_durable ?sm ?fs"
    using st.new by (simp add: sm_durable_def newShardStateMachine_def sm_abs_def mem_New_def kv_ok_def mem_abs_def)
  obtain fs2 sm2 where w: "demo_written = (fs2, sm2, None)" "smVersion sm2 = 1" "smTerm sm2 = 1"
    "\<exists>d. smDs sm2 = Some d \<and> walPath d = walPath demo_ds \<and> snapshotPath d = snapshotPath demo_ds \<and> snapshotRetention d = 2"
    by (cases demo_written) (auto simp: demo_written_def sm_Apply_def newShardStateMachine_def demo_entry_def ds_appendWAL_def wal_Append_def
        demo_ds_def split: if_splits)
  from w(1) have "sm_durable sm2 fs2"
    using sm_Apply_durable [OF dur demo_storable, of WriteOk 1 fs2 sm2] by (auto simp: demo_written_def newShardStateMachine_def)
  with w(2-) show "sm_durable (rSM demo_replica) (fst demo_written)" "\<exists>d. smDs (rSM demo_replica) = Some d \<and> in_dir (ndCfg demo_node) ''s'' d"
    "rVersion demo_replica = 1" "rTerm demo_replica = 1" "rVotedFor demo_replica = []"
    by (auto simp: w(1) demo_replica_def NewReplicaState_def in_dir_def demo_node_def node_NewServer_def EnsureDefaults_def node_applyDefaults_def
        demo_node_config_def or_default_def demo_ds_def shardDataDir_def filepath_join_def Let_def)
qed


text \<open>
  Property C38.  A restart forgets votes: a replica that has voted in a term and restarts grants its vote
  to any other candidate of the same term whose version is not behind, as long as no entry of that
  term was logged.
\<close>

theorem restart_allows_second_vote:
  assumes "sm_durable (rSM r) fs" "smDs (rSM r) = Some d" "in_dir (ndCfg n) (siID shard) d"
    and "map_of (ndReplicas n) (siID shard) = None"
    and vote: "RequestVote now req r = (r1, resp)" "vsGranted resp"
    and restart: "initShardLocked init_io_ok now' shard resp' (n, fs) = (n', fs')"
    and second: "vqTerm req' = vqTerm req" "rVersion r \<le> vqVersion req'"
  shows "\<exists>r'. map_of (ndReplicas n') (siID shard) = Some r' \<and> vsGranted (snd (RequestVote now'' req' r'))"
proof -
  obtain fs1 r' where re: "restore_disk init_io_ok (ndCfg n) (siID shard) (init_replica init_io_ok now' shard resp' n) fs = (fs1, r')" by fastforce
  note d = restore_disk_durable [OF assms(1-3) init_replica_fresh(1,2) re]
  have n': "n' = n\<lparr>ndReplicas := gm_put (siID shard) r' (ndReplicas n)\<rparr>" using assms(4) restart re by (auto simp: initShardLocked_def)
  have same: "rTerm r' = rTerm r" "rVersion r' = rVersion r" "rVotedFor r' = []" using d init_replica_fresh(3) by (simp_all add: sm_abs_def)
  then have "vsGranted (snd (RequestVote now'' req' r'))"
    using RequestVote_granted(1) [OF vote] second by (auto simp: RequestVote_def Let_def)
  then show ?thesis by (simp add: n' gomap_simps)
qed

theorem restart_allows_second_vote_witness:
  "\<exists>n' fs' r'. let req = (\<lambda>c. \<lparr>vqTerm = 5, vqCandidateID = c, vqVersion = 1\<rparr>) in
     vsGranted (snd (RequestVote 1 (req ''n2'') demo_replica)) \<and>
     initShardLocked init_io_ok 5 demo_shard_info \<lparr>smrVersion = 1, smrShards = [], smrNodeAddresses = []\<rparr> (demo_node, fst demo_written) = (n', fs') \<and>
     map_of (ndReplicas n') ''s'' = Some r' \<and> vsGranted (snd (RequestVote 2 (req ''n3'') r'))"
proof -
  let ?st = "initShardLocked init_io_ok 5 demo_shard_info \<lparr>smrVersion = 1, smrShards = [], smrNodeAddresses = []\<rparr> (demo_node, fst demo_written)"
  let ?req = "\<lambda>c. \<lparr>vqTerm = 5, vqCandidateID = c, vqVersion = 1\<rparr>"
  obtain n' fs' where i: "?st = (n', fs')" by (cases ?st)
  obtain d where d: "smDs (rSM demo_replica) = Some d" "in_dir (ndCfg demo_node) ''s'' d" using demo_replica_facts(2) by blast
  have "siID demo_shard_info = ''s''" "map_of (ndReplicas demo_node) ''s'' = None"
    by (simp_all add: demo_shard_info_def demo_node_def node_NewServer_def)
  moreover have g: "vsGranted (snd (RequestVote 1 (?req ''n2'') demo_replica))"
    using demo_replica_facts(3-5) by (simp add: RequestVote_def Let_def word_less_nat_alt)
  ultimately show ?thesis
    using restart_allows_second_vote [OF demo_replica_facts(1) d(1) _ _ surjective_pairing g i, of "?req ''n3''" 2] d(2) i demo_replica_facts(3) by auto
qed

section \<open>Adopting a shard map\<close>

text \<open>\<open>follows me v sh r\<close>: the replica \<open>r\<close> of node \<open>me\<close> reflects the entry \<open>sh\<close> of the shard map of version \<open>v\<close>.\<close>

definition follows :: "string \<Rightarrow> uint64 \<Rightarrow> shard_info \<Rightarrow> replica \<Rightarrow> bool" where
  "follows me v sh r \<longleftrightarrow> rShardID r = siID sh \<and> rNodeID r = me \<and> rShardMapVersion r = v \<and> rLeaderID r = siLeader sh \<and>
     rPeers r = shard_peers me sh \<and> (rRole r = RoleLeader \<longleftrightarrow> siLeader sh = me)"

definition node_wf :: "node \<Rightarrow> bool" where
  "node_wf n \<longleftrightarrow> gm_wf (ndReplicas n) \<and> (\<forall>k r. map_of (ndReplicas n) k = Some r \<longrightarrow>
     rShardID r = k \<and> rNodeID r = nodeID n \<and> rShardMapVersion r = ndShardMapVersion n)"

lemma follows_adopt: "rShardID r = siID sh \<Longrightarrow> rNodeID r = me \<Longrightarrow> follows me v sh (adopt_shard now me v sh r)"
  by (auto simp: follows_def adopt_shard_def Let_def)

lemma follows_restore: "restore_disk io cfg i r fs = (fs', r') \<Longrightarrow> follows me v sh r \<Longrightarrow> follows me v sh r'"
  by (auto simp: restore_disk_def follows_def Let_def split: if_splits prod.splits sum.splits option.splits)

lemma follows_init: "follows (nodeID n) (ndShardMapVersion n) sh (init_replica io now sh resp n)"
  by (auto simp: follows_def init_replica_def NewReplicaState_def Let_def)

lemma initShardLocked_get:
  assumes "initShardLocked io now sh resp (n, fs) = (n', fs')" "map_of (ndReplicas n) (siID sh) = None"
  shows "\<exists>r. n' = n\<lparr>ndReplicas := gm_put (siID sh) r (ndReplicas n)\<rparr> \<and> follows (nodeID n) (ndShardMapVersion n) sh r"
proof -
  obtain fs1 r where re: "restore_disk io (ndCfg n) (siID sh) (init_replica io now sh resp n) fs = (fs1, r)" by fastforce
  with assms have "n' = n\<lparr>ndReplicas := gm_put (siID sh) r (ndReplicas n)\<rparr>" by (auto simp: initShardLocked_def)
  with follows_restore [OF re follows_init] show ?thesis by blast
qed

lemma refetch_step_get:
  assumes "refetch_step io now resp (k, sh) ((n, fs), new) = ((n', fs'), new')" "siID sh = k"
    and "\<And>r. map_of (ndReplicas n) k = Some r \<Longrightarrow> rShardID r = k \<and> rNodeID r = nodeID n"
  shows "\<exists>r. n' = n\<lparr>ndReplicas := gm_put k r (ndReplicas n)\<rparr> \<and> follows (nodeID n) (ndShardMapVersion n) sh r"
proof (cases "map_of (ndReplicas n) k")
  case None
  obtain n1 fs1 where i: "initShardLocked (io k) now sh resp (n, fs) = (n1, fs1)" by fastforce
  then show ?thesis using initShardLocked_get [OF i] None assms(1,2) by (auto simp: refetch_step_def)
next
  case (Some r)
  with assms show ?thesis by (auto simp: refetch_step_def intro!: exI follows_adopt)
qed

definition adopted :: "string \<Rightarrow> uint64 \<Rightarrow> shard_info option \<Rightarrow> replica option \<Rightarrow> replica option \<Rightarrow> bool" where
  "adopted me v sh old new \<longleftrightarrow> (case sh of None \<Rightarrow> new = old | Some s \<Rightarrow> \<exists>r. new = Some r \<and> follows me v s r)"

lemma refetch_fold:
  assumes "distinct (map fst xs)" "\<And>k sh. (k, sh) \<in> set xs \<Longrightarrow> siID sh = k"
    and "\<And>k r. map_of (ndReplicas n) k = Some r \<Longrightarrow> rShardID r = k \<and> rNodeID r = nodeID n"
    and "gm_wf (ndReplicas n)"
    and "fold (refetch_step io now resp) xs ((n, fs), new) = ((n', fs'), new')"
  shows "ndCfg n' = ndCfg n \<and> ndShardMapVersion n' = ndShardMapVersion n \<and> gm_wf (ndReplicas n') \<and>
    (\<forall>k. adopted (nodeID n) (ndShardMapVersion n) (map_of xs k) (map_of (ndReplicas n) k) (map_of (ndReplicas n') k))"
  using assms
proof (induction xs arbitrary: n fs new)
  case (Cons x xs)
  obtain k sh where x: "x = (k, sh)" by fastforce
  obtain n1 fs1 new1 where st: "refetch_step io now resp (k, sh) ((n, fs), new) = ((n1, fs1), new1)" by (metis prod_cases3 surj_pair)
  have sid: "siID sh = k" using Cons.prems(2) x by auto
  obtain r where r: "n1 = n\<lparr>ndReplicas := gm_put k r (ndReplicas n)\<rparr>" "follows (nodeID n) (ndShardMapVersion n) sh r"
    using refetch_step_get [OF st sid] Cons.prems(3) by blast
  have p: "\<And>j r'. map_of (ndReplicas n1) j = Some r' \<Longrightarrow> rShardID r' = j \<and> rNodeID r' = nodeID n1"
    using Cons.prems(3) r sid by (auto simp: gomap_simps follows_def split: if_splits)
  have "fold (refetch_step io now resp) xs ((n1, fs1), new1) = ((n', fs'), new')" "distinct (map fst xs)" "k \<notin> fst ` set xs"
    "gm_wf (ndReplicas n1)"
    using Cons.prems(1,4,5) st x r by auto
  note IH = Cons.IH [OF this(2) _ p this(4) this(1)]
  have IH': "ndCfg n' = ndCfg n1 \<and> ndShardMapVersion n' = ndShardMapVersion n1 \<and> gm_wf (ndReplicas n')"
    and key: "adopted (nodeID n1) (ndShardMapVersion n1) (map_of xs j) (map_of (ndReplicas n1) j) (map_of (ndReplicas n') j)" for j
    using IH Cons.prems(2) by auto
  have none: "map_of xs k = None" using \<open>k \<notin> fst ` set xs\<close> by (simp add: map_of_eq_None_iff)
  have "adopted (nodeID n) (ndShardMapVersion n) (map_of (x # xs) j) (map_of (ndReplicas n) j) (map_of (ndReplicas n') j)" for j
  proof (cases "j = k")
    case True
    then show ?thesis using key [of k] none r x by (simp add: gomap_simps adopted_def)
  next
    case False
    then show ?thesis using key [of j] r(1) x by (simp add: gomap_simps)
  qed
  then show ?case using IH' r(1) by simp
qed (simp add: adopted_def)

lemma start_get:
  "ndCfg (startShardGoroutines now i n) = ndCfg n \<and> ndShardMapVersion (startShardGoroutines now i n) = ndShardMapVersion n \<and>
   (gm_wf (ndReplicas n) \<longrightarrow> gm_wf (ndReplicas (startShardGoroutines now i n))) \<and>
   (\<exists>f. (\<forall>r. f r = r \<or> f r = seed_contact now r) \<and> map_of (ndReplicas (startShardGoroutines now i n)) k = map_option f (map_of (ndReplicas n) k))"
proof (cases "map_of (ndReplicas n) i = None \<or> \<not> ndServing n")
  case True
  then have "startShardGoroutines now i n = n" by (auto simp: startShardGoroutines_def split: option.splits)
  then show ?thesis by (intro conjI exI [of _ id]) (simp_all add: option.map_id)
next
  case False
  then obtain r where "map_of (ndReplicas n) i = Some r" "ndServing n" by auto
  then show ?thesis by (auto simp: startShardGoroutines_def gomap_simps option.map_id0 intro!: exI [of _ "if k = i then seed_contact now else id"])
qed

lemma follows_seed [simp]: "follows me v sh (seed_contact now r) = follows me v sh r"
  by (simp add: follows_def seed_contact_def)

lemma starts_get:
  "ndCfg (fold (startShardGoroutines now) is n) = ndCfg n \<and> ndShardMapVersion (fold (startShardGoroutines now) is n) = ndShardMapVersion n \<and>
   (gm_wf (ndReplicas n) \<longrightarrow> gm_wf (ndReplicas (fold (startShardGoroutines now) is n))) \<and>
   (map_of (ndReplicas (fold (startShardGoroutines now) is n)) k = None \<longleftrightarrow> map_of (ndReplicas n) k = None) \<and>
   (\<forall>r. map_of (ndReplicas (fold (startShardGoroutines now) is n)) k = Some r \<longrightarrow>
      (\<exists>r0. map_of (ndReplicas n) k = Some r0 \<and> (\<forall>me v sh. follows me v sh r = follows me v sh r0)))"
proof (induction "is" arbitrary: n)
  case (Cons i "is")
  obtain f where f: "\<forall>r. f r = r \<or> f r = seed_contact now r" "map_of (ndReplicas (startShardGoroutines now i n)) k = map_option f (map_of (ndReplicas n) k)"
    using start_get [of now i n k] by blast
  have "follows me v sh (f r) = follows me v sh r" for me v sh r using f(1) follows_seed by metis
  with Cons.IH [of "startShardGoroutines now i n"] f(2) start_get [of now i n k] show ?case by (auto split: option.splits)
qed simp

lemma drops_get:
  "ndCfg (fold dropShard is n) = ndCfg n \<and> ndShardMapVersion (fold dropShard is n) = ndShardMapVersion n \<and>
   (gm_wf (ndReplicas n) \<longrightarrow> gm_wf (ndReplicas (fold dropShard is n))) \<and>
   map_of (ndReplicas (fold dropShard is n)) k = (if k \<in> set is then None else map_of (ndReplicas n) k)"
  by (induction "is" arbitrary: n) (auto simp: dropShard_def gomap_simps)

definition host_map :: "string \<Rightarrow> shard_info list \<Rightarrow> (string, shard_info) gomap" where
  "host_map me shs = fold (\<lambda>sh m. if HasReplica sh me then gm_put (siID sh) sh m else m) shs []"

lemma host_map_get:
  assumes "distinct (map siID shs)"
  shows "gm_wf (host_map me shs)" "map_of (host_map me shs) k = Some sh \<longleftrightarrow> sh \<in> set shs \<and> siID sh = k \<and> me \<in> set (siReplicas sh)"
proof -
  let ?f = "\<lambda>sh m. if HasReplica sh me then gm_put (siID sh) sh m else m"
  have "gm_wf m \<Longrightarrow> gm_wf (fold ?f shs m)" for m by (induction shs arbitrary: m) auto
  then show "gm_wf (host_map me shs)" by (simp add: host_map_def)
  have "distinct (map siID shs) \<Longrightarrow> map_of (fold ?f shs m) k = Some sh \<longleftrightarrow>
      (sh \<in> set shs \<and> siID sh = k \<and> me \<in> set (siReplicas sh)) \<or>
      (map_of m k = Some sh \<and> \<not> (\<exists>s\<in>set shs. siID s = k \<and> me \<in> set (siReplicas s)))" for m
    by (induction shs arbitrary: m) (auto simp: gomap_simps HasReplica_def image_iff)
  from this [OF assms, of "[]"] show "map_of (host_map me shs) k = Some sh \<longleftrightarrow> sh \<in> set shs \<and> siID sh = k \<and> me \<in> set (siReplicas sh)"
    by (simp add: host_map_def)
qed

lemma refetch_adopted:
  assumes "node_wf n" "distinct (map psShardId (gmShards p))" "refetchShardMap io now (Some p) (n, fs) = (n', fs')"
  shows "ndCfg n' = ndCfg n \<and> ndShardMapVersion n' = gmVersion p \<and> gm_wf (ndReplicas n') \<and>
    (\<forall>k. adopted (nodeID n) (gmVersion p) (map_of (host_map (nodeID n) (shardInfoFromProto (gmShards p))) k) None (map_of (ndReplicas n') k))"
proof -
  let ?shs = "shardInfoFromProto (gmShards p)" and ?resp = "shardMapResponseFromProto (Some p)" and ?me = "nodeID n"
  let ?host = "host_map ?me ?shs"
  let ?n1 = "n\<lparr>ndNodeAddresses := smrNodeAddresses ?resp, ndShardMapVersion := smrVersion ?resp,
     ndShardLeaders := fold (\<lambda>sh m. gm_put (siID sh) (siLeader sh) m) (smrShards ?resp) (ndShardLeaders n)\<rparr>"
  let ?rm = "filter (\<lambda>k. map_of ?host k = None) (map fst (ndReplicas n))"
  have d: "distinct (map siID ?shs)" using assms(2) by (simp add: shardInfoFromProto_def comp_def)
  note host = host_map_get [OF d, of ?me]
  obtain n2 fs2 new where f: "fold (refetch_step io now ?resp) ?host ((?n1, fs), []) = ((n2, fs2), new)"
    by (cases "fold (refetch_step io now ?resp) ?host ((?n1, fs), [])", cases "fst (fold (refetch_step io now ?resp) ?host ((?n1, fs), []))") auto
  have n': "n' = fold dropShard ?rm (fold (startShardGoroutines now) new n2)"
    using assms(3) f by (simp add: refetchShardMap_def Let_def host_map_def shardMapResponseFromProto_def split: prod.splits)
  have hk: "siID sh = k" if "(k, sh) \<in> set ?host" for k sh
    using map_of_is_SomeI [OF host(1) [unfolded gm_wf_def] that] host(2) by simp
  note R = refetch_fold [OF host(1) [unfolded gm_wf_def] hk _ _ f]
  have R': "ndCfg n2 = ndCfg n" "ndShardMapVersion n2 = gmVersion p" "gm_wf (ndReplicas n2)"
    "\<And>k. adopted ?me (gmVersion p) (map_of ?host k) (map_of (ndReplicas n) k) (map_of (ndReplicas n2) k)"
    using R assms(1) by (auto simp: node_wf_def shardMapResponseFromProto_def)
  let ?n3 = "fold (startShardGoroutines now) new n2"
  have key: "adopted ?me (gmVersion p) (map_of ?host k) None (map_of (ndReplicas n') k)" for k
  proof (cases "map_of ?host k")
    case None
    have e: "map_of (ndReplicas n2) k = map_of (ndReplicas n) k" using R'(4) [of k] None by (simp add: adopted_def)
    have rm: "k \<in> set ?rm \<longleftrightarrow> map_of (ndReplicas n) k \<noteq> None" using None by (simp add: map_of_eq_None_iff)
    have "map_of (ndReplicas ?n3) k = None \<longleftrightarrow> map_of (ndReplicas n2) k = None" using starts_get [of now new n2 k] by blast
    then have "map_of (ndReplicas n') k = None" using e rm drops_get [of ?rm ?n3 k] n' by metis
    then show ?thesis using None by (simp add: adopted_def)
  next
    case (Some sh)
    then obtain r where "map_of (ndReplicas n2) k = Some r" "follows ?me (gmVersion p) sh r" using R'(4) [of k] by (auto simp: adopted_def)
    with starts_get [of now new n2 k] obtain r' where "map_of (ndReplicas ?n3) k = Some r'" "follows ?me (gmVersion p) sh r'" by fastforce
    then show ?thesis using Some drops_get [of ?rm ?n3 k] n' by (auto simp: adopted_def)
  qed
  have cfg: "ndCfg n' = ndCfg n" "ndShardMapVersion n' = gmVersion p" "gm_wf (ndReplicas n')"
    using drops_get [of ?rm ?n3] starts_get [of now new n2] R'(1-3) n' by auto
  show ?thesis using key cfg by blast
qed

lemma refetch_result:
  assumes "node_wf n" "distinct (map psShardId (gmShards p))" "refetchShardMap io now (Some p) (n, fs) = (n', fs')"
  shows "node_wf n' \<and> ndCfg n' = ndCfg n \<and> ndShardMapVersion n' = gmVersion p \<and>
    (\<forall>k. (map_of (ndReplicas n') k = None \<longleftrightarrow> \<not> (\<exists>sh\<in>set (gmShards p). psShardId sh = k \<and> nodeID n \<in> set (psReplicas sh)))) \<and>
    (\<forall>sh\<in>set (gmShards p). \<forall>r. map_of (ndReplicas n') (psShardId sh) = Some r \<longrightarrow>
       rLeaderID r = psLeader sh \<and> rPeers r = filter (\<lambda>q. q \<noteq> nodeID n) (psReplicas sh) \<and> (rRole r = RoleLeader \<longleftrightarrow> psLeader sh = nodeID n))"
proof -
  let ?shs = "shardInfoFromProto (gmShards p)" and ?me = "nodeID n"
  let ?host = "host_map ?me ?shs"
  have "distinct (map siID ?shs)" using assms(2) by (simp add: shardInfoFromProto_def comp_def)
  note host = host_map_get [OF this, of ?me]
  have cfg: "ndCfg n' = ndCfg n" "ndShardMapVersion n' = gmVersion p" "gm_wf (ndReplicas n')"
    and key: "\<And>k. adopted ?me (gmVersion p) (map_of ?host k) None (map_of (ndReplicas n') k)"
    using refetch_adopted [OF assms] by auto
  have "\<exists>sh. map_of ?host k = Some sh \<and> follows ?me (gmVersion p) sh r" if "map_of (ndReplicas n') k = Some r" for k r
    using key [of k] that by (cases "map_of ?host k") (auto simp: adopted_def)
  note origin = this
  have wf: "node_wf n'"
    unfolding node_wf_def
  proof (intro conjI allI impI)
    fix k r assume "map_of (ndReplicas n') k = Some r"
    then obtain sh where "siID sh = k" "follows ?me (gmVersion p) sh r" using origin host(2) by blast
    then show "rShardID r = k" "rNodeID r = nodeID n'" "rShardMapVersion r = ndShardMapVersion n'" using cfg by (simp_all add: follows_def)
  qed (rule cfg(3))
  have dom: "map_of (ndReplicas n') k = None \<longleftrightarrow> \<not> (\<exists>sh\<in>set (gmShards p). psShardId sh = k \<and> ?me \<in> set (psReplicas sh))" for k
  proof -
    have "map_of (ndReplicas n') k = None \<longleftrightarrow> map_of ?host k = None" using key [of k] by (cases "map_of ?host k") (auto simp: adopted_def)
    also have "\<dots> \<longleftrightarrow> \<not> (\<exists>sh. map_of ?host k = Some sh)" by simp
    also have "\<dots> \<longleftrightarrow> \<not> (\<exists>sh\<in>set (gmShards p). psShardId sh = k \<and> ?me \<in> set (psReplicas sh))"
      unfolding host(2) by (auto simp: shardInfoFromProto_def)
    finally show ?thesis .
  qed
  have rep: "rLeaderID r = psLeader sh \<and> rPeers r = filter (\<lambda>q. q \<noteq> ?me) (psReplicas sh) \<and> (rRole r = RoleLeader \<longleftrightarrow> psLeader sh = ?me)"
    if m: "sh \<in> set (gmShards p)" "map_of (ndReplicas n') (psShardId sh) = Some r" for sh r
  proof -
    obtain si where si: "map_of ?host (psShardId sh) = Some si" "follows ?me (gmVersion p) si r" using origin [OF m(2)] by blast
    then have "si \<in> set ?shs" "siID si = psShardId sh" using host(2) by auto
    then obtain sh' where "sh' \<in> set (gmShards p)" "psShardId sh' = psShardId sh" "siLeader si = psLeader sh'" "siReplicas si = psReplicas sh'"
      by (auto simp: shardInfoFromProto_def)
    moreover from this have "sh' = sh" using assms(2) m(1) by (simp add: distinct_map inj_on_def)
    ultimately show ?thesis using si(2) by (simp add: follows_def shard_peers_def)
  qed
  show ?thesis using wf cfg dom rep by blast
qed

text \<open>
  Property C25.  Adopting a shard map: after a refetch the node hosts exactly the shards of the map that
  name it as a replica; each of its replicas has the map's leader, peers and version, and is leader if
  and only if the map says so; replicas of other shards are gone.
\<close>

theorem refetch_adopts:
  assumes "node_wf n" "distinct (map psShardId (gmShards p))" "refetchShardMap io now (Some p) (n, fs) = (n', fs')"
  shows "node_wf n' \<and> ndCfg n' = ndCfg n \<and> ndShardMapVersion n' = gmVersion p \<and>
    (\<forall>k. (map_of (ndReplicas n') k = None \<longleftrightarrow> \<not> (\<exists>sh\<in>set (gmShards p). psShardId sh = k \<and> nodeID n \<in> set (psReplicas sh)))) \<and>
    (\<forall>sh\<in>set (gmShards p). \<forall>r. map_of (ndReplicas n') (psShardId sh) = Some r \<longrightarrow>
       rLeaderID r = psLeader sh \<and> rPeers r = filter (\<lambda>q. q \<noteq> nodeID n) (psReplicas sh) \<and> (rRole r = RoleLeader \<longleftrightarrow> psLeader sh = nodeID n))"
  by (rule refetch_result [OF assms])

definition demo_proto :: get_shard_map_response where
  "demo_proto = \<lparr>gmVersion = 7, gmShards = [\<lparr>psShardId = ''s'', psLeader = ''n1'', psReplicas = [''n1'', ''n2'']\<rparr>,
     \<lparr>psShardId = ''t'', psLeader = ''n2'', psReplicas = [''n2'']\<rparr>], gmNodeAddresses = [(''n1'', ''h1''), (''n2'', ''h2'')]\<rparr>"

lemma demo_node_wf: "node_wf demo_node" "nodeID demo_node = ''n1''"
  by (simp_all add: node_wf_def demo_node_def node_NewServer_def EnsureDefaults_def node_applyDefaults_def demo_node_config_def Let_def)

theorem refetch_adopts_witness:
  "\<exists>n' fs'. refetchShardMap (\<lambda>_. init_io_ok) 5 (Some demo_proto) (demo_node, []) = (n', fs') \<and> node_wf n' \<and> ndShardMapVersion n' = 7 \<and>
     map_of (ndReplicas n') ''s'' \<noteq> None \<and> map_of (ndReplicas n') ''t'' = None"
proof -
  obtain n' fs' where r: "refetchShardMap (\<lambda>_. init_io_ok) 5 (Some demo_proto) (demo_node, []) = (n', fs')"
    by (cases "refetchShardMap (\<lambda>_. init_io_ok) 5 (Some demo_proto) (demo_node, [])")
  have d: "distinct (map psShardId (gmShards demo_proto))" by (simp add: demo_proto_def)
  note a = refetch_adopts [OF demo_node_wf(1) d r]
  from a have "node_wf n'" "ndShardMapVersion n' = 7" by (simp_all add: demo_proto_def)
  moreover from a have "map_of (ndReplicas n') ''s'' \<noteq> None" "map_of (ndReplicas n') ''t'' = None"
    by (simp_all add: demo_proto_def demo_node_wf(2))
  ultimately show ?thesis using r by blast
qed

section \<open>Node and coordinator\<close>

definition heartbeat_exchange :: "(string \<Rightarrow> init_io) \<Rightarrow> gotime \<Rightarrow> coordinator \<Rightarrow> node \<times> fs \<Rightarrow> coordinator \<times> (node \<times> fs)" where
  "heartbeat_exchange io now c st =
     (let c' = fst (grpc_Heartbeat now (nodeID (fst st)) (shardHeartbeatsFromStatus (heartbeat_shards now (fst st))) c)
      in (c', sendHeartbeat io now (\<lambda>i shs. case snd (grpc_Heartbeat now i shs c) of Inl e \<Rightarrow> None | Inr v \<Rightarrow> Some v) (Some (GetShardMap c')) st))"

lemma fold_put_get:
  assumes "distinct (map f xs)" "x \<in> set xs"
  shows "map_of (fold (\<lambda>y m. gm_put (f y) (g y) m) xs m) (f x) = Some (g x)"
proof -
  have out: "k \<notin> f ` set ys \<Longrightarrow> map_of (fold (\<lambda>y m. gm_put (f y) (g y) m) ys m) k = map_of m k" for ys k m
    by (induction ys arbitrary: m) (auto simp: gomap_simps)
  show ?thesis using assms
  proof (induction xs arbitrary: m)
    case (Cons y ys)
    then show ?case using out [of "f y" ys] by (cases "x = y") (auto simp: gomap_simps)
  qed simp
qed

lemma heartbeat_versions:
  assumes "node_wf n" "map_of (ndReplicas n) k = Some r" "map_of (mbNodes m) i \<noteq> None"
    and "RecordHeartbeat now i (heartbeat_shards now n) m = (m', e)"
  shows "e = None \<and> VersionForShard m' i k = rVersion r"
proof -
  let ?ss = "heartbeat_shards now n"
  have keys: "map ssShardID ?ss = map (rShardID \<circ> snd) (ndReplicas n)"
    by (auto simp: heartbeat_shards_def StatusSnapshot_def Let_def)
  also have "\<dots> = map fst (ndReplicas n)"
    using assms(1) by (intro map_cong) (auto simp: node_wf_def gm_wf_def)
  finally have d: "distinct (map ssShardID ?ss)" using assms(1) by (simp add: node_wf_def gm_wf_def)
  have "rShardID r = k" using assms(1,2) by (simp add: node_wf_def)
  then obtain s where s: "s \<in> set ?ss" "ssShardID s = k" "ssVersion s = rVersion r"
    using map_of_SomeD [OF assms(2)] by (force simp: heartbeat_shards_def StatusSnapshot_def Let_def)
  from fold_put_get [OF d s(1), of ssVersion] s(2,3) assms(3,4) show ?thesis
    by (auto simp: RecordHeartbeat_def VersionForShard_def gomap_simps gm_or0_def)
qed



text \<open>
  Property C39.  A shard split loses its source on the way: the shard map the coordinator builds for HTTP names the
  source shard, and a node that initialises the new shard from it bootstraps from that source; the shard map that
  travels over gRPC, the one nodes fetch, lists the new shard without a source, and no node bootstraps from it.
\<close>

theorem split_bootstrap_lost:
  assumes "handleAdminSplitShard (Some req) c = (c', Inr ())" and "resp = shardMapResponseFromProto (Some (GetShardMap c'))"
  shows "(\<exists>sh. sh \<in> set (smrShards (handleShardMap c')) \<and> siID sh = sqNewShardID req \<and>
      rBootstrapShardID (init_replica io now sh (handleShardMap c') n) = sqSourceShardID req) \<and>
    (\<exists>sh. sh \<in> set (smrShards resp) \<and> siID sh = sqNewShardID req) \<and>
    (\<forall>sh\<in>set (smrShards resp). rBootstrapShardID (init_replica io now sh resp n) = [])"
proof -
  let ?info = "\<lparr>siID = sqNewShardID req, siReplicas = sqNewReplicas req, siLeader = [],
      siBootstrapSourceShardID = sqSourceShardID req, siIncomingReplicas = []\<rparr>"
  have "map_of (shShards (coShards c')) (sqNewShardID req) = Some ?info" and src: "sqSourceShardID req \<noteq> []"
    using assms(1) by (auto simp: handleAdminSplitShard_def AddShard_def gomap_simps split: if_splits sum.splits option.splits prod.splits)
  then have "(sqNewShardID req, ?info) \<in> set (shShards (coShards c'))" by (auto dest: map_of_SomeD)
  then have i: "?info \<in> snd ` set (shShards (coShards c'))" by force
  have "rBootstrapShardID (init_replica io now ?info (handleShardMap c') n) = sqSourceShardID req"
    using src by (simp add: init_replica_def Let_def)
  moreover have "?info \<in> set (smrShards (handleShardMap c'))"
    using i by (simp add: handleShardMap_def buildShardMapResponse_def sh_Snapshot_def)
  moreover have "sqNewShardID req \<in> siID ` set (smrShards resp)"
    using i by (auto simp: assms(2) GetShardMap_def sh_Snapshot_def shardInfoToProto_def shardMapResponseFromProto_def shardInfoFromProto_def image_comp comp_def
        image_iff intro!: bexI)
  moreover have "rBootstrapShardID (init_replica io now sh resp n) = []" if "sh \<in> set (smrShards resp)" for sh
    using that by (auto simp: assms(2) shardMapResponseFromProto_def shardInfoFromProto_def init_replica_def NewReplicaState_def Let_def)
  ultimately show ?thesis by force
qed

theorem split_bootstrap_lost_witness:
  "let c = demo_coord\<lparr>coShards := demo_shards\<rparr>; req = \<lparr>sqSourceShardID = ''s'', sqNewShardID = ''t'', sqNewReplicas = [''n1'']\<rparr>;
       c' = fst (handleAdminSplitShard (Some req) c)
   in \<exists>sh. sh \<in> set (smrShards (handleShardMap c')) \<and> siID sh = ''t'' \<and>
        rBootstrapShardID (init_replica init_io_ok 5 sh (handleShardMap c') demo_node) = ''s''"
proof -
  let ?c = "demo_coord\<lparr>coShards := demo_shards\<rparr>" and ?req = "\<lparr>sqSourceShardID = ''s'', sqNewShardID = ''t'', sqNewReplicas = [''n1'']\<rparr>"
  have "snd (handleAdminSplitShard (Some ?req) ?c) = Inr ()"
    by (simp add: handleAdminSplitShard_def demo_shards_def demo_info_def sh_Get_def AddShard_def)
  then have "handleAdminSplitShard (Some ?req) ?c = (fst (handleAdminSplitShard (Some ?req) ?c), Inr ())"
    by (metis prod.collapse)
  from split_bootstrap_lost [OF this refl, of init_io_ok 5 demo_node] show ?thesis by (simp add: Let_def)
qed


end
