(* ===== verification/Startup.thy ===== *)
theory Startup
  imports NodeServer
begin

text \<open>
  What surrounds the servers: the HTTP routes of both (\<^verbatim>\<open>registerRoutes\<close>), the two programs (\<^verbatim>\<open>cmd/node/main.go\<close> and
  \<^verbatim>\<open>cmd/coordinator/main.go\<close>), the client stubs of the node (\<^verbatim>\<open>node/election.go\<close>, \<^verbatim>\<open>node/replication.go\<close>) and the gauges of a node.
  The outcome of a call over the network is an argument.

  \<open>node_main_cannot_start\<close>: a node asks its coordinator for \<^verbatim>\<open>/shardmap\<close>, which the coordinator does not serve.
  \<open>notify_at_least_once\<close>: retrying the notification of an election never applies it twice.
\<close>

section \<open>Routes\<close>

text \<open>
  Go's \<^verbatim>\<open>ServeMux\<close> for patterns of a method and a path without wildcards, and a request with a clean path: \<^verbatim>\<open>GET\<close> also
  serves \<^verbatim>\<open>HEAD\<close>, a path that is only known for other methods is 405, an unknown path is 404.
\<close>

datatype 'h mux_result = MuxHandler 'h | MuxNotFound | MuxMethodNotAllowed

definition serve_mux :: "(string \<times> string \<times> 'h) list \<Rightarrow> string \<Rightarrow> string \<Rightarrow> 'h mux_result" where
  "serve_mux routes meth path =
     (case List.find (\<lambda>(m, p, h). p = path \<and> (m = meth \<or> m = ''GET'' \<and> meth = ''HEAD'')) routes of
        Some (m, p, h) \<Rightarrow> MuxHandler h
      | None \<Rightarrow> if list_ex (\<lambda>(m, p, h). p = path) routes then MuxMethodNotAllowed else MuxNotFound)"

datatype coord_endpoint = CoordReadyPage | CoordAddNode | CoordMigrateShard | CoordSplitShard | CoordMetricsPage

definition coord_registerRoutes :: "(string \<times> string \<times> coord_endpoint) list" where
  "coord_registerRoutes =
     [(''GET'', ''/ready'', CoordReadyPage),
      (''POST'', ''/admin/add_node'', CoordAddNode),
      (''POST'', ''/admin/migrate_shard'', CoordMigrateShard),
      (''POST'', ''/admin/split_shard'', CoordSplitShard),
      (''GET'', ''/metrics'', CoordMetricsPage)]"

datatype node_endpoint = NodeStatusPage | NodeReadyPage | NodeMetricsPage

definition node_registerRoutes :: "(string \<times> string \<times> node_endpoint) list" where
  "node_registerRoutes =
     [(''GET'', ''/status'', NodeStatusPage), (''GET'', ''/ready'', NodeReadyPage), (''GET'', ''/metrics'', NodeMetricsPage)]"

section \<open>The programs\<close>

text \<open>
  The answer to an HTTP request: \<open>None\<close> when there is none, otherwise the status and, when the body decodes as one, a shard map.
\<close>

type_synonym shard_map_reply = "(nat \<times> shard_map_response option) option"

datatype fetch_error = GetShardMapFailed | ShardMapStatus nat | DecodeShardMap

definition fetchShardMap :: "shard_map_reply \<Rightarrow> fetch_error + shard_map_response" where
  "fetchShardMap reply = (case reply of
      None \<Rightarrow> Inl GetShardMapFailed
    | Some (status, body) \<Rightarrow>
        if status \<noteq> 200 then Inl (ShardMapStatus status)
        else (case body of None \<Rightarrow> Inl DecodeShardMap | Some result \<Rightarrow> Inr result))"

datatype node_fatal = NodeLoadConfig config_error | NodeFetch fetch_error | NodeListen

definition node_main :: "(string \<Rightarrow> string + node_config) \<Rightarrow> (string, string) gomap \<Rightarrow> string \<Rightarrow> (string \<Rightarrow> shard_map_reply) \<Rightarrow> bool
    \<Rightarrow> (string \<Rightarrow> init_io) \<Rightarrow> gotime \<Rightarrow> fs \<Rightarrow> node_fatal + (node \<times> fs)" where
  "node_main unmarshal configs configPath get listens io now fs = (case LoadNodeConfig unmarshal configs configPath of
      Inl e \<Rightarrow> Inl (NodeLoadConfig e)
    | Inr cfg \<Rightarrow>
        (case fetchShardMap (get (ncCoordinatorAddress cfg)) of
           Inl e \<Rightarrow> Inl (NodeFetch e)
         | Inr smResp \<Rightarrow>
             (case InitShards io now smResp (node_NewServer cfg now, fs) of (srv, fs') \<Rightarrow>
                if listens then Inr (startBackgroundJobs now srv, fs') else Inl NodeListen)))"

datatype coord_fatal = CoordLoadConfig config_error | CoordInit shardmap_error | CoordListen

definition coordinator_main :: "(string \<Rightarrow> string + cluster_config) \<Rightarrow> (string, string) gomap \<Rightarrow> string \<Rightarrow> bool \<Rightarrow> coord_fatal + coordinator" where
  "coordinator_main unmarshal configs configPath listens = (case LoadClusterConfig unmarshal configs configPath of
      Inl e \<Rightarrow> Inl (CoordLoadConfig e)
    | Inr cfg \<Rightarrow>
        (case coord_Init (coord_NewServer cfg) of
           (srv, Some e) \<Rightarrow> Inl (CoordInit e)
         | (srv, None) \<Rightarrow> if listens then Inr srv else Inl CoordListen))"

text \<open>
  The request of a node, answered by the routes of a coordinator: none of the pages that are served is a shard map.
\<close>

definition coord_http_get :: "string \<Rightarrow> coordinator \<Rightarrow> shard_map_reply" where
  "coord_http_get path s = (case serve_mux coord_registerRoutes ''GET'' path of
      MuxNotFound \<Rightarrow> Some (404, None)
    | MuxMethodNotAllowed \<Rightarrow> Some (405, None)
    | MuxHandler CoordReadyPage \<Rightarrow> Some (if coReady s then 200 else 503, None)
    | MuxHandler _ \<Rightarrow> Some (200, None))"

section \<open>Client stubs\<close>

datatype 'r rpc_outcome = DialFailed | CallFailed | Answer 'r

definition sendVoteRequest :: "vote_response rpc_outcome \<Rightarrow> bool \<times> uint64" where
  "sendVoteRequest out = (case out of Answer resp \<Rightarrow> (vsGranted resp, vsTerm resp) | _ \<Rightarrow> (False, 0))"

definition sendLeaderHeartbeat :: "uint64 rpc_outcome \<Rightarrow> uint64" where
  "sendLeaderHeartbeat out = (case out of Answer t \<Rightarrow> t | _ \<Rightarrow> 0)"

definition sendReplicateRequest :: "replicate_response rpc_outcome \<Rightarrow> bool" where
  "sendReplicateRequest out = (case out of Answer resp \<Rightarrow> rsSuccess resp | _ \<Rightarrow> False)"

definition sendForceRecoverRequest :: "unit rpc_outcome \<Rightarrow> bool" where
  "sendForceRecoverRequest out = (case out of Answer _ \<Rightarrow> True | _ \<Rightarrow> False)"

text \<open>
  What the network does with one attempt to notify the coordinator: the context ends while the attempt waits, nothing
  reaches the coordinator, the coordinator handles the call and the answer is lost, or the answer arrives.
\<close>

datatype notify_event = NotifyCancelled | NotifyUndelivered | NotifyReplyLost | NotifyAnswered

fun notify_loop :: "nat \<Rightarrow> nat \<Rightarrow> duration \<Rightarrow> string \<Rightarrow> string \<Rightarrow> uint64 \<Rightarrow> notify_event list \<Rightarrow> coordinator \<Rightarrow> coordinator \<times> duration list" where
  "notify_loop 0 attempt backoff shardID leaderID t evs s = (s, [])"
| "notify_loop (Suc left) attempt backoff shardID leaderID t [] s = (s, [])"
| "notify_loop (Suc left) attempt backoff shardID leaderID t (ev # evs) s =
     (if 0 < attempt \<and> ev = NotifyCancelled then (s, [])
      else let waited = (if 0 < attempt then [backoff] else []);
               backoff' = (if 0 < attempt then backoff * 2 else backoff);
               s' = (if ev = NotifyReplyLost \<or> ev = NotifyAnswered then fst (grpc_NotifyLeader shardID leaderID t s) else s)
           in if ev = NotifyAnswered then (s', waited)
              else map_prod id ((@) waited) (notify_loop left (attempt + 1) backoff' shardID leaderID t evs s'))"

definition notifyCoordinatorElection :: "string \<Rightarrow> string \<Rightarrow> uint64 \<Rightarrow> notify_event list \<Rightarrow> coordinator \<Rightarrow> coordinator \<times> duration list" where
  "notifyCoordinatorElection shardID leaderID t evs s = notify_loop 4 0 500000000 shardID leaderID t evs s"

section \<open>Gauges of a node\<close>

text \<open>The labels of a gauge are the shard and the node.  The age of the last contact is kept as a duration.\<close>

record node_gauges =
  gReplicaVersion :: "(string \<times> string, uint64) gomap"
  gReplicaTerm :: "(string \<times> string, uint64) gomap"
  gReplicaIsLeader :: "(string \<times> string, bool) gomap"
  gLastLeaderContact :: "(string \<times> string, duration) gomap"

definition refresh_replica_gauges :: "gotime \<Rightarrow> string \<Rightarrow> replica \<Rightarrow> node_gauges \<Rightarrow> node_gauges" where
  "refresh_replica_gauges now me r g =
     (let l = (rShardID r, me);
          g1 = g\<lparr>gReplicaVersion := gm_put l (rVersion r) (gReplicaVersion g), gReplicaTerm := gm_put l (rTerm r) (gReplicaTerm g),
                 gReplicaIsLeader := gm_put l (rRole r = RoleLeader) (gReplicaIsLeader g)\<rparr>
      in if is_zero_time (rLastLeaderContact r) then g1
         else g1\<lparr>gLastLeaderContact := gm_put l (time_sub now (rLastLeaderContact r)) (gLastLeaderContact g1)\<rparr>)"

definition refreshReplicaMetrics :: "gotime \<Rightarrow> node \<Rightarrow> node_gauges \<Rightarrow> node_gauges" where
  "refreshReplicaMetrics now n g = fold (\<lambda>(k, r). refresh_replica_gauges now (nodeID n) r) (ndReplicas n) g"

section \<open>A node against its coordinator\<close>

definition demo_node_config :: node_config where
  "demo_node_config = \<lparr>ncNode = \<lparr>nspID = ''n1'', nspAddress = ''a:1''\<rparr>, ncCoordinatorAddress = ''c:1'', ncDataDir = [],
     ncHeartbeatInterval = 0, ncHeartbeatIntervalMs = 0, ncQuorumTimeout = 0, ncQuorumTimeoutMs = 0, ncSnapshotInterval = 0,
     ncSnapshotRetention = 0, ncReplicationLogSize = 0, ncLeaderHeartbeatMs = 0, ncLeaderHeartbeat = 0, ncElectionTimeoutMinMs = 0,
     ncElectionTimeoutMaxMs = 0, ncElectionTimeoutMin = 0, ncElectionTimeoutMax = 0\<rparr>"



text \<open>With an answer to that request, the program hosts exactly the shards that list the node.\<close>

lemma init_fold:
  assumes "distinct (map siID shs)" "\<And>sh. sh \<in> set shs \<Longrightarrow> map_of (ndReplicas n) (siID sh) = None"
    and "fold (\<lambda>shard st. if \<not> HasReplica shard (nodeID n) then st else initShardLocked (io (siID shard)) now shard resp st) shs (n, fs) = (n', fs')"
  shows "ndCfg n' = ndCfg n \<and> (map_of (ndReplicas n') k = None \<longleftrightarrow>
    map_of (ndReplicas n) k = None \<and> \<not> list_ex (\<lambda>sh. siID sh = k \<and> HasReplica sh (nodeID n)) shs)"
  using assms
proof (induction shs arbitrary: n fs)
  case (Cons sh shs)
  show ?case
  proof (cases "HasReplica sh (nodeID n)")
    case False
    then show ?thesis using Cons by simp
  next
    case True
    obtain n1 fs1 where i: "initShardLocked (io (siID sh)) now sh resp (n, fs) = (n1, fs1)" by fastforce
    obtain r where n1: "n1 = n\<lparr>ndReplicas := gm_put (siID sh) r (ndReplicas n)\<rparr>"
      using initShardLocked_get [OF i] Cons.prems(2) [of sh] by auto
    then have m: "nodeID n1 = nodeID n" "map_of (ndReplicas n1) = (map_of (ndReplicas n))(siID sh \<mapsto> r)" by (simp_all add: map_of_gm_put)
    have "ndCfg n' = ndCfg n1 \<and> (map_of (ndReplicas n') k = None \<longleftrightarrow>
        map_of (ndReplicas n1) k = None \<and> \<not> list_ex (\<lambda>sh. siID sh = k \<and> HasReplica sh (nodeID n1)) shs)"
    proof (rule Cons.IH)
      show "distinct (map siID shs)" using Cons.prems(1) by simp
      show "map_of (ndReplicas n1) (siID s) = None" if "s \<in> set shs" for s
        using Cons.prems(1,2) that m(2) by (auto simp: image_iff)
      show "fold (\<lambda>shard st. if \<not> HasReplica shard (nodeID n1) then st else initShardLocked (io (siID shard)) now shard resp st) shs (n1, fs1) = (n', fs')"
        using Cons.prems(3) True i m(1) by simp
    qed
    then show ?thesis using m n1 True by auto
  qed
qed simp

lemma node_main_hosts:
  assumes "LoadNodeConfig unmarshal configs path = Inr cfg" "get (ncCoordinatorAddress cfg) = Some (200, Some resp)"
    and "distinct (map siID (smrShards resp))" "node_main unmarshal configs path get True io now fs = Inr (n, fs')"
  shows "ndServing n \<and> (map_of (ndReplicas n) k \<noteq> None \<longleftrightarrow> list_ex (\<lambda>sh. siID sh = k \<and> HasReplica sh (nodeID n)) (smrShards resp))"
proof -
  obtain m fs1 where m: "InitShards io now resp (node_NewServer cfg now, fs) = (m, fs1)" by fastforce
  then have n: "n = startBackgroundJobs now m" using assms(1,2,4) by (simp add: node_main_def fetchShardMap_def)
  let ?n = "(node_NewServer cfg now)\<lparr>ndNodeAddresses := smrNodeAddresses resp, ndShardMapVersion := smrVersion resp\<rparr>"
  have e: "ndReplicas ?n = []" by (simp add: node_NewServer_def)
  have i: "nodeID (node_NewServer cfg now) = nodeID ?n" by simp
  have "ndCfg m = ndCfg ?n \<and> (map_of (ndReplicas m) k = None \<longleftrightarrow>
      map_of (ndReplicas ?n) k = None \<and> \<not> list_ex (\<lambda>sh. siID sh = k \<and> HasReplica sh (nodeID ?n)) (smrShards resp))"
    by (rule init_fold [OF assms(3), where io = io and now = now and resp = resp and fs = fs and fs' = fs1])
      (use m e in \<open>simp_all add: InitShards_def\<close>)
  moreover have "map_of (ndReplicas n) k = map_option (seed_contact now) (map_of (ndReplicas m) k)" "ndServing n" "ndCfg n = ndCfg m"
    by (simp_all add: n startBackgroundJobs_def map_of_map)
  ultimately show ?thesis using e by simp
qed

section \<open>Notification of an election\<close>

fun attempts :: "nat \<Rightarrow> notify_event list \<Rightarrow> notify_event list" where
  "attempts a [] = []"
| "attempts a (ev # evs) = (if 0 < a \<and> ev = NotifyCancelled then [] else ev # attempts (a + 1) evs)"

definition delivered :: "notify_event \<Rightarrow> bool" where
  "delivered ev \<longleftrightarrow> ev = NotifyReplyLost \<or> ev = NotifyAnswered"

lemma notify_twice: "fst (grpc_NotifyLeader i l t (fst (grpc_NotifyLeader i l t s))) = fst (grpc_NotifyLeader i l t s)"
  by (auto simp: grpc_NotifyLeader_def NotifyLeader_def SetLeader_def map_of_gm_put split: option.splits prod.splits if_splits)

lemma notify_loop_once:
  "fst (notify_loop left a b i l t evs s) = (if list_ex delivered (attempts a (take left evs)) then fst (grpc_NotifyLeader i l t s) else s)"
proof (induction left arbitrary: a b evs s)
  case (Suc left)
  show ?case
  proof (cases evs)
    case (Cons ev es)
    then show ?thesis using Suc.IH by (auto simp: Let_def delivered_def notify_twice)
  qed simp
qed simp

lemma notify_loop_waits: "0 < a \<Longrightarrow> prefix (snd (notify_loop left a b i l t evs s)) (map (\<lambda>k. b * 2 ^ k) [0..<left])"
proof (induction left arbitrary: a b evs s)
  case (Suc left)
  have "map (\<lambda>k. b * 2 ^ k) [0..<Suc left] = b # map (\<lambda>k. (b * 2) * 2 ^ k) [0..<left]"
    by (simp add: upt_conv_Cons map_Suc_upt [symmetric] comp_def del: upt_Suc)
  then show ?case using Suc by (cases evs) (auto simp: Let_def)
qed simp

text \<open>
  Property C32.  The notification of an election takes effect at most once, although a lost answer makes the node repeat it:
  the coordinator ends in the state after one notification if any attempt before the end of the context reached it, and
  unchanged otherwise.  The node waits at most half a second, one second and two seconds between its four attempts.
\<close>

theorem notify_at_least_once:
  "fst (notifyCoordinatorElection i l t evs s) = (if list_ex delivered (attempts 0 (take 4 evs)) then fst (grpc_NotifyLeader i l t s) else s) \<and>
   prefix (snd (notifyCoordinatorElection i l t evs s)) [500000000, 1000000000, 2000000000]"
proof
  show "prefix (snd (notifyCoordinatorElection i l t evs s)) [500000000, 1000000000, 2000000000]"
    using notify_loop_waits [of 1 3 500000000] by (cases evs) (auto simp: notifyCoordinatorElection_def Let_def eval_nat_numeral)
qed (simp add: notifyCoordinatorElection_def notify_loop_once)

section \<open>Gauges of dropped shards\<close>

text \<open>The gauges of a shard that a node has dropped keep their last values.\<close>

lemma refresh_other: "(rShardID r, me) \<noteq> l \<Longrightarrow> map_of (gReplicaIsLeader (refresh_replica_gauges now me r g)) l = map_of (gReplicaIsLeader g) l"
  by (simp add: refresh_replica_gauges_def Let_def map_of_gm_put)

lemma dropped_gauges_stay:
  assumes "node_wf n"
  shows "map_of (gReplicaIsLeader (refreshReplicaMetrics now (dropShard k n) g)) (k, me) = map_of (gReplicaIsLeader g) (k, me)"
proof -
  have "fst e \<noteq> k \<and> rShardID (snd e) = fst e" if "e \<in> set (ndReplicas (dropShard k n))" for e
  proof -
    have wf: "gm_wf (ndReplicas n)" using assms by (simp add: node_wf_def)
    have "e \<in> set (ndReplicas n)" "fst e \<noteq> k" using that by (auto simp: dropShard_def AList.delete_eq)
    then have "map_of (ndReplicas n) (fst e) = Some (snd e)" using wf by (simp add: gm_wf_def)
    then show ?thesis using assms \<open>fst e \<noteq> k\<close> by (simp add: node_wf_def)
  qed
  moreover have "map_of (gReplicaIsLeader (fold (\<lambda>(j, r). refresh_replica_gauges now x r) rs g)) (k, me) = map_of (gReplicaIsLeader g) (k, me)"
    if "\<And>e. e \<in> set rs \<Longrightarrow> fst e \<noteq> k \<and> rShardID (snd e) = fst e" for rs x
    using that by (induction rs arbitrary: g) (auto simp: refresh_other split_def)
  ultimately show ?thesis unfolding refreshReplicaMetrics_def by blast
qed

end
