(* ===== verification/SqlLexer.thy ===== *)
theory SqlLexer
  imports Json
begin

text \<open>
  The SQL lexer: \<^verbatim>\<open>internal/sql/token.go\<close> and \<^verbatim>\<open>internal/sql/lexer.go\<close>.  The lexer's state, the input and a position,
  is the rest of the input from the position on, together with the position; a loop that advances
  while a test holds is \<open>takeWhile\<close>.  \<open>Lex\<close> is total: every step consumes a byte (\<open>lex_token_rest\<close>).

  \<open>unlex\<close> writes tokens with a blank after each, \<open>token_ok\<close> says which literals a token of a type may carry.
  The lexer produces only such tokens (\<open>Lex_ok\<close>), and reads them back (\<open>Lex_unlex\<close>).
\<close>


datatype token_type =
    TOKEN_SELECT | TOKEN_INSERT | TOKEN_UPDATE | TOKEN_DELETE | TOKEN_CREATE | TOKEN_TABLE | TOKEN_FROM | TOKEN_WHERE
  | TOKEN_INTO | TOKEN_VALUES | TOKEN_SET | TOKEN_PRIMARY | TOKEN_KEY | TOKEN_INT | TOKEN_TEXT | TOKEN_BOOL | TOKEN_NOT
  | TOKEN_NULL | TOKEN_AND | TOKEN_OR | TOKEN_TRUE | TOKEN_FALSE
  | TOKEN_IDENT | TOKEN_NUMBER | TOKEN_STRING
  | TOKEN_LPAREN | TOKEN_RPAREN | TOKEN_COMMA | TOKEN_SEMICOLON | TOKEN_EQ | TOKEN_NEQ | TOKEN_LT | TOKEN_GT
  | TOKEN_LTE | TOKEN_GTE | TOKEN_STAR
  | TOKEN_EOF

definition keyword_map :: "(string, token_type) gomap" where
  "keyword_map = [(''select'', TOKEN_SELECT), (''insert'', TOKEN_INSERT), (''update'', TOKEN_UPDATE), (''delete'', TOKEN_DELETE),
     (''create'', TOKEN_CREATE), (''table'', TOKEN_TABLE), (''from'', TOKEN_FROM), (''where'', TOKEN_WHERE), (''into'', TOKEN_INTO),
     (''values'', TOKEN_VALUES), (''set'', TOKEN_SET), (''primary'', TOKEN_PRIMARY), (''key'', TOKEN_KEY), (''int'', TOKEN_INT),
     (''text'', TOKEN_TEXT), (''bool'', TOKEN_BOOL), (''not'', TOKEN_NOT), (''null'', TOKEN_NULL), (''and'', TOKEN_AND),
     (''or'', TOKEN_OR), (''true'', TOKEN_TRUE), (''false'', TOKEN_FALSE)]"

record token =
  tkType :: token_type
  tkLiteral :: string
  tkPos :: nat

datatype lex_error = UnexpectedBang nat | UnexpectedChar char nat | UnterminatedString nat

section \<open>The scanner\<close>

definition isLetter :: "char \<Rightarrow> bool" where
  "isLetter ch \<longleftrightarrow> (97 \<le> (of_char ch :: nat) \<and> (of_char ch :: nat) \<le> 122) \<or> (65 \<le> (of_char ch :: nat) \<and> (of_char ch :: nat) \<le> 90) \<or>
     ch = CHR ''_''"

definition isDigit :: "char \<Rightarrow> bool" where
  "isDigit ch \<longleftrightarrow> 48 \<le> (of_char ch :: nat) \<and> (of_char ch :: nat) \<le> 57"

definition isLetterOrDigit :: "char \<Rightarrow> bool" where
  "isLetterOrDigit ch \<longleftrightarrow> isLetter ch \<or> isDigit ch"

abbreviation newline :: char where "newline \<equiv> CHR 0x0A"

abbreviation squote :: char where "squote \<equiv> CHR 0x27"

fun skip_line :: "string \<Rightarrow> nat \<Rightarrow> string \<times> nat" where
  "skip_line [] pos = ([], pos)"
| "skip_line (ch # rest) pos = (if ch \<noteq> newline then skip_line rest (pos + 1) else (ch # rest, pos))"

lemma skip_line_length: "length (fst (skip_line s pos)) \<le> length s"
  by (induction s pos rule: skip_line.induct) auto

function skipWhitespaceAndComments :: "string \<Rightarrow> nat \<Rightarrow> string \<times> nat" where
  "skipWhitespaceAndComments [] pos = ([], pos)"
| "skipWhitespaceAndComments (ch # rest) pos =
     (if ch = CHR '' '' \<or> ch = CHR 0x09 \<or> ch = newline \<or> ch = CHR 0x0D then skipWhitespaceAndComments rest (pos + 1)
      else if ch = CHR ''-'' \<and> rest \<noteq> [] \<and> hd rest = CHR ''-''
      then skipWhitespaceAndComments (fst (skip_line (ch # rest) pos)) (snd (skip_line (ch # rest) pos))
      else (ch # rest, pos))"
  by pat_completeness auto
termination
  by (relation "measure (length o fst)") (auto simp: less_Suc_eq_le skip_line_length)

definition lexIdentOrKeyword :: "string \<Rightarrow> nat \<Rightarrow> token \<times> string \<times> nat" where
  "lexIdentOrKeyword s start =
     (let literal = takeWhile isLetterOrDigit s; lower = map ascii_lower literal; rest = dropWhile isLetterOrDigit s in
      case gm_get keyword_map lower of
        Some tt \<Rightarrow> (\<lparr>tkType = tt, tkLiteral = literal, tkPos = start\<rparr>, rest, start + length literal)
      | None \<Rightarrow> (\<lparr>tkType = TOKEN_IDENT, tkLiteral = literal, tkPos = start\<rparr>, rest, start + length literal))"

definition lexNumber :: "string \<Rightarrow> nat \<Rightarrow> token \<times> string \<times> nat" where
  "lexNumber s start =
     (let literal = takeWhile isDigit s
      in (\<lparr>tkType = TOKEN_NUMBER, tkLiteral = literal, tkPos = start\<rparr>, dropWhile isDigit s, start + length literal))"

text \<open>The loop of \<^verbatim>\<open>lexString\<close> after the opening quote: the bytes written and the rest after the closing quote.\<close>

fun string_loop :: "string \<Rightarrow> (string \<times> string) option" where
  "string_loop [] = None"
| "string_loop (ch # rest) =
     (if ch = squote then
        (case rest of
           d # rest' \<Rightarrow> if d = squote then map_option (apfst ((#) squote)) (string_loop rest') else Some ([], rest)
         | [] \<Rightarrow> Some ([], rest))
      else map_option (apfst ((#) ch)) (string_loop rest))"

definition lexString :: "string \<Rightarrow> nat \<Rightarrow> lex_error + (token \<times> string \<times> nat)" where
  "lexString s start = (case string_loop (tl s) of
      None \<Rightarrow> Inl (UnterminatedString start)
    | Some (literal, rest) \<Rightarrow>
        Inr (\<lparr>tkType = TOKEN_STRING, tkLiteral = literal, tkPos = start\<rparr>, rest, start + (length s - length rest)))"

text \<open>One round of the loop of \<^verbatim>\<open>lex\<close>, at the byte \<open>ch\<close>: the token, the rest and its position.\<close>

definition lex_token :: "char \<Rightarrow> string \<Rightarrow> nat \<Rightarrow> lex_error + (token \<times> string \<times> nat)" where
  "lex_token ch rest startPos =
     (let one = (\<lambda>tt. Inr (\<lparr>tkType = tt, tkLiteral = [ch], tkPos = startPos\<rparr>, rest, startPos + 1));
          two = (\<lambda>tt. Inr (\<lparr>tkType = tt, tkLiteral = [ch, CHR ''=''], tkPos = startPos\<rparr>, tl rest, startPos + 2));
          eq_next = (rest \<noteq> [] \<and> hd rest = CHR ''='') in
      if isLetter ch then Inr (lexIdentOrKeyword (ch # rest) startPos)
      else if isDigit ch then Inr (lexNumber (ch # rest) startPos)
      else if ch = squote then lexString (ch # rest) startPos
      else if ch = CHR ''('' then one TOKEN_LPAREN
      else if ch = CHR '')'' then one TOKEN_RPAREN
      else if ch = CHR '','' then one TOKEN_COMMA
      else if ch = CHR '';'' then one TOKEN_SEMICOLON
      else if ch = CHR ''*'' then one TOKEN_STAR
      else if ch = CHR ''='' then one TOKEN_EQ
      else if ch = CHR ''!'' then (if eq_next then two TOKEN_NEQ else Inl (UnexpectedBang startPos))
      else if ch = CHR ''<'' then (if eq_next then two TOKEN_LTE else one TOKEN_LT)
      else if ch = CHR ''>'' then (if eq_next then two TOKEN_GTE else one TOKEN_GT)
      else Inl (UnexpectedChar ch startPos))"

lemma string_loop_length: "string_loop s = Some (l, r) \<Longrightarrow> length r < length s"
  by (induction s arbitrary: l r rule: string_loop.induct) (fastforce split: if_splits list.splits)+

lemma lex_token_rest:
  assumes "lex_token ch rest pos = Inr (tok, rest', pos')"
  shows "length rest' \<le> length rest"
proof -
  have "length (dropWhile P (ch # rest)) \<le> length rest" if "P ch" for P :: "char \<Rightarrow> bool"
    using that by (simp add: length_dropWhile_le)
  then show ?thesis
    using assms by (auto simp: lex_token_def Let_def lexIdentOrKeyword_def lexNumber_def lexString_def isLetterOrDigit_def
        length_dropWhile_le dest: string_loop_length split: if_splits option.splits prod.splits)
qed

lemma skip_length: "length (fst (skipWhitespaceAndComments s pos)) \<le> length s"
proof (induction s pos rule: skipWhitespaceAndComments.induct)
  case (2 ch rest pos)
  then show ?case using skip_line_length [of "ch # rest" pos] by auto
qed simp

lemma lex_step_length:
  "\<lbrakk>skipWhitespaceAndComments s pos = (ch # rest, q); lex_token ch rest q = Inr (tok, rest', q')\<rbrakk> \<Longrightarrow> length rest' < length s"
  using skip_length [of s pos] lex_token_rest [of ch rest q tok rest' q'] by simp

function lex_loop :: "string \<Rightarrow> nat \<Rightarrow> lex_error + token list" where
  "lex_loop s pos = (case skipWhitespaceAndComments s pos of
      ([], q) \<Rightarrow> Inr [\<lparr>tkType = TOKEN_EOF, tkLiteral = [], tkPos = q\<rparr>]
    | (ch # rest, q) \<Rightarrow>
        (case lex_token ch rest q of
           Inl e \<Rightarrow> Inl e
         | Inr (tok, rest', q') \<Rightarrow> map_sum id ((#) tok) (lex_loop rest' q')))"
  by pat_completeness auto

termination
  by (relation "measure (length o fst)") (auto dest!: sym [of _ "skipWhitespaceAndComments _ _"] dest: lex_step_length)

declare lex_loop.simps [simp del]

definition Lex :: "string \<Rightarrow> lex_error + token list" where
  "Lex input = lex_loop input 0"

section \<open>Tokens and their text\<close>

definition word_ok :: "string \<Rightarrow> bool" where
  "word_ok l \<longleftrightarrow> l \<noteq> [] \<and> isLetter (hd l) \<and> list_all isLetterOrDigit l"

definition ident_ok :: "string \<Rightarrow> bool" where
  "ident_ok l \<longleftrightarrow> word_ok l \<and> gm_get keyword_map (map ascii_lower l) = None"

fun punct :: "token_type \<Rightarrow> string" where
  "punct TOKEN_LPAREN = ''(''"
| "punct TOKEN_RPAREN = '')''"
| "punct TOKEN_COMMA = '',''"
| "punct TOKEN_SEMICOLON = '';''"
| "punct TOKEN_EQ = ''=''"
| "punct TOKEN_NEQ = ''!=''"
| "punct TOKEN_LT = ''<''"
| "punct TOKEN_GT = ''>''"
| "punct TOKEN_LTE = ''<=''"
| "punct TOKEN_GTE = ''>=''"
| "punct TOKEN_STAR = ''*''"
| "punct _ = []"

fun token_ok :: "token_type \<times> string \<Rightarrow> bool" where
  "token_ok (TOKEN_IDENT, l) = ident_ok l"
| "token_ok (TOKEN_NUMBER, l) = (l \<noteq> [] \<and> list_all isDigit l)"
| "token_ok (TOKEN_STRING, l) = True"
| "token_ok (TOKEN_EOF, l) = (l = [])"
| "token_ok (tt, l) = (if punct tt \<noteq> [] then l = punct tt else word_ok l \<and> gm_get keyword_map (map ascii_lower l) = Some tt)"

definition sql_escape :: "string \<Rightarrow> string" where
  "sql_escape l = concat (map (\<lambda>c. if c = squote then [squote, squote] else [c]) l)"

definition token_text :: "token_type \<times> string \<Rightarrow> string" where
  "token_text t = (if fst t = TOKEN_STRING then squote # sql_escape (snd t) @ [squote] else snd t)"

definition unlex :: "(token_type \<times> string) list \<Rightarrow> string" where
  "unlex ts = concat (map (\<lambda>t. token_text t @ '' '') ts)"

fun place :: "nat \<Rightarrow> (token_type \<times> string) list \<Rightarrow> token list" where
  "place pos [] = []"
| "place pos (t # ts) = \<lparr>tkType = fst t, tkLiteral = snd t, tkPos = pos\<rparr> # place (pos + length (token_text t) + 1) ts"

abbreviation strip :: "token \<Rightarrow> token_type \<times> string" where
  "strip t \<equiv> (tkType t, tkLiteral t)"

lemma isLetter_simps [simp]:
  "isLetter c \<Longrightarrow> c \<noteq> CHR '' ''" "isLetter c \<Longrightarrow> c \<noteq> CHR 0x09" "isLetter c \<Longrightarrow> c \<noteq> newline" "isLetter c \<Longrightarrow> c \<noteq> CHR 0x0D"
  "isLetter c \<Longrightarrow> c \<noteq> CHR ''-''"
  by (auto simp: isLetter_def)

lemma isDigit_simps [simp]:
  "isDigit c \<Longrightarrow> c \<noteq> CHR '' ''" "isDigit c \<Longrightarrow> c \<noteq> CHR 0x09" "isDigit c \<Longrightarrow> c \<noteq> newline" "isDigit c \<Longrightarrow> c \<noteq> CHR 0x0D"
  "isDigit c \<Longrightarrow> c \<noteq> CHR ''-''" "isDigit c \<Longrightarrow> \<not> isLetter c"
  by (auto simp: isDigit_def isLetter_def)

lemma isLetter_blank [simp]: "\<not> isLetterOrDigit (CHR '' '')" "\<not> isDigit (CHR '' '')"
  by (simp_all add: isLetterOrDigit_def isLetter_def isDigit_def)

lemma string_loop_escape: "hd (r @ '' '') \<noteq> squote \<Longrightarrow> string_loop (sql_escape l @ squote # r) = Some (l, r)"
  by (induction l) (auto simp: sql_escape_def split: list.splits)

lemma lex_token_text:
  assumes "token_ok t" "fst t \<noteq> TOKEN_EOF"
  obtains ch cs where "token_text t = ch # cs" "skipWhitespaceAndComments (ch # cs @ '' '' @ r) pos = (ch # cs @ '' '' @ r, pos)"
    "lex_token ch (cs @ '' '' @ r) pos = Inr (\<lparr>tkType = fst t, tkLiteral = snd t, tkPos = pos\<rparr>, '' '' @ r, pos + length (token_text t))"
proof -
  obtain tt l where t: "t = (tt, l)" by fastforce
  consider (word) "word_ok l" "tt \<noteq> TOKEN_STRING" "gm_get keyword_map (map ascii_lower l) = (if tt = TOKEN_IDENT then None else Some tt)"
    | (number) "tt = TOKEN_NUMBER" "l \<noteq> []" "list_all isDigit l" | (string) "tt = TOKEN_STRING" | (punct) "punct tt \<noteq> []" "l = punct tt"
    using assms by (cases tt) (auto simp: t ident_ok_def split: if_splits)
  then show thesis
  proof cases
    case word
    then obtain c cs where l: "l = c # cs" "isLetter c" "list_all isLetterOrDigit (c # cs)" by (cases l) (auto simp: word_ok_def)
    have "takeWhile isLetterOrDigit (l @ CHR '' '' # r) = l" "dropWhile isLetterOrDigit (l @ CHR '' '' # r) = CHR '' '' # r"
      using l by (auto simp: takeWhile_append dropWhile_append list_all_iff)
    then have "lexIdentOrKeyword (c # cs @ CHR '' '' # r) pos = (\<lparr>tkType = tt, tkLiteral = l, tkPos = pos\<rparr>, '' '' @ r, pos + length l)"
      using word(3) l(1) by (simp add: lexIdentOrKeyword_def Let_def split: if_splits)
    then show thesis using l word(2) by (intro that [of c cs]) (simp_all add: t token_text_def lex_token_def)
  next
    case number
    then obtain c cs where l: "l = c # cs" "isDigit c" "list_all isDigit cs" by (cases l) auto
    have "takeWhile isDigit (l @ CHR '' '' # r) = l" "dropWhile isDigit (l @ CHR '' '' # r) = CHR '' '' # r"
      using l by (auto simp: takeWhile_append dropWhile_append list_all_iff)
    then show thesis using l number(1) by (intro that [of c cs]) (simp_all add: t token_text_def lex_token_def lexNumber_def Let_def)
  next
    case string
    have "string_loop (sql_escape l @ squote # CHR '' '' # r) = Some (l, CHR '' '' # r)" by (rule string_loop_escape) simp
    then show thesis using string
      by (intro that [of squote "sql_escape l @ [squote]"]) (simp_all add: t token_text_def lex_token_def lexString_def isLetter_def isDigit_def)
  next
    case punct
    then have "\<exists>ch cs. token_text t = ch # cs \<and> skipWhitespaceAndComments (ch # cs @ '' '' @ r) pos = (ch # cs @ '' '' @ r, pos) \<and>
        lex_token ch (cs @ '' '' @ r) pos = Inr (\<lparr>tkType = fst t, tkLiteral = snd t, tkPos = pos\<rparr>, '' '' @ r, pos + length (token_text t))"
      by (cases tt) (simp_all add: t token_text_def lex_token_def isLetter_def isDigit_def)
    then show thesis using that by blast
  qed
qed

lemma lex_loop_blank: "lex_loop (CHR '' '' # r) pos = lex_loop r (pos + 1)"
  by (simp add: lex_loop.simps [of "CHR '' '' # r"] lex_loop.simps [of r])

lemma lex_loop_unlex:
  "list_all (\<lambda>t. token_ok t \<and> fst t \<noteq> TOKEN_EOF) ts \<Longrightarrow>
   lex_loop (unlex ts @ r) pos = map_sum id ((@) (place pos ts)) (lex_loop r (pos + length (unlex ts)))"
proof (induction ts arbitrary: pos)
  case Nil
  show ?case by (cases "lex_loop r pos") (simp_all add: unlex_def)
next
  case (Cons t ts)
  then obtain ch cs where c: "token_text t = ch # cs"
    "skipWhitespaceAndComments (ch # cs @ '' '' @ unlex ts @ r) pos = (ch # cs @ '' '' @ unlex ts @ r, pos)"
    "lex_token ch (cs @ '' '' @ unlex ts @ r) pos =
       Inr (\<lparr>tkType = fst t, tkLiteral = snd t, tkPos = pos\<rparr>, '' '' @ unlex ts @ r, pos + length (token_text t))"
    using lex_token_text [of t "unlex ts @ r" pos] by auto
  have "lex_loop (unlex (t # ts) @ r) pos =
      map_sum id ((#) \<lparr>tkType = fst t, tkLiteral = snd t, tkPos = pos\<rparr>) (lex_loop (unlex ts @ r) (pos + length (token_text t) + 1))"
    using c by (simp add: unlex_def lex_loop.simps [of "ch # _"] lex_loop_blank del: skipWhitespaceAndComments.simps)
  also have "\<dots> = map_sum id ((@) (place pos (t # ts))) (lex_loop r (pos + length (unlex (t # ts))))"
  proof -
    have e: "pos + length (token_text t) + 1 + length (unlex ts) = pos + length (unlex (t # ts))" by (simp add: unlex_def)
    have "list_all (\<lambda>t. token_ok t \<and> fst t \<noteq> TOKEN_EOF) ts" using Cons.prems by simp
    from Cons.IH [OF this, of "pos + length (token_text t) + 1", unfolded e] show ?thesis
      by (cases "lex_loop r (pos + length (unlex (t # ts)))") simp_all
  qed
  finally show ?case .
qed

lemma Lex_unlex:
  assumes "list_all (\<lambda>t. token_ok t \<and> fst t \<noteq> TOKEN_EOF) ts" "lex_loop r (length (unlex ts)) = Inr rs"
  shows "Lex (unlex ts @ r) = Inr (place 0 ts @ rs)"
  using lex_loop_unlex [OF assms(1), of r 0] assms(2) by (simp add: Lex_def)

lemma keyword_token_ok: "word_ok l \<Longrightarrow> gm_get keyword_map (map ascii_lower l) = Some tt \<Longrightarrow> token_ok (tt, l) \<and> tt \<noteq> TOKEN_EOF"
proof -
  assume a: "word_ok l" "gm_get keyword_map (map ascii_lower l) = Some tt"
  then have "tt \<in> set (map snd keyword_map)" by (force dest: map_of_SomeD)
  then have "punct tt = []" "tt \<notin> {TOKEN_IDENT, TOKEN_NUMBER, TOKEN_STRING, TOKEN_EOF}" by (auto simp: keyword_map_def)
  with a show ?thesis by (cases tt) simp_all
qed

lemma lex_token_ok:
  assumes "lex_token ch rest pos = Inr (tok, r, q)"
  shows "token_ok (strip tok) \<and> tkType tok \<noteq> TOKEN_EOF"
proof (cases "isLetter ch")
  case True
  then have "word_ok (takeWhile isLetterOrDigit (ch # rest))"
    by (auto simp: word_ok_def isLetterOrDigit_def list_all_iff dest: set_takeWhileD)
  then show ?thesis
    using True assms keyword_token_ok [of "takeWhile isLetterOrDigit (ch # rest)"]
    by (auto simp: lex_token_def lexIdentOrKeyword_def Let_def ident_ok_def split: option.splits)
next
  case False
  show ?thesis
  proof (cases "isDigit ch")
    case True
    with False assms show ?thesis
      by (auto simp: lex_token_def lexNumber_def Let_def list_all_iff dest: set_takeWhileD)
  next
    case nodigit: False
    with False assms show ?thesis
      by (auto simp: lex_token_def lexString_def Let_def split: if_splits option.splits)
  qed
qed

lemma lex_loop_ok:
  "lex_loop s pos = Inr toks \<Longrightarrow>
   \<exists>ts e. toks = ts @ [e] \<and> tkType e = TOKEN_EOF \<and> tkLiteral e = [] \<and> list_all (\<lambda>t. token_ok (strip t) \<and> tkType t \<noteq> TOKEN_EOF) ts"
proof (induction s pos arbitrary: toks rule: lex_loop.induct)
  case (1 s pos)
  obtain t q where t: "skipWhitespaceAndComments s pos = (t, q)" by fastforce
  show ?case
  proof (cases t)
    case Nil
    with 1 t show ?thesis by (auto simp: lex_loop.simps [of s])
  next
    case (Cons ch rest)
    with 1(2) t obtain tok rest' q' us where u: "lex_token ch rest q = Inr (tok, rest', q')" "lex_loop rest' q' = Inr us" "toks = tok # us"
      by (auto simp: lex_loop.simps [of s] split: sum.splits prod.splits)
        (metis map_sum.simps sum.exhaust sum.inject(2) sum.simps(4))
    from 1(1) [OF t [symmetric] Cons u(1) refl refl u(2)] obtain ts e
      where "us = ts @ [e]" "tkType e = TOKEN_EOF" "tkLiteral e = []" "list_all (\<lambda>t. token_ok (strip t) \<and> tkType t \<noteq> TOKEN_EOF) ts" by blast
    then show ?thesis using u(3) lex_token_ok [OF u(1)] by (intro exI [of _ "tok # ts"] exI [of _ e]) simp
  qed
qed

lemma Lex_ok:
  assumes "Lex s = Inr toks"
  obtains ts e where "toks = ts @ [e]" "tkType e = TOKEN_EOF" "tkLiteral e = []" "list_all (\<lambda>t. token_ok (strip t) \<and> tkType t \<noteq> TOKEN_EOF) ts"
  using lex_loop_ok assms unfolding Lex_def by blast

end
