(* ===== verification/SqlParser.thy ===== *)
theory SqlParser
  imports SqlLexer Snapshot
begin

text \<open>
  The syntax trees and the recursive-descent parser: \<^verbatim>\<open>internal/sql/ast.go\<close> and \<^verbatim>\<open>internal/sql/parser.go\<close>, with the column
  definitions of \<^verbatim>\<open>internal/sql/catalog.go\<close>.  The parser's state, a slice and a position, is the list of the
  tokens from the position on; reading past the end gives an EOF token.  The expression parsers
  call each other and take fuel; \<open>parse_expr\<close> gives three units per token and three more, which is
  always enough (\<open>expr_fuel\<close>), so \<open>OutOfFuel\<close> is never returned (\<open>Parse_terminates\<close>).  The loops over
  comma-separated lists are \<open>comma_loop\<close>.

  \<open>print_stmt\<close> writes a statement with every compound operand in parentheses.  \<open>Parse_canonical\<close> shows that what the
  parser accepts is what can be printed, and that parsing is the inverse of printing.
\<close>

datatype any_value = AnyInt int | AnyFloat string | AnyString string | AnyBool bool | AnyNil
  | AnyList "any_value list" | AnyMap "(string \<times> any_value) list"

datatype expr = BinaryExpr expr string expr | ColumnRef string | Literal any_value | StarExpr

datatype column_type = TypeInt | TypeText | TypeBool

record column_def =
  cdName :: string
  cdType :: column_type
  cdPrimaryKey :: bool
  cdNotNull :: bool

record assignment =
  asColumn :: string
  asValue :: expr

datatype statement =
    CreateTableStmt string "column_def list"
  | InsertStmt string "string list" "expr list"
  | SelectStmt "expr list" string "expr option"
  | UpdateStmt string "assignment list" "expr option"
  | DeleteStmt string "expr option"

datatype parse_error = LexErr lex_error | Expected token_type token | UnexpectedStatement token | ExpectedColumnType token
  | InvalidNumber token | UnexpectedInExpr token | OutOfFuel

type_synonym 'a parser = "token list \<Rightarrow> parse_error + ('a \<times> token list)"

text \<open>The statement \<^verbatim>\<open>if err != nil { return err }\<close> after a call.\<close>

definition err_bind :: "'e + 'a \<Rightarrow> ('a \<Rightarrow> 'e + 'b) \<Rightarrow> 'e + 'b" where
  "err_bind m f = (case m of Inl e \<Rightarrow> Inl e | Inr x \<Rightarrow> f x)"

lemma err_bind_simps [simp]: "err_bind (Inl e) f = Inl e" "err_bind (Inr x) f = f x"
  by (simp_all add: err_bind_def)

lemma err_bind_Inr: "err_bind m f = Inr y \<longleftrightarrow> (\<exists>x. m = Inr x \<and> f x = Inr y)"
  by (cases m) simp_all

lemma err_bind_Inl: "err_bind m f = Inl e \<longleftrightarrow> m = Inl e \<or> (\<exists>x. m = Inr x \<and> f x = Inl e)"
  by (cases m) simp_all

section \<open>Tokens\<close>

definition peek :: "token list \<Rightarrow> token" where
  "peek ts = (case ts of [] \<Rightarrow> \<lparr>tkType = TOKEN_EOF, tkLiteral = [], tkPos = 0\<rparr> | t # _ \<Rightarrow> t)"

definition advance :: "token list \<Rightarrow> token \<times> token list" where
  "advance ts = (peek ts, tl ts)"

definition expect :: "token_type \<Rightarrow> token parser" where
  "expect tt ts = (case advance ts of (tok, ts') \<Rightarrow> if tkType tok \<noteq> tt then Inl (Expected tt tok) else Inr (tok, ts'))"

definition check :: "token_type \<Rightarrow> token list \<Rightarrow> bool" where
  "check tt ts \<longleftrightarrow> tkType (peek ts) = tt"

definition match_token :: "token_type \<Rightarrow> token list \<Rightarrow> bool \<times> token list" where
  "match_token tt ts = (if check tt ts then (True, snd (advance ts)) else (False, ts))"

section \<open>Expressions\<close>

definition comparison :: "token_type \<Rightarrow> bool" where
  "comparison tt \<longleftrightarrow> tt \<in> {TOKEN_EQ, TOKEN_NEQ, TOKEN_LT, TOKEN_GT, TOKEN_LTE, TOKEN_GTE}"

definition ascii_upper :: "char \<Rightarrow> char" where
  "ascii_upper c = (if 97 \<le> (of_char c :: nat) \<and> (of_char c :: nat) \<le> 122 then char_of ((of_char c :: nat) - 32) else c)"

fun parseExpr :: "nat \<Rightarrow> expr parser"
and expr_loop :: "nat \<Rightarrow> expr \<Rightarrow> expr parser"
and parseCompare :: "nat \<Rightarrow> expr parser"
and parsePrimary :: "nat \<Rightarrow> expr parser" where
  "parseExpr 0 ts = Inl OutOfFuel"
| "parseExpr (Suc f) ts = err_bind (parseCompare f ts) (\<lambda>(left, ts1). expr_loop f left ts1)"
| "expr_loop 0 left ts = Inl OutOfFuel"
| "expr_loop (Suc f) left ts =
     (if check TOKEN_AND ts \<or> check TOKEN_OR ts then
        err_bind (parseCompare f (snd (advance ts)))
          (\<lambda>(right, ts1). expr_loop f (BinaryExpr left (map ascii_upper (tkLiteral (fst (advance ts)))) right) ts1)
      else Inr (left, ts))"
| "parseCompare 0 ts = Inl OutOfFuel"
| "parseCompare (Suc f) ts = err_bind (parsePrimary f ts) (\<lambda>(left, ts1).
     let tok = peek ts1 in
     if comparison (tkType tok) then
       err_bind (parsePrimary f (snd (advance ts1))) (\<lambda>(right, ts2). Inr (BinaryExpr left (tkLiteral tok) right, ts2))
     else Inr (left, ts1))"
| "parsePrimary 0 ts = Inl OutOfFuel"
| "parsePrimary (Suc f) ts =
     (let tok = peek ts; ts1 = snd (advance ts) in
      case tkType tok of
        TOKEN_NUMBER \<Rightarrow> (case parse_int64 (tkLiteral tok) of
            None \<Rightarrow> Inl (InvalidNumber tok) | Some n \<Rightarrow> Inr (Literal (AnyInt n), ts1))
      | TOKEN_STRING \<Rightarrow> Inr (Literal (AnyString (tkLiteral tok)), ts1)
      | TOKEN_TRUE \<Rightarrow> Inr (Literal (AnyBool True), ts1)
      | TOKEN_FALSE \<Rightarrow> Inr (Literal (AnyBool False), ts1)
      | TOKEN_NULL \<Rightarrow> Inr (Literal AnyNil, ts1)
      | TOKEN_IDENT \<Rightarrow> Inr (ColumnRef (tkLiteral tok), ts1)
      | TOKEN_LPAREN \<Rightarrow> err_bind (parseExpr f ts1) (\<lambda>(expr, ts2).
          err_bind (expect TOKEN_RPAREN ts2) (\<lambda>(_, ts3). Inr (expr, ts3)))
      | _ \<Rightarrow> Inl (UnexpectedInExpr tok))"

definition parse_expr :: "expr parser" where
  "parse_expr ts = parseExpr (3 * length ts + 3) ts"

definition parse_primary :: "expr parser" where
  "parse_primary ts = parsePrimary (3 * length ts + 3) ts"

section \<open>Statements\<close>

text \<open>The loop \<^verbatim>\<open>for { x, err := p(); ...; if !match(COMMA) { break } }\<close>.\<close>

fun comma_loop :: "nat \<Rightarrow> 'a parser \<Rightarrow> 'a list parser" where
  "comma_loop 0 p ts = Inl OutOfFuel"
| "comma_loop (Suc f) p ts = err_bind (p ts) (\<lambda>(x, ts1).
     case match_token TOKEN_COMMA ts1 of
       (True, ts2) \<Rightarrow> err_bind (comma_loop f p ts2) (\<lambda>(xs, ts3). Inr (x # xs, ts3))
     | (False, ts2) \<Rightarrow> Inr ([x], ts2))"

definition comma_list :: "'a parser \<Rightarrow> 'a list parser" where
  "comma_list p ts = comma_loop (Suc (length ts)) p ts"

definition parseColumnType :: "column_type parser" where
  "parseColumnType ts = (case advance ts of (tok, ts1) \<Rightarrow>
     (case tkType tok of
        TOKEN_INT \<Rightarrow> Inr (TypeInt, ts1)
      | TOKEN_TEXT \<Rightarrow> Inr (TypeText, ts1)
      | TOKEN_BOOL \<Rightarrow> Inr (TypeBool, ts1)
      | _ \<Rightarrow> Inl (ExpectedColumnType tok)))"

function constraint_loop :: "bool \<Rightarrow> bool \<Rightarrow> (bool \<times> bool) parser" where
  "constraint_loop primaryKey notNull ts =
     (if check TOKEN_PRIMARY ts then
        (case expect TOKEN_KEY (snd (advance ts)) of Inl e \<Rightarrow> Inl e | Inr (_, ts1) \<Rightarrow> constraint_loop True notNull ts1)
      else if check TOKEN_NOT ts then
        (case expect TOKEN_NULL (snd (advance ts)) of Inl e \<Rightarrow> Inl e | Inr (_, ts1) \<Rightarrow> constraint_loop primaryKey True ts1)
      else Inr ((primaryKey, notNull), ts))"
  by pat_completeness auto
termination
  by (relation "measure (\<lambda>(_, _, ts). length ts)")
    (auto simp: expect_def advance_def check_def peek_def split: if_splits list.splits)

declare constraint_loop.simps [simp del]

definition parseColumnDef :: "column_def parser" where
  "parseColumnDef ts = err_bind (expect TOKEN_IDENT ts) (\<lambda>(nameTok, ts1).
     err_bind (parseColumnType ts1) (\<lambda>(colType, ts2).
     err_bind (constraint_loop False False ts2) (\<lambda>((primaryKey, notNull), ts3).
     Inr (\<lparr>cdName = tkLiteral nameTok, cdType = colType, cdPrimaryKey = primaryKey, cdNotNull = notNull\<rparr>, ts3))))"

definition parseCreateTable :: "statement parser" where
  "parseCreateTable ts = err_bind (expect TOKEN_CREATE ts) (\<lambda>(_, ts1).
     err_bind (expect TOKEN_TABLE ts1) (\<lambda>(_, ts2).
     err_bind (expect TOKEN_IDENT ts2) (\<lambda>(nameTok, ts3).
     err_bind (expect TOKEN_LPAREN ts3) (\<lambda>(_, ts4).
     err_bind (comma_list parseColumnDef ts4) (\<lambda>(cols, ts5).
     err_bind (expect TOKEN_RPAREN ts5) (\<lambda>(_, ts6).
     Inr (CreateTableStmt (tkLiteral nameTok) cols, snd (match_token TOKEN_SEMICOLON ts6))))))))"

definition parse_column_name :: "string parser" where
  "parse_column_name ts = err_bind (expect TOKEN_IDENT ts) (\<lambda>(colTok, ts1). Inr (tkLiteral colTok, ts1))"

definition parse_insert_columns :: "string list parser" where
  "parse_insert_columns ts =
     (if check TOKEN_LPAREN ts then
        err_bind (comma_list parse_column_name (snd (advance ts))) (\<lambda>(cols, ts1).
        err_bind (expect TOKEN_RPAREN ts1) (\<lambda>(_, ts2). Inr (cols, ts2)))
      else Inr ([], ts))"

definition parseInsert :: "statement parser" where
  "parseInsert ts = err_bind (expect TOKEN_INSERT ts) (\<lambda>(_, ts1).
     err_bind (expect TOKEN_INTO ts1) (\<lambda>(_, ts2).
     err_bind (expect TOKEN_IDENT ts2) (\<lambda>(nameTok, ts3).
     err_bind (parse_insert_columns ts3) (\<lambda>(cols, ts4).
     err_bind (expect TOKEN_VALUES ts4) (\<lambda>(_, ts5).
     err_bind (expect TOKEN_LPAREN ts5) (\<lambda>(_, ts6).
     err_bind (comma_list parse_expr ts6) (\<lambda>(values, ts7).
     err_bind (expect TOKEN_RPAREN ts7) (\<lambda>(_, ts8).
     Inr (InsertStmt (tkLiteral nameTok) cols values, snd (match_token TOKEN_SEMICOLON ts8))))))))))"

definition parse_select_columns :: "expr list parser" where
  "parse_select_columns ts =
     (if check TOKEN_STAR ts then Inr ([StarExpr], snd (advance ts)) else comma_list parse_primary ts)"

definition parse_optional_where :: "expr option parser" where
  "parse_optional_where ts = (case match_token TOKEN_WHERE ts of
      (True, ts1) \<Rightarrow> err_bind (parse_expr ts1) (\<lambda>(where_expr, ts2). Inr (Some where_expr, ts2))
    | (False, ts1) \<Rightarrow> Inr (None, ts1))"

definition parseSelect :: "statement parser" where
  "parseSelect ts = err_bind (expect TOKEN_SELECT ts) (\<lambda>(_, ts1).
     err_bind (parse_select_columns ts1) (\<lambda>(columns, ts2).
     err_bind (expect TOKEN_FROM ts2) (\<lambda>(_, ts3).
     err_bind (expect TOKEN_IDENT ts3) (\<lambda>(nameTok, ts4).
     err_bind (parse_optional_where ts4) (\<lambda>(where_opt, ts5).
     Inr (SelectStmt columns (tkLiteral nameTok) where_opt, snd (match_token TOKEN_SEMICOLON ts5)))))))"

definition parse_assignment :: "assignment parser" where
  "parse_assignment ts = err_bind (expect TOKEN_IDENT ts) (\<lambda>(colTok, ts1).
     err_bind (expect TOKEN_EQ ts1) (\<lambda>(_, ts2).
     err_bind (parse_expr ts2) (\<lambda>(val, ts3). Inr (\<lparr>asColumn = tkLiteral colTok, asValue = val\<rparr>, ts3))))"

definition parseUpdate :: "statement parser" where
  "parseUpdate ts = err_bind (expect TOKEN_UPDATE ts) (\<lambda>(_, ts1).
     err_bind (expect TOKEN_IDENT ts1) (\<lambda>(nameTok, ts2).
     err_bind (expect TOKEN_SET ts2) (\<lambda>(_, ts3).
     err_bind (comma_list parse_assignment ts3) (\<lambda>(assignments, ts4).
     err_bind (expect TOKEN_WHERE ts4) (\<lambda>(_, ts5).
     err_bind (parse_expr ts5) (\<lambda>(where_expr, ts6).
     Inr (UpdateStmt (tkLiteral nameTok) assignments (Some where_expr), snd (match_token TOKEN_SEMICOLON ts6))))))))"

definition parseDelete :: "statement parser" where
  "parseDelete ts = err_bind (expect TOKEN_DELETE ts) (\<lambda>(_, ts1).
     err_bind (expect TOKEN_FROM ts1) (\<lambda>(_, ts2).
     err_bind (expect TOKEN_IDENT ts2) (\<lambda>(nameTok, ts3).
     err_bind (expect TOKEN_WHERE ts3) (\<lambda>(_, ts4).
     err_bind (parse_expr ts4) (\<lambda>(where_expr, ts5).
     Inr (DeleteStmt (tkLiteral nameTok) (Some where_expr), snd (match_token TOKEN_SEMICOLON ts5)))))))"

definition parseStatement :: "statement parser" where
  "parseStatement ts = (case tkType (peek ts) of
      TOKEN_CREATE \<Rightarrow> parseCreateTable ts
    | TOKEN_INSERT \<Rightarrow> parseInsert ts
    | TOKEN_SELECT \<Rightarrow> parseSelect ts
    | TOKEN_UPDATE \<Rightarrow> parseUpdate ts
    | TOKEN_DELETE \<Rightarrow> parseDelete ts
    | _ \<Rightarrow> Inl (UnexpectedStatement (peek ts)))"

definition Parse :: "string \<Rightarrow> parse_error + statement" where
  "Parse input = (case Lex input of
      Inl e \<Rightarrow> Inl (LexErr e)
    | Inr tokens \<Rightarrow> err_bind (parseStatement tokens) (\<lambda>(stmt, _). Inr stmt))"

section \<open>Fuel and consumption\<close>

lemma peek_not_EOF: "tkType (peek ts) \<noteq> TOKEN_EOF \<Longrightarrow> \<exists>t us. ts = t # us \<and> peek ts = t"
  by (cases ts) (auto simp: peek_def)

lemma expect_Inr: "expect tt ts = Inr (tok, r) \<Longrightarrow> tt \<noteq> TOKEN_EOF \<Longrightarrow> ts = tok # r \<and> tkType tok = tt"
  using peek_not_EOF [of ts] by (auto simp: expect_def advance_def split: if_splits)

lemma expect_not_fuel [simp]: "expect tt ts \<noteq> Inl OutOfFuel"
  by (simp add: expect_def advance_def)

lemma comparison_not_EOF: "comparison tt \<Longrightarrow> tt \<noteq> TOKEN_EOF"
  by (auto simp: comparison_def)

fun expr_wf :: "expr \<Rightarrow> bool" where
  "expr_wf (BinaryExpr l op r) = (op \<in> {''='', ''!='', ''<'', ''>'', ''<='', ''>='', ''AND'', ''OR''} \<and> expr_wf l \<and> expr_wf r)"
| "expr_wf (ColumnRef n) = ident_ok n"
| "expr_wf (Literal v) = (case v of AnyInt n \<Rightarrow> 0 \<le> n \<and> n < 2 ^ 63 | AnyString _ \<Rightarrow> True | AnyBool _ \<Rightarrow> True | AnyNil \<Rightarrow> True | _ \<Rightarrow> False)"
| "expr_wf StarExpr = False"

abbreviation tokens_ok :: "token list \<Rightarrow> bool" where
  "tokens_ok ts \<equiv> list_all (\<lambda>t. token_ok (strip t)) ts"

lemma ascii_upper_lower: "ascii_upper (ascii_lower c) = ascii_upper c"
  by (auto simp: ascii_upper_def ascii_lower_def)

lemma logic_token_upper:
  assumes "token_ok (tt, l)" "tt = TOKEN_AND \<or> tt = TOKEN_OR"
  shows "map ascii_upper l \<in> {''AND'', ''OR''}"
proof -
  have "map ascii_lower l \<in> {''and'', ''or''}"
    using assms by (auto simp: keyword_map_def split: if_splits)
  then have "map ascii_upper (map ascii_lower l) = map ascii_upper ''and'' \<or> map ascii_upper (map ascii_lower l) = map ascii_upper ''or''"
    by (metis empty_iff insert_iff)
  moreover have "map ascii_upper (map ascii_lower l) = map ascii_upper l" by (simp add: ascii_upper_lower comp_def)
  moreover have "map ascii_upper ''and'' = ''AND''" "map ascii_upper ''or'' = ''OR''" by code_simp+
  ultimately show ?thesis by (metis insertCI)
qed

lemma comparison_token: "token_ok (tt, l) \<Longrightarrow> comparison tt \<Longrightarrow> l \<in> {''='', ''!='', ''<'', ''>'', ''<='', ''>=''}"
  by (auto simp: comparison_def)

lemma number_token:
  assumes "token_ok (TOKEN_NUMBER, l)" "parse_int64 l = Some n"
  shows "0 \<le> n \<and> n < 2 ^ 63"
proof -
  have "hd l \<noteq> CHR ''-''" using assms(1) by (cases l) auto
  then show ?thesis using assms(2) by (auto simp: parse_int64_def Let_def split: option.splits if_splits)
qed

definition expr_result :: "token list \<Rightarrow> parse_error + (expr \<times> token list) \<Rightarrow> bool" where
  "expr_result ts res \<longleftrightarrow> (\<forall>e r. res = Inr (e, r) \<longrightarrow> length r < length ts \<and> (tokens_ok ts \<longrightarrow> expr_wf e \<and> tokens_ok r))"

lemma parsePrimary_atom:
  assumes "tkType (peek ts) \<noteq> TOKEN_LPAREN"
  shows "expr_result ts (parsePrimary (Suc f) ts)"
proof (cases ts)
  case Nil
  then show ?thesis by (simp add: expr_result_def peek_def Let_def)
next
  case (Cons t us)
  show ?thesis
    using assms number_token [of "tkLiteral t"]
    by (auto simp: Cons expr_result_def Let_def advance_def peek_def split: token_type.splits option.splits)
qed

lemma expr_sound:
  "expr_result ts (parseExpr f ts)"
  "expr_loop f left ts = Inr (e, r) \<Longrightarrow> length r \<le> length ts \<and> (tokens_ok ts \<and> expr_wf left \<longrightarrow> expr_wf e \<and> tokens_ok r)"
  "expr_result ts (parseCompare f ts)"
  "expr_result ts (parsePrimary f ts)"
proof (induction f ts and f left ts and f ts and f ts arbitrary: and e r and and
    rule: parseExpr_expr_loop_parseCompare_parsePrimary.induct)
  case (2 f ts)
  show ?case unfolding expr_result_def
  proof (intro allI impI)
    fix e r assume "parseExpr (Suc f) ts = Inr (e, r)"
    then obtain l ts1 where l: "parseCompare f ts = Inr (l, ts1)" "expr_loop f l ts1 = Inr (e, r)" by (auto simp: err_bind_Inr)
    from "2.IH"(1) l(1) "2.IH"(2) [OF l(2)] show "length r < length ts \<and> (tokens_ok ts \<longrightarrow> expr_wf e \<and> tokens_ok r)"
      by (auto simp: expr_result_def)
  qed
next
  case (4 f left ts)
  show ?case
  proof (cases "check TOKEN_AND ts \<or> check TOKEN_OR ts")
    case True
    then obtain t us where t: "ts = t # us" using peek_not_EOF [of ts] by (auto simp: check_def)
    from True "4.prems" obtain x ts1 where x: "parseCompare f us = Inr (x, ts1)"
      "expr_loop f (BinaryExpr left (map ascii_upper (tkLiteral t)) x) ts1 = Inr (e, r)"
      by (auto simp: t err_bind_Inr advance_def peek_def)
    have "map ascii_upper (tkLiteral t) \<in> {''AND'', ''OR''}" if "tokens_ok ts"
      using that True logic_token_upper [of "tkType t" "tkLiteral t"] by (auto simp: t check_def peek_def)
    then show ?thesis using "4.IH"(1) [OF True] "4.IH"(2) [OF True, of x ts1 e r] x
      by (auto simp: t advance_def peek_def expr_result_def)
  qed (use "4.prems" in auto)
next
  case (6 f ts)
  show ?case unfolding expr_result_def
  proof (intro allI impI)
    fix e r assume a: "parseCompare (Suc f) ts = Inr (e, r)"
    then obtain l ts1 where l: "parsePrimary f ts = Inr (l, ts1)" by (auto simp: err_bind_Inr)
    show "length r < length ts \<and> (tokens_ok ts \<longrightarrow> expr_wf e \<and> tokens_ok r)"
    proof (cases "comparison (tkType (peek ts1))")
      case True
      then obtain t us where t: "ts1 = t # us" "peek ts1 = t" using peek_not_EOF [of ts1] comparison_not_EOF by blast
      with True l a obtain x where x: "parsePrimary f us = Inr (x, r)" "e = BinaryExpr l (tkLiteral t) x"
        by (auto simp: err_bind_Inr advance_def Let_def)
      have "expr_result us (parsePrimary f us)" using "6.IH"(2) [OF refl True] by (simp add: advance_def t)
      moreover have "tkLiteral t \<in> {''='', ''!='', ''<'', ''>'', ''<='', ''>=''}" if "tokens_ok ts1"
        using that True comparison_token [of "tkType t" "tkLiteral t"] t(2) by (simp add: t(1))
      ultimately show ?thesis using "6.IH"(1) l x by (auto simp: expr_result_def t)
    qed (use l a "6.IH"(1) in \<open>auto simp: Let_def expr_result_def\<close>)
  qed
next
  case (8 f ts)
  show ?case
  proof (cases "tkType (peek ts) = TOKEN_LPAREN")
    case True
    then obtain t us where t: "ts = t # us" "peek ts = t" using peek_not_EOF [of ts] by auto
    have "expr_result us (parseExpr f us)" using "8.IH" [OF refl refl True] by (simp add: t advance_def)
    then show ?thesis using True
      by (auto simp: t expr_result_def err_bind_Inr advance_def Let_def dest!: expect_Inr)
  next
    case False
    then show ?thesis by (rule parsePrimary_atom)
  qed
qed (simp_all add: expr_result_def)

text \<open>Enough fuel: no expression parser runs out on the tokens it is given.\<close>

lemma expr_fuel:
  "3 * length ts + 3 \<le> f \<Longrightarrow> parseExpr f ts \<noteq> Inl OutOfFuel"
  "3 * length ts + 1 \<le> f \<Longrightarrow> expr_loop f left ts \<noteq> Inl OutOfFuel"
  "3 * length ts + 2 \<le> f \<Longrightarrow> parseCompare f ts \<noteq> Inl OutOfFuel"
  "3 * length ts + 1 \<le> f \<Longrightarrow> parsePrimary f ts \<noteq> Inl OutOfFuel"
proof (induction f ts and f left ts and f ts and f ts rule: parseExpr_expr_loop_parseCompare_parsePrimary.induct)
  case (2 f ts)
  have "expr_loop f x r \<noteq> Inl OutOfFuel" if "parseCompare f ts = Inr (x, r)" for x r
    using "2.IH"(2) [of r x] "2.prems" that expr_sound(3) [of ts f] by (simp add: expr_result_def)
  then show ?case using "2.IH"(1) "2.prems" by (auto simp: err_bind_Inl)
next
  case (4 f left ts)
  show ?case
  proof (cases "check TOKEN_AND ts \<or> check TOKEN_OR ts")
    case True
    then obtain t us where t: "ts = t # us" using peek_not_EOF [of ts] by (auto simp: check_def)
    have c: "parseCompare f us \<noteq> Inl OutOfFuel" using "4.IH"(1) [OF True] "4.prems" by (simp add: t advance_def)
    have "expr_loop f (BinaryExpr left (map ascii_upper (tkLiteral t)) x) r \<noteq> Inl OutOfFuel" if "parseCompare f us = Inr (x, r)" for x r
      using "4.IH"(2) [OF True, of r x] "4.prems" that expr_sound(3) [of us f] by (simp add: t advance_def peek_def expr_result_def)
    with c show ?thesis using True by (auto simp: t err_bind_Inl advance_def peek_def)
  qed simp
next
  case (6 f ts)
  have "parsePrimary f (tl r) \<noteq> Inl OutOfFuel" if "parsePrimary f ts = Inr (x, r)" "comparison (tkType (peek r))" for x r
  proof -
    have "length r < length ts" using that(1) expr_sound(4) [of ts f] by (simp add: expr_result_def)
    then have "3 * length (snd (advance r)) + 1 \<le> f" using "6.prems" by (simp add: advance_def)
    from "6.IH"(2) [OF refl that(2) this] show ?thesis by (simp add: advance_def)
  qed
  then show ?case using "6.IH"(1) "6.prems" by (auto simp: err_bind_Inl Let_def advance_def split: if_splits)
next
  case (8 f ts)
  show ?case
  proof (cases "tkType (peek ts) = TOKEN_LPAREN")
    case True
    then obtain t us where t: "ts = t # us" "peek ts = t" using peek_not_EOF [of ts] by auto
    then show ?thesis using "8.IH" [OF refl refl True] "8.prems" True
      by (auto simp: err_bind_Inl advance_def Let_def)
  qed (auto simp: Let_def split: token_type.splits option.splits)
qed simp_all

section \<open>Writing statements\<close>

definition op_token :: "string \<Rightarrow> token_type" where
  "op_token op = (if op = ''='' then TOKEN_EQ else if op = ''!='' then TOKEN_NEQ else if op = ''<'' then TOKEN_LT else if op = ''>'' then TOKEN_GT
     else if op = ''<='' then TOKEN_LTE else if op = ''>='' then TOKEN_GTE else if op = ''AND'' then TOKEN_AND else TOKEN_OR)"

fun value_token :: "any_value \<Rightarrow> token_type \<times> string" where
  "value_token (AnyInt n) = (TOKEN_NUMBER, dec (nat n))"
| "value_token (AnyString s) = (TOKEN_STRING, s)"
| "value_token (AnyBool b) = (if b then (TOKEN_TRUE, ''TRUE'') else (TOKEN_FALSE, ''FALSE''))"
| "value_token _ = (TOKEN_NULL, ''NULL'')"

fun prim_tokens :: "expr \<Rightarrow> (token_type \<times> string) list" where
  "prim_tokens (BinaryExpr l op r) =
     (TOKEN_LPAREN, ''('') # prim_tokens l @ (op_token op, op) # prim_tokens r @ [(TOKEN_RPAREN, '')'')]"
| "prim_tokens (ColumnRef n) = [(TOKEN_IDENT, n)]"
| "prim_tokens (Literal v) = [value_token v]"
| "prim_tokens StarExpr = [(TOKEN_STAR, ''*'')]"

definition expr_tokens :: "expr \<Rightarrow> (token_type \<times> string) list" where
  "expr_tokens e = (case e of BinaryExpr l op r \<Rightarrow> prim_tokens l @ (op_token op, op) # prim_tokens r | _ \<Rightarrow> prim_tokens e)"

fun comma_sep :: "(token_type \<times> string) list list \<Rightarrow> (token_type \<times> string) list" where
  "comma_sep [] = []"
| "comma_sep [x] = x"
| "comma_sep (x # xs) = x @ (TOKEN_COMMA, '','') # comma_sep xs"

fun type_token :: "column_type \<Rightarrow> token_type \<times> string" where
  "type_token TypeInt = (TOKEN_INT, ''INT'')"
| "type_token TypeText = (TOKEN_TEXT, ''TEXT'')"
| "type_token TypeBool = (TOKEN_BOOL, ''BOOL'')"

definition column_tokens :: "column_def \<Rightarrow> (token_type \<times> string) list" where
  "column_tokens c = [(TOKEN_IDENT, cdName c), type_token (cdType c)] @
     (if cdPrimaryKey c then [(TOKEN_PRIMARY, ''PRIMARY''), (TOKEN_KEY, ''KEY'')] else []) @
     (if cdNotNull c then [(TOKEN_NOT, ''NOT''), (TOKEN_NULL, ''NULL'')] else [])"

definition name_tokens :: "string \<Rightarrow> (token_type \<times> string) list" where
  "name_tokens n = [(TOKEN_IDENT, n)]"

definition assignment_tokens :: "assignment \<Rightarrow> (token_type \<times> string) list" where
  "assignment_tokens a = (TOKEN_IDENT, asColumn a) # (TOKEN_EQ, ''='') # expr_tokens (asValue a)"

definition where_tokens :: "expr option \<Rightarrow> (token_type \<times> string) list" where
  "where_tokens w = (case w of None \<Rightarrow> [] | Some e \<Rightarrow> (TOKEN_WHERE, ''WHERE'') # expr_tokens e)"

fun stmt_tokens :: "statement \<Rightarrow> (token_type \<times> string) list" where
  "stmt_tokens (CreateTableStmt n cols) =
     [(TOKEN_CREATE, ''CREATE''), (TOKEN_TABLE, ''TABLE''), (TOKEN_IDENT, n), (TOKEN_LPAREN, ''('')] @ comma_sep (map column_tokens cols) @ [(TOKEN_RPAREN, '')'')]"
| "stmt_tokens (InsertStmt n cols vals) =
     [(TOKEN_INSERT, ''INSERT''), (TOKEN_INTO, ''INTO''), (TOKEN_IDENT, n)] @
     (if cols = [] then [] else (TOKEN_LPAREN, ''('') # comma_sep (map name_tokens cols) @ [(TOKEN_RPAREN, '')'')]) @
     [(TOKEN_VALUES, ''VALUES''), (TOKEN_LPAREN, ''('')] @ comma_sep (map expr_tokens vals) @ [(TOKEN_RPAREN, '')'')]"
| "stmt_tokens (SelectStmt cols n w) =
     (TOKEN_SELECT, ''SELECT'') # (if cols = [StarExpr] then [(TOKEN_STAR, ''*'')] else comma_sep (map prim_tokens cols)) @
     [(TOKEN_FROM, ''FROM''), (TOKEN_IDENT, n)] @ where_tokens w"
| "stmt_tokens (UpdateStmt n asg w) =
     [(TOKEN_UPDATE, ''UPDATE''), (TOKEN_IDENT, n), (TOKEN_SET, ''SET'')] @ comma_sep (map assignment_tokens asg) @ where_tokens w"
| "stmt_tokens (DeleteStmt n w) =
     [(TOKEN_DELETE, ''DELETE''), (TOKEN_FROM, ''FROM''), (TOKEN_IDENT, n)] @ where_tokens w"

definition print_stmt :: "statement \<Rightarrow> string" where
  "print_stmt s = unlex (stmt_tokens s)"

definition column_wf :: "column_def \<Rightarrow> bool" where
  "column_wf c \<longleftrightarrow> ident_ok (cdName c)"

definition assignment_wf :: "assignment \<Rightarrow> bool" where
  "assignment_wf a \<longleftrightarrow> ident_ok (asColumn a) \<and> expr_wf (asValue a)"

fun stmt_wf :: "statement \<Rightarrow> bool" where
  "stmt_wf (CreateTableStmt n cols) = (ident_ok n \<and> cols \<noteq> [] \<and> list_all column_wf cols)"
| "stmt_wf (InsertStmt n cols vals) = (ident_ok n \<and> list_all ident_ok cols \<and> vals \<noteq> [] \<and> list_all expr_wf vals)"
| "stmt_wf (SelectStmt cols n w) = (ident_ok n \<and> (cols = [StarExpr] \<or> cols \<noteq> [] \<and> list_all expr_wf cols) \<and> (case w of None \<Rightarrow> True | Some e \<Rightarrow> expr_wf e))"
| "stmt_wf (UpdateStmt n asg w) = (ident_ok n \<and> asg \<noteq> [] \<and> list_all assignment_wf asg \<and> (case w of None \<Rightarrow> False | Some e \<Rightarrow> expr_wf e))"
| "stmt_wf (DeleteStmt n w) = (ident_ok n \<and> (case w of None \<Rightarrow> False | Some e \<Rightarrow> expr_wf e))"

section \<open>Parsers of list elements\<close>

text \<open>What the parser of an element of a comma-separated list promises: it does not run out of fuel, consumes a token, and its values are well formed.\<close>

locale element_parser =
  fixes p :: "'a parser" and ok :: "'a \<Rightarrow> bool"
  assumes p_fuel: "p ts \<noteq> Inl OutOfFuel"
    and p_consumes: "p ts = Inr (x, r) \<Longrightarrow> length r < length ts"
    and p_ok: "p ts = Inr (x, r) \<Longrightarrow> tokens_ok ts \<Longrightarrow> ok x \<and> tokens_ok r"
begin

lemma comma_loop_sound:
  "comma_loop f p ts = Inr (xs, r) \<Longrightarrow> length r < length ts \<and> xs \<noteq> [] \<and> (tokens_ok ts \<longrightarrow> list_all ok xs \<and> tokens_ok r)"
proof (induction f arbitrary: ts xs r)
  case (Suc f)
  obtain x ts1 where x: "p ts = Inr (x, ts1)" using Suc.prems by (auto simp: err_bind_Inr)
  show ?case
  proof (cases "check TOKEN_COMMA ts1")
    case True
    then obtain t us where t: "ts1 = t # us" using peek_not_EOF [of ts1] by (auto simp: check_def)
    with x True Suc.prems obtain ys where y: "comma_loop f p us = Inr (ys, r)" "xs = x # ys"
      by (auto simp: err_bind_Inr match_token_def advance_def)
    show ?thesis using Suc.IH [OF y(1)] p_consumes [OF x] p_ok [OF x] y(2) t by auto
  next
    case False
    then show ?thesis using x Suc.prems p_consumes [OF x] p_ok [OF x] by (auto simp: match_token_def)
  qed
qed simp

lemma comma_loop_fuel: "length ts < f \<Longrightarrow> comma_loop f p ts \<noteq> Inl OutOfFuel"
proof (induction f arbitrary: ts)
  case (Suc f)
  have "comma_loop f p (tl ts1) \<noteq> Inl OutOfFuel" if "p ts = Inr (x, ts1)" for x ts1
    using p_consumes [OF that] Suc by simp
  then show ?case using p_fuel [of ts] by (auto simp: err_bind_Inl match_token_def advance_def split: if_splits)
qed simp

lemma comma_list_parser: "element_parser (comma_list p) (\<lambda>xs. xs \<noteq> [] \<and> list_all ok xs)"
proof unfold_locales
  show "comma_list p ts \<noteq> Inl OutOfFuel" for ts by (simp add: comma_list_def comma_loop_fuel del: comma_loop.simps)
qed (use comma_loop_sound in \<open>auto simp: comma_list_def simp del: comma_loop.simps\<close>)

end

text \<open>An element parser that reads back what is written, as long as the next token cannot continue the element.\<close>

locale printable_parser = element_parser p ok
  for p :: "'a parser" and ok :: "'a \<Rightarrow> bool" +
  fixes toks :: "'a \<Rightarrow> (token_type \<times> string) list" and stop :: "token_type \<Rightarrow> bool"
  assumes p_reads: "ok x \<Longrightarrow> map strip ts = toks x \<Longrightarrow> stop (tkType (peek rest)) \<Longrightarrow> p (ts @ rest) = Inr (x, rest)"
    and stop_comma: "stop TOKEN_COMMA"
begin

lemma comma_loop_reads:
  "\<lbrakk>xs \<noteq> []; list_all ok xs; map strip ts = comma_sep (map toks xs); stop (tkType (peek rest)); tkType (peek rest) \<noteq> TOKEN_COMMA; length xs \<le> f\<rbrakk>
   \<Longrightarrow> comma_loop f p (ts @ rest) = Inr (xs, rest)"
proof (induction xs arbitrary: ts f)
  case (Cons x xs)
  obtain g where f: "f = Suc g" using Cons.prems(6) by (cases f) auto
  show ?case
  proof (cases xs)
    case Nil
    then have "p (ts @ rest) = Inr (x, rest)" using Cons.prems by (intro p_reads) auto
    then show ?thesis using Cons.prems(5) by (simp add: f Nil match_token_def check_def)
  next
    case (Cons y ys)
    then have "map strip ts = toks x @ (TOKEN_COMMA, '','') # comma_sep (map toks xs)" using Cons.prems(3) by simp
    then obtain us c vs where u: "ts = us @ c # vs" "map strip us = toks x" "strip c = (TOKEN_COMMA, '','')" "map strip vs = comma_sep (map toks xs)"
      by (auto simp: map_eq_append_conv map_eq_Cons_conv)
    have "p (us @ c # vs @ rest) = Inr (x, c # vs @ rest)"
      using Cons.prems(2) u(2,3) stop_comma by (intro p_reads) (auto simp: peek_def)
    moreover have "comma_loop g p (vs @ rest) = Inr (xs, rest)"
      using Cons.IH [of vs g] Cons Cons.prems u(4) by (auto simp: f)
    ultimately show ?thesis using u by (simp add: f match_token_def check_def peek_def advance_def)
  qed
qed simp

lemma comma_list_reads:
  assumes "xs \<noteq> []" "list_all ok xs" "map strip ts = comma_sep (map toks xs)" "stop (tkType (peek rest))" "tkType (peek rest) \<noteq> TOKEN_COMMA"
  shows "comma_list p (ts @ rest) = Inr (xs, rest)"
proof -
  have "length zs \<le> Suc (length (comma_sep zs))" for zs :: "(token_type \<times> string) list list"
    by (induction zs rule: comma_sep.induct) auto
  from this [of "map toks xs"] have "length xs \<le> Suc (length (ts @ rest))"
    using arg_cong [OF assms(3), of length] by simp
  then show ?thesis unfolding comma_list_def using assms by (intro comma_loop_reads)
qed

end

section \<open>Reading expressions back\<close>

lemma strip_appendE:
  assumes "map strip ts = xs @ ys" obtains us vs where "ts = us @ vs" "map strip us = xs" "map strip vs = ys"
  using assms by (auto simp: map_eq_append_conv)

lemma strip_ConsE:
  assumes "map strip ts = x # xs" obtains t us where "ts = t # us" "strip t = x" "map strip us = xs"
  using assms by (auto simp: map_eq_Cons_conv)

lemmas strip_elims = strip_ConsE strip_appendE

abbreviation expr_stop :: "token_type \<Rightarrow> bool" where
  "expr_stop tt \<equiv> \<not> comparison tt \<and> tt \<noteq> TOKEN_AND \<and> tt \<noteq> TOKEN_OR"

lemma parse_int64_dec:
  assumes "0 \<le> n" "n < 2 ^ 63"
  shows "parse_int64 (dec (nat n)) = Some n"
proof -
  have "is_dec_digit (hd (dec (nat n)))" using dec_digits [of "nat n"] by (cases "dec (nat n)") auto
  then have "hd (dec (nat n)) \<noteq> CHR ''-''" "hd (dec (nat n)) \<noteq> CHR ''+''" by (auto simp: is_dec_digit_def)
  then show ?thesis using assms by (simp add: parse_int64_def)
qed

lemma op_token_cases:
  assumes "op \<in> {''='', ''!='', ''<'', ''>'', ''<='', ''>='', ''AND'', ''OR''}"
  shows "comparison (op_token op) \<or> (op_token op = TOKEN_AND \<or> op_token op = TOKEN_OR) \<and> \<not> comparison (op_token op) \<and> map ascii_upper op = op"
proof -
  have u: "map ascii_upper ''AND'' = ''AND''" "map ascii_upper ''OR'' = ''OR''" by code_simp+
  show ?thesis using assms by (elim insertE emptyE) (simp_all only: u, simp_all add: op_token_def comparison_def)
qed

lemma binary_reads:
  assumes l: "\<And>f rest. 3 * length tl' \<le> f \<Longrightarrow> parsePrimary f (tl' @ rest) = Inr (l, rest)"
    and r: "\<And>f rest. 3 * length tr \<le> f \<Longrightarrow> parsePrimary f (tr @ rest) = Inr (r, rest)"
    and op: "strip t = (op_token op, op)" "op \<in> {''='', ''!='', ''<'', ''>'', ''<='', ''>='', ''AND'', ''OR''}"
    and rest: "expr_stop (tkType (peek rest))" and f: "3 * length (tl' @ t # tr) + 2 \<le> f"
  shows "parseExpr f (tl' @ t # tr @ rest) = Inr (BinaryExpr l op r, rest)"
proof -
  define g where "g = f - 4"
  have g: "f = Suc (Suc (Suc (Suc g)))" "3 * length tl' \<le> g" "3 * length tr \<le> g" using f by (simp_all add: g_def)
  have p: "parsePrimary (Suc (Suc g)) (tl' @ t # tr @ rest) = Inr (l, t # tr @ rest)"
    "parsePrimary (Suc (Suc g)) (tr @ rest) = Inr (r, rest)" "parsePrimary (Suc g) (tr @ rest) = Inr (r, rest)"
    using l [of "Suc (Suc g)"] r [of "Suc (Suc g)"] r [of "Suc g"] g(2,3) by (simp_all del: parsePrimary.simps)
  show ?thesis
  proof (cases "comparison (op_token op)")
    case True
    then show ?thesis using op(1) rest by (simp add: g(1) p peek_def advance_def check_def Let_def del: parsePrimary.simps)
  next
    case False
    then show ?thesis using op(1) rest op_token_cases [OF op(2)]
      by (auto simp: g(1) p peek_def advance_def check_def Let_def simp del: parsePrimary.simps)
  qed
qed

lemma prim_reads:
  "expr_wf e \<Longrightarrow> map strip ts = prim_tokens e \<Longrightarrow> 3 * length ts \<le> f \<Longrightarrow> parsePrimary f (ts @ rest) = Inr (e, rest)"
proof (induction e arbitrary: ts f rest)
  case (BinaryExpr l op r)
  obtain a tl' t tr z where ts: "ts = a # tl' @ t # tr @ [z]" "strip a = (TOKEN_LPAREN, ''('')" "strip z = (TOKEN_RPAREN, '')'')"
    "map strip tl' = prim_tokens l" "map strip tr = prim_tokens r" "strip t = (op_token op, op)"
    using BinaryExpr.prems(2) by (auto simp only: prim_tokens.simps map_is_Nil_conv append_Nil2 elim!: strip_elims)
  obtain g where g: "f = Suc g" "3 * length (tl' @ t # tr) + 2 \<le> g" using BinaryExpr.prems(3) ts(1) by (cases f) auto
  have l: "parsePrimary h (tl' @ u) = Inr (l, u)" if "3 * length tl' \<le> h" for h u
    using BinaryExpr.IH(1) [OF _ ts(4) that] BinaryExpr.prems(1) by simp
  have r: "parsePrimary h (tr @ u) = Inr (r, u)" if "3 * length tr \<le> h" for h u
    using BinaryExpr.IH(2) [OF _ ts(5) that] BinaryExpr.prems(1) by simp
  have "parseExpr g (tl' @ t # tr @ z # rest) = Inr (BinaryExpr l op r, z # rest)"
    using l r ts(6) _ _ g(2) by (rule binary_reads) (use BinaryExpr.prems(1) ts(3) in \<open>auto simp: peek_def comparison_def\<close>)
  then show ?case using ts by (simp add: g(1) peek_def advance_def expect_def Let_def)
next
  case (ColumnRef n)
  then obtain t g where "ts = [t]" "strip t = (TOKEN_IDENT, n)" "f = Suc g" by (cases f) (auto simp: map_eq_Cons_conv)
  then show ?case by (simp add: peek_def advance_def Let_def)
next
  case (Literal v)
  then obtain t g where t: "ts = [t]" "strip t = value_token v" "f = Suc g" by (cases f) (auto simp: map_eq_Cons_conv)
  then show ?case using Literal.prems(1)
    by (cases v) (auto simp: peek_def advance_def Let_def parse_int64_dec split: if_splits)
qed simp

lemma primary_as_expr:
  assumes "parsePrimary (Suc g) u = Inr (e, rest)" "expr_stop (tkType (peek rest))"
  shows "parseExpr (Suc (Suc (Suc g))) u = Inr (e, rest)"
  using assms by (simp add: Let_def check_def del: parsePrimary.simps)

lemma expr_reads:
  assumes "expr_wf e" "map strip ts = expr_tokens e" "expr_stop (tkType (peek rest))"
  shows "parse_expr (ts @ rest) = Inr (e, rest)"
proof (cases "\<exists>l op r. e = BinaryExpr l op r")
  case True
  then obtain l op r where e: "e = BinaryExpr l op r" by blast
  obtain tl' t tr where ts: "ts = tl' @ t # tr" "map strip tl' = prim_tokens l" "map strip tr = prim_tokens r" "strip t = (op_token op, op)"
    using assms(2) by (auto simp only: expr_tokens_def e expr.case elim!: strip_elims)
  have l: "parsePrimary h (tl' @ u) = Inr (l, u)" if "3 * length tl' \<le> h" for h u
    using prim_reads [OF _ ts(2) that] assms(1) by (simp add: e del: parsePrimary.simps)
  have r: "parsePrimary h (tr @ u) = Inr (r, u)" if "3 * length tr \<le> h" for h u
    using prim_reads [OF _ ts(3) that] assms(1) by (simp add: e del: parsePrimary.simps)
  have "parseExpr (3 * length (ts @ rest) + 3) (tl' @ t # tr @ rest) = Inr (BinaryExpr l op r, rest)"
    using l r ts(4) _ assms(3) by (rule binary_reads) (use assms(1) in \<open>simp_all add: e ts(1)\<close>)
  then show ?thesis by (simp add: parse_expr_def ts(1) e del: parseExpr.simps)
next
  case False
  then have "map strip ts = prim_tokens e" using assms(2) by (cases e) (auto simp: expr_tokens_def)
  then have "parsePrimary (Suc (3 * length (ts @ rest))) (ts @ rest) = Inr (e, rest)"
    using assms(1) by (intro prim_reads) (simp_all del: parsePrimary.simps)
  from primary_as_expr [OF this assms(3)] show ?thesis
    unfolding parse_expr_def by (metis add_Suc_right add.right_neutral numeral_3_eq_3)
qed

lemma expr_parsers:
  "element_parser parse_expr expr_wf" "element_parser parse_primary expr_wf"
  using expr_sound(1,4) expr_fuel(1,4)
  by (unfold_locales; auto simp: parse_expr_def parse_primary_def expr_result_def simp del: parseExpr.simps parsePrimary.simps)+

lemma constraint_sound:
  "constraint_loop pk nn ts = Inr (c, r) \<Longrightarrow> length r \<le> length ts \<and> (tokens_ok ts \<longrightarrow> tokens_ok r)"
proof (induction ts arbitrary: pk nn c r rule: length_induct)
  case (1 ts)
  show ?case
  proof (cases "check TOKEN_PRIMARY ts \<or> check TOKEN_NOT ts")
    case True
    then obtain t us where t: "ts = t # us" using peek_not_EOF [of ts] by (auto simp: check_def)
    with True "1.prems" obtain pk' nn' tok vs tt where v: "expect tt us = Inr (tok, vs)" "tt \<noteq> TOKEN_EOF" "constraint_loop pk' nn' vs = Inr (c, r)"
      by (subst (asm) constraint_loop.simps) (auto simp: advance_def split: if_splits sum.splits)
    have u: "us = tok # vs" using expect_Inr [OF v(1,2)] by simp
    then have "length vs < length ts" by (simp add: t)
    with "1.IH" v(3) have "length r \<le> length vs \<and> (tokens_ok vs \<longrightarrow> tokens_ok r)" by blast
    then show ?thesis by (auto simp: t u)
  qed (use "1.prems" in \<open>simp add: constraint_loop.simps [of pk nn ts]\<close>)
qed

lemma constraint_fuel: "constraint_loop pk nn ts \<noteq> Inl OutOfFuel"
proof (induction pk nn ts rule: constraint_loop.induct)
  case (1 pk nn ts)
  then show ?case by (subst constraint_loop.simps) (auto split: sum.splits)
qed

lemma parseColumnType_cases:
  "parseColumnType ts = Inr (c, r) \<Longrightarrow> length r < length ts \<and> (tokens_ok ts \<longrightarrow> tokens_ok r)"
  "parseColumnType ts \<noteq> Inl OutOfFuel"
  by (cases ts; auto simp: parseColumnType_def advance_def peek_def split: token_type.splits)+

interpretation ex: printable_parser parse_expr expr_wf expr_tokens expr_stop
proof unfold_locales
  show "parse_expr ts \<noteq> Inl OutOfFuel" for ts using expr_fuel(1) [of ts] by (simp add: parse_expr_def del: parseExpr.simps)
qed (use expr_sound(1) expr_reads in \<open>auto simp: parse_expr_def expr_result_def comparison_def simp del: parseExpr.simps\<close>)

interpretation pr: printable_parser parse_primary expr_wf prim_tokens "\<lambda>_. True"
proof unfold_locales
  show "parse_primary ts \<noteq> Inl OutOfFuel" for ts using expr_fuel(4) [of ts] by (simp add: parse_primary_def del: parsePrimary.simps)
qed (use expr_sound(4) prim_reads in \<open>auto simp: parse_primary_def expr_result_def simp del: parsePrimary.simps\<close>)

interpretation nm: printable_parser parse_column_name ident_ok name_tokens "\<lambda>_. True"
  by unfold_locales (auto simp: parse_column_name_def name_tokens_def err_bind_Inr err_bind_Inl expect_def advance_def peek_def map_eq_Cons_conv
      split: list.splits if_splits)

interpretation co: printable_parser parseColumnDef column_wf column_tokens "\<lambda>tt. tt \<noteq> TOKEN_PRIMARY \<and> tt \<noteq> TOKEN_NOT"
proof unfold_locales
  show "parseColumnDef ts \<noteq> Inl OutOfFuel" for ts
    using constraint_fuel parseColumnType_cases(2) by (auto simp: parseColumnDef_def err_bind_Inl)
  have *: "length r < length ts \<and> (tokens_ok ts \<longrightarrow> column_wf x \<and> tokens_ok r)" if "parseColumnDef ts = Inr (x, r)" for ts x r
  proof -
    from that obtain n u ty v pk nn where p: "expect TOKEN_IDENT ts = Inr (n, u)" "parseColumnType u = Inr (ty, v)" "constraint_loop False False v = Inr ((pk, nn), r)" "cdName x = tkLiteral n"
      by (auto simp: parseColumnDef_def err_bind_Inr)
    show ?thesis using expect_Inr [OF p(1)] parseColumnType_cases(1) [OF p(2)] constraint_sound [OF p(3)] p(4)
      by (auto simp: column_wf_def)
  qed
  show "length r < length ts" if "parseColumnDef ts = Inr (x, r)" for ts x r using * that by blast
  show "column_wf x \<and> tokens_ok r" if "parseColumnDef ts = Inr (x, r)" "tokens_ok ts" for ts x r using * that by blast
  show "parseColumnDef (ts @ rest) = Inr (x, rest)" if "column_wf x" "map strip ts = column_tokens x"
    "tkType (peek rest) \<noteq> TOKEN_PRIMARY \<and> tkType (peek rest) \<noteq> TOKEN_NOT" for x ts rest
  proof -
    let ?cs = "(if cdPrimaryKey x then [(TOKEN_PRIMARY, ''PRIMARY''), (TOKEN_KEY, ''KEY'')] else []) @
      (if cdNotNull x then [(TOKEN_NOT, ''NOT''), (TOKEN_NULL, ''NULL'')] else [])"
    have "map strip ts = (TOKEN_IDENT, cdName x) # type_token (cdType x) # ?cs" using that(2) by (simp add: column_tokens_def)
    then obtain n ty us where ts: "ts = n # ty # us" "strip n = (TOKEN_IDENT, cdName x)" "strip ty = type_token (cdType x)" "map strip us = ?cs"
      by (auto simp only: elim!: strip_ConsE)
    have "constraint_loop False False (us @ rest) = Inr ((cdPrimaryKey x, cdNotNull x), rest)"
      using ts(4) that(3) constraint_loop.simps [of _ _ rest]
      by (auto simp: map_eq_Cons_conv constraint_loop.simps [of _ _ "_ # _"] check_def peek_def [of "_ # _"] advance_def expect_def split: if_splits)
    moreover have "parseColumnType (ty # us @ rest) = Inr (cdType x, us @ rest)"
      using ts(3) by (cases "cdType x") (auto simp: parseColumnType_def advance_def peek_def)
    ultimately show ?thesis using ts(2) by (simp add: ts(1) parseColumnDef_def expect_def advance_def peek_def)
  qed
qed simp

lemma expect_ok: "expect tt ts = Inr (tok, r) \<Longrightarrow> tokens_ok ts \<Longrightarrow> token_ok (tt, tkLiteral tok) \<and> tokens_ok r"
  by (cases ts) (auto simp: expect_def advance_def peek_def split: if_splits)

lemma expect_Cons [simp]: "tkType t = tt \<Longrightarrow> expect tt (t # ts) = Inr (t, ts)"
  by (simp add: expect_def advance_def peek_def)

interpretation asg: printable_parser parse_assignment assignment_wf assignment_tokens expr_stop
proof unfold_locales
  show "parse_assignment ts \<noteq> Inl OutOfFuel" for ts using ex.p_fuel by (auto simp: parse_assignment_def err_bind_Inl)
  show "length r < length ts" if "parse_assignment ts = Inr (x, r)" for ts x r
    using that by (fastforce simp: parse_assignment_def err_bind_Inr dest: expect_Inr ex.p_consumes)
  show "assignment_wf x \<and> tokens_ok r" if "parse_assignment ts = Inr (x, r)" "tokens_ok ts" for ts x r
    using that by (fastforce simp: parse_assignment_def err_bind_Inr assignment_wf_def dest: expect_ok ex.p_ok)
  show "parse_assignment (ts @ rest) = Inr (x, rest)" if a: "assignment_wf x" "map strip ts = assignment_tokens x" "expr_stop (tkType (peek rest))" for x ts rest
  proof -
    obtain n q us where ts: "ts = n # q # us" "strip n = (TOKEN_IDENT, asColumn x)" "strip q = (TOKEN_EQ, ''='')" "map strip us = expr_tokens (asValue x)"
      using a(2) by (auto simp only: assignment_tokens_def elim!: strip_ConsE)
    have "parse_expr (us @ rest) = Inr (asValue x, rest)" using a ts(4) by (intro ex.p_reads) (auto simp: assignment_wf_def)
    then show ?thesis using ts by (simp add: parse_assignment_def)
  qed
qed (simp add: comparison_def)

section \<open>Statements\<close>

lemmas comma_fuel = element_parser.p_fuel [OF ex.comma_list_parser] element_parser.p_fuel [OF pr.comma_list_parser]
  element_parser.p_fuel [OF nm.comma_list_parser] element_parser.p_fuel [OF co.comma_list_parser] element_parser.p_fuel [OF asg.comma_list_parser]

lemmas comma_ok = element_parser.p_ok [OF ex.comma_list_parser] element_parser.p_ok [OF pr.comma_list_parser]
  element_parser.p_ok [OF nm.comma_list_parser] element_parser.p_ok [OF co.comma_list_parser] element_parser.p_ok [OF asg.comma_list_parser]

lemma parseStatement_fuel: "parseStatement ts \<noteq> Inl OutOfFuel"
proof -
  have "parseCreateTable ts \<noteq> Inl OutOfFuel" using comma_fuel by (auto simp: parseCreateTable_def err_bind_Inl)
  moreover have "parseInsert ts \<noteq> Inl OutOfFuel"
    using comma_fuel by (auto simp: parseInsert_def parse_insert_columns_def err_bind_Inl split: if_splits)
  moreover have "parseSelect ts \<noteq> Inl OutOfFuel"
    using comma_fuel ex.p_fuel by (auto simp: parseSelect_def parse_select_columns_def parse_optional_where_def err_bind_Inl split: if_splits prod.splits bool.splits)
  moreover have "parseUpdate ts \<noteq> Inl OutOfFuel" using comma_fuel ex.p_fuel by (auto simp: parseUpdate_def err_bind_Inl)
  moreover have "parseDelete ts \<noteq> Inl OutOfFuel" using ex.p_fuel by (auto simp: parseDelete_def err_bind_Inl)
  ultimately show ?thesis by (simp add: parseStatement_def split: token_type.splits)
qed

lemma advance_ok: "tokens_ok ts \<Longrightarrow> tokens_ok (snd (advance ts))"
  by (cases ts) (auto simp: advance_def)

lemma parseStatement_wf:
  assumes "parseStatement ts = Inr (st, r)" "tokens_ok ts"
  shows "stmt_wf st"
proof -
  consider "parseCreateTable ts = Inr (st, r)" | "parseInsert ts = Inr (st, r)" | "parseSelect ts = Inr (st, r)"
    | "parseUpdate ts = Inr (st, r)" | "parseDelete ts = Inr (st, r)"
    using assms(1) by (auto simp: parseStatement_def split: token_type.splits)
  then show ?thesis
  proof cases
    case 1
    then show ?thesis using assms(2) by (fastforce simp: parseCreateTable_def err_bind_Inr dest: expect_ok comma_ok)
  next
    case 2
    have "list_all ident_ok cols \<and> tokens_ok r'" if "parse_insert_columns us = Inr (cols, r')" "tokens_ok us" for us cols r'
      using that advance_ok [of us] by (fastforce simp: parse_insert_columns_def err_bind_Inr split: if_splits dest: expect_ok comma_ok)
    then show ?thesis using 2 assms(2) by (fastforce simp: parseInsert_def err_bind_Inr dest: expect_ok comma_ok)
  next
    case 3
    have "(cols = [StarExpr] \<or> cols \<noteq> [] \<and> list_all expr_wf cols) \<and> tokens_ok r'" if "parse_select_columns us = Inr (cols, r')" "tokens_ok us" for us cols r'
      using that advance_ok [of us] by (fastforce simp: parse_select_columns_def split: if_splits dest: comma_ok)
    moreover have "case w of None \<Rightarrow> True | Some e \<Rightarrow> expr_wf e" if "parse_optional_where us = Inr (w, r')" "tokens_ok us" for us w r'
      using that advance_ok [of us] by (fastforce simp: parse_optional_where_def match_token_def err_bind_Inr split: if_splits dest: ex.p_ok)
    ultimately show ?thesis using 3 assms(2) by (fastforce simp: parseSelect_def err_bind_Inr dest: expect_ok)
  next
    case 4
    then show ?thesis using assms(2) by (fastforce simp: parseUpdate_def err_bind_Inr dest: expect_ok comma_ok ex.p_ok)
  next
    case 5
    then show ?thesis using assms(2) by (fastforce simp: parseDelete_def err_bind_Inr dest: expect_ok ex.p_ok)
  qed
qed

abbreviation stmt_stop :: "token list \<Rightarrow> bool" where
  "stmt_stop rest \<equiv> tkType (peek rest) = TOKEN_EOF \<or> tkType (peek rest) = TOKEN_SEMICOLON"

lemma create_reads:
  assumes "stmt_wf (CreateTableStmt n cols)" "map strip ts = stmt_tokens (CreateTableStmt n cols)"
  shows "parseStatement (ts @ rest) = Inr (CreateTableStmt n cols, snd (match_token TOKEN_SEMICOLON rest))"
proof -
  obtain a b c d us z where ts: "ts = a # b # c # d # us @ [z]" "strip a = (TOKEN_CREATE, ''CREATE'')" "strip b = (TOKEN_TABLE, ''TABLE'')"
    "strip c = (TOKEN_IDENT, n)" "strip d = (TOKEN_LPAREN, ''('')" "map strip us = comma_sep (map column_tokens cols)" "strip z = (TOKEN_RPAREN, '')'')"
    using assms(2) by (auto simp only: stmt_tokens.simps append.simps map_is_Nil_conv elim!: strip_elims)
  have "comma_list parseColumnDef (us @ z # rest) = Inr (cols, z # rest)"
    using assms(1) ts(6,7) by (intro co.comma_list_reads) (auto simp: peek_def)
  then show ?thesis using ts by (simp add: parseStatement_def parseCreateTable_def peek_def)
qed

lemma insert_reads:
  assumes "stmt_wf (InsertStmt n cols vals)" "map strip ts = stmt_tokens (InsertStmt n cols vals)"
  shows "parseStatement (ts @ rest) = Inr (InsertStmt n cols vals, snd (match_token TOKEN_SEMICOLON rest))"
proof -
  let ?cs = "if cols = [] then [] else (TOKEN_LPAREN, ''('') # comma_sep (map name_tokens cols) @ [(TOKEN_RPAREN, '')'')]"
  obtain a b c cs d e us z where ts: "ts = a # b # c # cs @ d # e # us @ [z]" "strip a = (TOKEN_INSERT, ''INSERT'')" "strip b = (TOKEN_INTO, ''INTO'')"
    "strip c = (TOKEN_IDENT, n)" "map strip cs = ?cs" "strip d = (TOKEN_VALUES, ''VALUES'')" "strip e = (TOKEN_LPAREN, ''('')"
    "map strip us = comma_sep (map expr_tokens vals)" "strip z = (TOKEN_RPAREN, '')'')"
    using assms(2) by (auto simp only: stmt_tokens.simps append.simps map_is_Nil_conv elim!: strip_elims)
  have "comma_list parse_expr (us @ z # rest) = Inr (vals, z # rest)"
    using assms(1) ts(8,9) by (intro ex.comma_list_reads) (auto simp: peek_def comparison_def)
  moreover have "parse_insert_columns (cs @ d # u) = Inr (cols, d # u)" for u
  proof (cases "cols = []")
    case True
    then show ?thesis using ts(5,6) by (simp add: parse_insert_columns_def check_def peek_def)
  next
    case False
    then have "map strip cs = (TOKEN_LPAREN, ''('') # comma_sep (map name_tokens cols) @ [(TOKEN_RPAREN, '')'')]" using ts(5) by simp
    then obtain l vs r where c: "cs = l # vs @ [r]" "strip l = (TOKEN_LPAREN, ''('')" "map strip vs = comma_sep (map name_tokens cols)" "strip r = (TOKEN_RPAREN, '')'')"
      by (auto simp only: map_is_Nil_conv elim!: strip_elims)
    have "comma_list parse_column_name (vs @ r # d # u) = Inr (cols, r # d # u)"
      using assms(1) False c by (intro nm.comma_list_reads) (auto simp: peek_def)
    then show ?thesis using c by (simp add: parse_insert_columns_def check_def peek_def advance_def)
  qed
  ultimately show ?thesis using ts by (simp add: parseStatement_def parseInsert_def peek_def)
qed

lemma where_reads:
  assumes "case w of None \<Rightarrow> True | Some e \<Rightarrow> expr_wf e" "map strip ts = where_tokens w" "stmt_stop rest"
  shows "parse_optional_where (ts @ rest) = Inr (w, rest)"
proof (cases w)
  case None
  then show ?thesis using assms by (auto simp: parse_optional_where_def where_tokens_def match_token_def check_def)
next
  case (Some e)
  then obtain t us where ts: "ts = t # us" "strip t = (TOKEN_WHERE, ''WHERE'')" "map strip us = expr_tokens e"
    using assms(2) by (auto simp only: where_tokens_def option.case elim!: strip_ConsE)
  have "parse_expr (us @ rest) = Inr (e, rest)" using assms Some ts(3) by (intro ex.p_reads) (auto simp: comparison_def)
  then show ?thesis using ts Some by (simp add: parse_optional_where_def match_token_def check_def peek_def advance_def)
qed

lemma select_reads:
  assumes "stmt_wf (SelectStmt cols n w)" "map strip ts = stmt_tokens (SelectStmt cols n w)" "stmt_stop rest"
  shows "parseStatement (ts @ rest) = Inr (SelectStmt cols n w, snd (match_token TOKEN_SEMICOLON rest))"
proof -
  let ?cs = "if cols = [StarExpr] then [(TOKEN_STAR, ''*'')] else comma_sep (map prim_tokens cols)"
  obtain a cs b c us where ts: "ts = a # cs @ b # c # us" "strip a = (TOKEN_SELECT, ''SELECT'')" "map strip cs = ?cs" "strip b = (TOKEN_FROM, ''FROM'')"
    "strip c = (TOKEN_IDENT, n)" "map strip us = where_tokens w"
    using assms(2) by (auto simp only: stmt_tokens.simps append.simps map_is_Nil_conv elim!: strip_elims)
  have "parse_optional_where (us @ rest) = Inr (w, rest)" using assms ts(6) by (intro where_reads) (auto split: option.splits)
  moreover have "parse_select_columns (cs @ b # u) = Inr (cols, b # u)" for u
  proof (cases "cols = [StarExpr]")
    case True
    then show ?thesis using ts(3) by (auto simp: parse_select_columns_def check_def peek_def advance_def map_eq_Cons_conv)
  next
    case False
    then have w: "cols \<noteq> []" "list_all expr_wf cols" using assms(1) by auto
    then obtain e es where e: "cols = e # es" "expr_wf e" by (cases cols) auto
    have "\<exists>t vs. comma_sep (map prim_tokens cols) = t # vs \<and> fst t \<noteq> TOKEN_STAR"
      using e by (cases e; cases es) (auto split: any_value.splits)
    then have "\<not> check TOKEN_STAR (cs @ b # u)" using ts(3) False by (cases cs) (auto simp: check_def peek_def)
    moreover have "comma_list parse_primary (cs @ b # u) = Inr (cols, b # u)"
      using w ts(3,4) False by (intro pr.comma_list_reads) (auto simp: peek_def)
    ultimately show ?thesis by (simp add: parse_select_columns_def)
  qed
  ultimately show ?thesis using ts by (simp add: parseStatement_def parseSelect_def peek_def)
qed

lemma update_reads:
  assumes "stmt_wf (UpdateStmt n asgs w)" "map strip ts = stmt_tokens (UpdateStmt n asgs w)" "stmt_stop rest"
  shows "parseStatement (ts @ rest) = Inr (UpdateStmt n asgs w, snd (match_token TOKEN_SEMICOLON rest))"
proof -
  obtain e where w: "w = Some e" "expr_wf e" using assms(1) by (auto split: option.splits)
  obtain a b c us d vs where ts: "ts = a # b # c # us @ d # vs" "strip a = (TOKEN_UPDATE, ''UPDATE'')" "strip b = (TOKEN_IDENT, n)" "strip c = (TOKEN_SET, ''SET'')"
    "map strip us = comma_sep (map assignment_tokens asgs)" "strip d = (TOKEN_WHERE, ''WHERE'')" "map strip vs = expr_tokens e"
    using assms(2) by (auto simp only: stmt_tokens.simps append.simps where_tokens_def w option.case elim!: strip_elims)
  have "comma_list parse_assignment (us @ d # vs @ rest) = Inr (asgs, d # vs @ rest)"
    using assms(1) ts(5,6) by (intro asg.comma_list_reads) (auto simp: peek_def comparison_def)
  moreover have "parse_expr (vs @ rest) = Inr (e, rest)" using assms(3) w ts(7) by (intro ex.p_reads) (auto simp: comparison_def)
  ultimately show ?thesis using ts w by (simp add: parseStatement_def parseUpdate_def peek_def)
qed

lemma delete_reads:
  assumes "stmt_wf (DeleteStmt n w)" "map strip ts = stmt_tokens (DeleteStmt n w)" "stmt_stop rest"
  shows "parseStatement (ts @ rest) = Inr (DeleteStmt n w, snd (match_token TOKEN_SEMICOLON rest))"
proof -
  obtain e where w: "w = Some e" "expr_wf e" using assms(1) by (auto split: option.splits)
  obtain a b c d vs where ts: "ts = a # b # c # d # vs" "strip a = (TOKEN_DELETE, ''DELETE'')" "strip b = (TOKEN_FROM, ''FROM'')" "strip c = (TOKEN_IDENT, n)"
    "strip d = (TOKEN_WHERE, ''WHERE'')" "map strip vs = expr_tokens e"
    using assms(2) by (auto simp only: stmt_tokens.simps append.simps where_tokens_def w option.case elim!: strip_elims)
  have "parse_expr (vs @ rest) = Inr (e, rest)" using assms(3) w ts(6) by (intro ex.p_reads) (auto simp: comparison_def)
  then show ?thesis using ts w by (simp add: parseStatement_def parseDelete_def peek_def)
qed

lemma stmt_reads:
  "stmt_wf st \<Longrightarrow> map strip ts = stmt_tokens st \<Longrightarrow> stmt_stop rest \<Longrightarrow>
   parseStatement (ts @ rest) = Inr (st, snd (match_token TOKEN_SEMICOLON rest))"
  by (cases st) (auto intro: create_reads insert_reads select_reads update_reads delete_reads simp del: stmt_wf.simps stmt_tokens.simps)

lemma strip_place: "map strip (place p ts) = ts"
  by (induction p ts rule: place.induct) auto

abbreviation printable :: "(token_type \<times> string) list \<Rightarrow> bool" where
  "printable ts \<equiv> list_all (\<lambda>t. token_ok t \<and> fst t \<noteq> TOKEN_EOF) ts"

lemma keyword_token_simps:
  "token_ok (TOKEN_CREATE, ''CREATE'')" "token_ok (TOKEN_TABLE, ''TABLE'')" "token_ok (TOKEN_INSERT, ''INSERT'')" "token_ok (TOKEN_INTO, ''INTO'')"
  "token_ok (TOKEN_VALUES, ''VALUES'')" "token_ok (TOKEN_SELECT, ''SELECT'')" "token_ok (TOKEN_FROM, ''FROM'')" "token_ok (TOKEN_WHERE, ''WHERE'')"
  "token_ok (TOKEN_UPDATE, ''UPDATE'')" "token_ok (TOKEN_SET, ''SET'')" "token_ok (TOKEN_DELETE, ''DELETE'')" "token_ok (TOKEN_PRIMARY, ''PRIMARY'')"
  "token_ok (TOKEN_KEY, ''KEY'')" "token_ok (TOKEN_NOT, ''NOT'')" "token_ok (TOKEN_NULL, ''NULL'')" "token_ok (TOKEN_INT, ''INT'')"
  "token_ok (TOKEN_TEXT, ''TEXT'')" "token_ok (TOKEN_BOOL, ''BOOL'')" "token_ok (TOKEN_TRUE, ''TRUE'')" "token_ok (TOKEN_FALSE, ''FALSE'')"
  "token_ok (TOKEN_AND, ''AND'')" "token_ok (TOKEN_OR, ''OR'')"
  by code_simp+

lemma plain_token_simps:
  "token_ok (TOKEN_STRING, l)" "token_ok (TOKEN_IDENT, l) = ident_ok l" "token_ok (TOKEN_LPAREN, ''('')" "token_ok (TOKEN_RPAREN, '')'')"
  "token_ok (TOKEN_STAR, ''*'')" "token_ok (TOKEN_COMMA, '','')" "token_ok (TOKEN_EQ, ''='')"
  by simp_all

lemmas token_simps = keyword_token_simps plain_token_simps

lemma op_token_ok:
  assumes "op \<in> {''='', ''!='', ''<'', ''>'', ''<='', ''>='', ''AND'', ''OR''}"
  shows "token_ok (op_token op, op) \<and> op_token op \<noteq> TOKEN_EOF"
  using assms by (elim insertE emptyE; hypsubst; code_simp)

lemma number_token_ok: "token_ok (TOKEN_NUMBER, dec n)"
  using dec_digits [of n] by (simp add: isDigit_def is_dec_digit_def list_all_iff)

lemma prim_tokens_ok: "expr_wf e \<Longrightarrow> printable (prim_tokens e)"
proof (induction e)
  case (BinaryExpr l op r)
  then show ?case using op_token_ok [of op] by simp
next
  case (Literal v)
  then show ?case by (cases v) (auto simp del: token_ok.simps simp: token_simps number_token_ok split: if_splits)
qed auto

lemma expr_tokens_ok: "expr_wf e \<Longrightarrow> printable (expr_tokens e)"
  using prim_tokens_ok [of e] op_token_ok by (cases e) (auto simp: expr_tokens_def prim_tokens_ok)

lemma comma_sep_ok: "list_all P xs \<Longrightarrow> (\<And>x. P x \<Longrightarrow> printable (f x)) \<Longrightarrow> printable (comma_sep (map f xs))"
proof (induction xs)
  case (Cons x xs)
  then show ?case by (cases xs) auto
qed simp

lemma column_tokens_ok: "column_wf c \<Longrightarrow> printable (column_tokens c)"
  by (cases "cdType c") (auto simp del: token_ok.simps simp: column_tokens_def column_wf_def token_simps)

lemma assignment_tokens_ok: "assignment_wf a \<Longrightarrow> printable (assignment_tokens a)"
  by (simp add: assignment_tokens_def assignment_wf_def expr_tokens_ok)

lemma where_tokens_ok: "(case w of None \<Rightarrow> True | Some e \<Rightarrow> expr_wf e) \<Longrightarrow> printable (where_tokens w)"
  by (cases w) (auto simp del: token_ok.simps simp: where_tokens_def expr_tokens_ok token_simps)

lemma stmt_tokens_ok:
  assumes "stmt_wf st"
  shows "printable (stmt_tokens st)"
proof -
  have n: "printable (name_tokens x)" if "ident_ok x" for x using that by (simp add: name_tokens_def)
  note l = comma_sep_ok [OF _ column_tokens_ok] comma_sep_ok [OF _ assignment_tokens_ok] comma_sep_ok [OF _ expr_tokens_ok]
    comma_sep_ok [OF _ prim_tokens_ok] comma_sep_ok [OF _ n]
  show ?thesis
    using assms by (cases st) (auto simp del: token_ok.simps simp: l token_simps where_tokens_ok split: option.splits)
qed

section \<open>The parser and its input\<close>

lemma lex_loop_semicolon:
  "lex_loop (CHR '';'' # r) pos = map_sum id ((#) \<lparr>tkType = TOKEN_SEMICOLON, tkLiteral = '';'', tkPos = pos\<rparr>) (lex_loop r (pos + 1))"
  by (simp add: lex_loop.simps [of "CHR '';'' # r"] lex_token_def isLetter_def isDigit_def)

lemma Parse_print:
  assumes "stmt_wf st" "lex_loop r (length (print_stmt st)) = Inr rs" "stmt_stop rs"
  shows "Parse (print_stmt st @ r) = Inr st"
proof -
  have "Lex (print_stmt st @ r) = Inr (place 0 (stmt_tokens st) @ rs)"
    using Lex_unlex [OF stmt_tokens_ok [OF assms(1)]] assms(2) by (simp add: print_stmt_def)
  then show ?thesis using stmt_reads [OF assms(1) strip_place assms(3)] by (simp add: Parse_def)
qed

lemma Parse_wf:
  assumes "Parse s = Inr st"
  shows "stmt_wf st"
proof -
  obtain toks r where t: "Lex s = Inr toks" "parseStatement toks = Inr (st, r)"
    using assms by (auto simp: Parse_def err_bind_Inr split: sum.splits)
  obtain ts e where "toks = ts @ [e]" "tkType e = TOKEN_EOF" "tkLiteral e = []" "list_all (\<lambda>t. token_ok (strip t) \<and> tkType t \<noteq> TOKEN_EOF) ts"
    using Lex_ok [OF t(1)] .
  then have "tokens_ok toks" by (auto simp: list_all_iff)
  with parseStatement_wf [OF t(2)] show ?thesis by blast
qed

text \<open>
  Property C12.  Parsing is the inverse of printing: a statement that the parser returns for some input, printed
  and parsed again, gives the same statement.
\<close>

theorem Parse_canonical:
  assumes "Parse s = Inr st"
  shows "Parse (print_stmt st) = Inr st"
  using Parse_print [OF Parse_wf [OF assms], of "[]"] by (simp add: lex_loop.simps [of "[]"] peek_def)

definition demo_delete :: statement where
  "demo_delete = DeleteStmt ''t'' (Some (BinaryExpr (ColumnRef ''id'') ''='' (Literal (AnyInt 7))))"

lemma demo_delete_parsed: "Parse ''delete from t where (id) = 007;'' = Inr demo_delete"
  by code_simp

theorem Parse_canonical_witness:
  "Parse ''delete from t where (id) = 007;'' = Inr demo_delete \<and> Parse (print_stmt demo_delete) = Inr demo_delete"
  using demo_delete_parsed Parse_canonical [OF demo_delete_parsed] by simp

text \<open>
  Property C24.  Parsing terminates: the fuel that the model gives the mutually recursive expression parsers and
  the list loops is never used up, on any input.
\<close>

theorem Parse_terminates: "Parse s \<noteq> Inl OutOfFuel"
  using parseStatement_fuel by (auto simp: Parse_def err_bind_Inl split: sum.splits)

text \<open>
  Input after a statement is ignored: whatever follows the semicolon, as long as it consists of tokens,
  is accepted and dropped without an error.
\<close>

theorem Parse_ignores_trailing:
  assumes "Parse s = Inr st" "Lex (print_stmt st @ CHR '';'' # junk) = Inr toks"
  shows "Parse (print_stmt st @ CHR '';'' # junk) = Inr st"
proof -
  have wf: "stmt_wf st" by (rule Parse_wf [OF assms(1)])
  obtain rs where rs: "lex_loop (CHR '';'' # junk) (length (print_stmt st)) = Inr rs"
    using assms(2) lex_loop_unlex [OF stmt_tokens_ok [OF wf], of "CHR '';'' # junk" 0]
    by (cases "lex_loop (CHR '';'' # junk) (length (print_stmt st))") (auto simp: Lex_def print_stmt_def)
  then have "stmt_stop rs"
    by (cases "lex_loop junk (length (print_stmt st) + 1)") (auto simp: lex_loop_semicolon peek_def)
  with Parse_print [OF wf rs] show ?thesis .
qed

theorem Parse_ignores_trailing_witness:
  "Parse (print_stmt demo_delete @ ''; or 8 delete'') = Inr demo_delete"
proof -
  have "\<exists>toks. Lex (print_stmt demo_delete @ CHR '';'' # '' or 8 delete'') = Inr toks"
    by (rule exI [of _ "projr (Lex (print_stmt demo_delete @ ''; or 8 delete''))"]) code_simp
  then obtain toks where "Lex (print_stmt demo_delete @ CHR '';'' # '' or 8 delete'') = Inr toks" by blast
  from Parse_ignores_trailing [OF demo_delete_parsed this] show ?thesis by simp
qed

end
