(* ===== verification/GoFloat.thy ===== *)
theory GoFloat
  imports Json
begin

text \<open>
  Numbers of JSON documents as Go reads and writes them without a static type: \<^verbatim>\<open>json.Unmarshal\<close> turns a number literal
  into a \<^verbatim>\<open>float64\<close> (\<^verbatim>\<open>strconv.ParseFloat\<close>: the nearest binary64 value, ties to even, out of range is an error), and
  \<^verbatim>\<open>json.Marshal\<close> writes the shortest decimal that reads back as the same value, in positional notation
  between 1e-6 and 1e21.  A finite \<^verbatim>\<open>float64\<close> is identified with that text: \<open>float_text l\<close> is the text of the value
  of the literal \<open>l\<close>.

  A positive value is a pair \<open>(m, e)\<close> for \<open>m * 2 ^ e\<close>, normalised as binary64 is; seventeen digits always
  tell two of them apart, so the search for the shortest decimal tries one to seventeen digits.

  \<open>float_text_int\<close>: integers up to \<open>2 ^ 53\<close> are exact.
\<close>

function bit_len :: "int \<Rightarrow> int" where
  "bit_len n = (if n \<le> 0 then 0 else 1 + bit_len (n div 2))"
  by pat_completeness auto
termination by (relation "measure nat") auto

function digit_count :: "int \<Rightarrow> int" where
  "digit_count n = (if n < 10 then 1 else 1 + digit_count (n div 10))"
  by pat_completeness auto
termination by (relation "measure nat") auto

function lead_zeros :: "int \<Rightarrow> int \<Rightarrow> int" where
  "lead_zeros p q = (if q \<le> p \<or> p \<le> 0 then 0 else 1 + lead_zeros (10 * p) q)"
  by pat_completeness auto
termination by (relation "measure (\<lambda>(p, q). nat (q - p))") auto

declare bit_len.simps [simp del] digit_count.simps [simp del] lead_zeros.simps [simp del]

definition half_even :: "int \<Rightarrow> int \<Rightarrow> int" where
  "half_even p q = (let d = p div q; r = p mod q in if 2 * r < q \<or> 2 * r = q \<and> even d then d else d + 1)"

text \<open>The fraction \<open>p / q\<close> divided by \<open>b ^ e\<close>.\<close>

definition unscale :: "int \<Rightarrow> int \<Rightarrow> int \<Rightarrow> int \<Rightarrow> int \<times> int" where
  "unscale b p q e = (if 0 \<le> e then (p, q * b ^ nat e) else (p * b ^ nat (- e), q))"

text \<open>The binary64 value nearest to \<open>p / q\<close>, both positive; \<open>None\<close> when it is out of range.\<close>

definition to_double :: "int \<Rightarrow> int \<Rightarrow> (int \<times> int) option" where
  "to_double p q =
     (let e0 = bit_len p - bit_len q - 53;
          (a0, b0) = unscale 2 p q e0;
          e1 = max (if 2 ^ 53 * b0 \<le> a0 then e0 + 1 else e0) (- 1074);
          (a, b) = unscale 2 p q e1;
          m = half_even a b;
          (m', e) = (if m = 2 ^ 53 then (2 ^ 52, e1 + 1) else (m, e1))
      in if 971 < e then None else Some (m', e))"

definition reads_back :: "int \<times> int \<Rightarrow> int \<Rightarrow> int \<Rightarrow> bool" where
  "reads_back d c k \<longleftrightarrow> 0 < c \<and> (case unscale 10 c 1 (- k) of (u, v) \<Rightarrow> to_double u v = Some d)"

text \<open>The shortest decimal \<open>c * 10 ^ k\<close> that reads back as the value \<open>d\<close>, which is \<open>p / q\<close> and lies below \<open>10 ^ x\<close>.\<close>

fun shortest :: "nat \<Rightarrow> int \<Rightarrow> int \<times> int \<Rightarrow> int \<Rightarrow> int \<Rightarrow> int \<Rightarrow> int \<times> int" where
  "shortest 0 n d p q x = (0, 0)"
| "shortest (Suc left) n d p q x =
     (let k = x - n;
          (a, b) = unscale 10 p q k;
          lo = a div b
      in if reads_back d lo k \<and> reads_back d (lo + 1) k then (half_even a b, k)
         else if reads_back d lo k then (lo, k)
         else if reads_back d (lo + 1) k then (lo + 1, k)
         else shortest left (n + 1) d p q x)"

definition positional :: "int \<Rightarrow> int \<Rightarrow> string" where
  "positional c k =
     (if 0 \<le> k then dec (nat (c * 10 ^ nat k))
      else let w = nat (- k); f = dec (nat (c mod 10 ^ w))
           in dec (nat (c div 10 ^ w)) @ CHR ''.'' # replicate (w - length f) (CHR ''0'') @ f)"

definition scientific :: "int \<Rightarrow> int \<Rightarrow> string" where
  "scientific c k =
     (let ds = dec (nat c); e = k + int (length ds) - 1;
          frac = rev (dropWhile (\<lambda>ch. ch = CHR ''0'') (rev (tl ds)))
      in hd ds # (if frac = [] then [] else CHR ''.'' # frac) @ (if e < 0 then ''e-'' else ''e+'') @ dec (nat (abs e)))"

text \<open>The bounds of positional notation are the values of \<^verbatim>\<open>1e-6\<close>, that is \<open>4722366482869645 / 2 ^ 72\<close>, and of \<^verbatim>\<open>1e21\<close>, which is exact.\<close>

definition double_text :: "int \<times> int \<Rightarrow> string" where
  "double_text d = (case d of (m, e) \<Rightarrow>
     if m = 0 then ''0''
     else let (p, q) = unscale 2 m 1 (- e);
              x = (if q \<le> p then digit_count (p div q) else 1 - lead_zeros p q);
              (c, k) = shortest 17 1 d p q x
          in if 4722366482869645 * q \<le> p * 2 ^ 72 \<and> p < 10 ^ 21 * q then positional c k else scientific c k)"

definition digits_val :: "string \<Rightarrow> int" where
  "digits_val ds = foldl (\<lambda>a c. 10 * a + int (of_char c - 48)) 0 ds"

text \<open>The parts of a number literal: integer digits, fraction digits and exponent.\<close>

definition float_text :: "string \<Rightarrow> string option" where
  "float_text l =
     (let neg = (l \<noteq> [] \<and> hd l = CHR ''-'');
          s = (if neg then tl l else l);
          ip = takeWhile is_dec_digit s;
          s1 = dropWhile is_dec_digit s;
          fr = (if s1 \<noteq> [] \<and> hd s1 = CHR ''.'' then takeWhile is_dec_digit (tl s1) else []);
          s2 = (if s1 \<noteq> [] \<and> hd s1 = CHR ''.'' then dropWhile is_dec_digit (tl s1) else s1);
          ex = (if s2 = [] then 0
                else let t = tl s2 in
                  if t \<noteq> [] \<and> hd t = CHR ''-'' then - digits_val (tl t)
                  else if t \<noteq> [] \<and> hd t = CHR ''+'' then digits_val (tl t) else digits_val t);
          d = digits_val (ip @ fr);
          sign = (\<lambda>t. if neg then CHR ''-'' # t else t)
      in if d = 0 then Some (sign ''0'')
         else let (p, q) = unscale 10 d 1 (int (length fr) - ex)
              in map_option (sign o double_text) (to_double p q))"

section \<open>Small integers are exact\<close>

lemma bit_len_bounds: "0 < n \<Longrightarrow> \<exists>k. bit_len n = int k + 1 \<and> 2 ^ k \<le> n \<and> n < 2 ^ Suc k"
proof (induction n rule: bit_len.induct)
  case (1 n)
  show ?case
  proof (cases "n = 1")
    case True
    then show ?thesis by (intro exI [of _ 0]) (simp add: bit_len.simps [of 1] bit_len.simps [of 0])
  next
    case False
    then have "\<not> n \<le> 0" "0 < n div 2" using "1.prems" by auto
    with "1.IH" obtain k where "bit_len (n div 2) = int k + 1" "2 ^ k \<le> n div 2" "n div 2 < 2 ^ Suc k" by blast
    then show ?thesis using "1.prems" by (intro exI [of _ "Suc k"]) (auto simp: bit_len.simps [of n])
  qed
qed

lemma half_even_1 [simp]: "half_even a 1 = a"
  by (simp add: half_even_def)

lemma to_double_small:
  assumes "0 < n" "n < 2 ^ 53" "bit_len n = int k + 1" "2 ^ k \<le> n" "n < 2 ^ Suc k"
  shows "to_double n 1 = Some (n * 2 ^ (52 - k), int k - 52)"
proof -
  have k: "k \<le> 52"
  proof (rule ccontr)
    assume "\<not> k \<le> 52"
    then have "(2::int) ^ 53 \<le> 2 ^ k" by (intro power_increasing) auto
    with assms show False by simp
  qed
  have b: "bit_len 1 = 1" by (simp add: bit_len.simps [of 1] bit_len.simps [of 0])
  have u: "unscale 2 n 1 (int k - 53) = (n * 2 ^ (53 - k), 1)" "unscale 2 n 1 (int k - 52) = (n * 2 ^ (52 - k), 1)"
    using k by (auto simp: unscale_def nat_diff_distrib')
  have "(2::int) ^ 53 = 2 ^ k * 2 ^ (53 - k)" "(2::int) ^ 53 = 2 ^ Suc k * 2 ^ (52 - k)"
    using k by (simp_all only: power_add [symmetric]) simp_all
  then have "2 ^ 53 \<le> n * 2 ^ (53 - k)" "n * 2 ^ (52 - k) < 2 ^ 53"
    using mult_right_mono [OF assms(4), of "2 ^ (53 - k)"] mult_strict_right_mono [OF assms(5), of "2 ^ (52 - k)"] by (simp_all del: power_Suc)
  then show ?thesis using k by (simp add: to_double_def b assms(3) u max_def)
qed

lemma to_double_large:
  assumes "2 ^ 53 \<le> u" "to_double u 1 = Some (m, e)"
  shows "0 < e"
proof -
  obtain k where k: "bit_len u = int k + 1" "2 ^ k \<le> u" "u < 2 ^ Suc k" using bit_len_bounds [of u] assms(1) by auto
  have "53 \<le> k"
  proof (rule ccontr)
    assume "\<not> 53 \<le> k"
    then have "(2::int) ^ Suc k \<le> 2 ^ 53" by (intro power_increasing) auto
    with k assms show False by simp
  qed
  have b: "bit_len 1 = 1" by (simp add: bit_len.simps [of 1] bit_len.simps [of 0])
  have "(2::int) ^ k = 2 ^ 53 * 2 ^ (k - 53)" using \<open>53 \<le> k\<close> by (simp only: power_add [symmetric]) simp
  moreover have "unscale 2 u 1 (int k - 53) = (u, 2 ^ (k - 53))" using \<open>53 \<le> k\<close> by (simp add: unscale_def nat_diff_distrib')
  ultimately show ?thesis using assms(2) k \<open>53 \<le> k\<close>
    by (auto simp: to_double_def b max_def Let_def split: prod.splits if_splits)
qed

lemma to_double_inj:
  assumes "0 < n" "n < 2 ^ 53" "0 < u" "to_double u 1 = to_double n 1"
  shows "u = n"
proof -
  obtain k where k: "bit_len n = int k + 1" "2 ^ k \<le> n" "n < 2 ^ Suc k" using bit_len_bounds [OF assms(1)] by blast
  note n = to_double_small [OF assms(1,2) k]
  have "k \<le> 52"
  proof (rule ccontr)
    assume "\<not> k \<le> 52"
    then have "(2::int) ^ 53 \<le> 2 ^ k" by (intro power_increasing) auto
    with k assms show False by simp
  qed
  have "u < 2 ^ 53" using to_double_large [of u] assms(4) n \<open>k \<le> 52\<close> by fastforce
  obtain j where j: "bit_len u = int j + 1" "2 ^ j \<le> u" "u < 2 ^ Suc j" using bit_len_bounds [OF assms(3)] by blast
  show ?thesis using to_double_small [OF assms(3) \<open>u < 2 ^ 53\<close> j] n assms(4) by (auto simp: power_not_zero)
qed

lemma shortest_int:
  assumes n: "0 < n" "n < 2 ^ 53" "to_double n 1 = Some d" and q: "0 < q"
  shows "i \<le> x \<Longrightarrow> x - i < int left \<Longrightarrow> shortest left i d (n * q) q x = (c, k) \<Longrightarrow> 0 \<le> k \<and> c * 10 ^ nat k = n"
proof (induction left arbitrary: i)
  case (Suc left)
  let ?j = "nat (x - i)"
  have u: "unscale 10 (n * q) q (x - i) = (n * q, q * 10 ^ ?j)" "unscale 10 v 1 (i - x) = (v * 10 ^ ?j, 1)" for v
    using Suc.prems(1) by (auto simp: unscale_def)
  have lo: "n * q div (q * 10 ^ ?j) = n div 10 ^ ?j" using q by (metis div_mult_mult1 mult.commute less_irrefl)
  have good: "reads_back d v (x - i) \<longleftrightarrow> v * 10 ^ ?j = n" for v
    using to_double_inj [OF n(1,2), of "v * 10 ^ ?j"] n by (auto simp: reads_back_def u zero_less_mult_iff)
  have "n mod 10 ^ ?j < 10 ^ ?j" "(n div 10 ^ ?j) * 10 ^ ?j + n mod 10 ^ ?j = n" by (simp, rule div_mult_mod_eq)
  then have "(n div 10 ^ ?j + 1) * 10 ^ ?j \<noteq> n" unfolding distrib_right by linarith
  then have s: "shortest (Suc left) i d (n * q) q x =
      (if (n div 10 ^ ?j) * 10 ^ ?j = n then (n div 10 ^ ?j, x - i) else shortest left (i + 1) d (n * q) q x)"
    by (simp add: u lo good Let_def)
  show ?case
  proof (cases "(n div 10 ^ ?j) * 10 ^ ?j = n")
    case True
    then show ?thesis using Suc.prems s by auto
  next
    case False
    then have "i \<noteq> x" by auto
    then show ?thesis using Suc.IH [of "i + 1"] Suc.prems s False by (simp del: shortest.simps)
  qed
qed simp

lemma digit_count_bounds: "1 \<le> digit_count n \<and> (n < 10 ^ Suc j \<longrightarrow> digit_count n \<le> int j + 1)"
proof (induction n arbitrary: j rule: digit_count.induct)
  case (1 n)
  show ?case
  proof (cases "n < 10")
    case False
    have "digit_count (n div 10) \<le> int j" if "n < 10 ^ Suc j"
    proof (cases j)
      case 0
      with that False show ?thesis by simp
    next
      case (Suc i)
      with that have "n div 10 < 10 ^ Suc i" by auto
      with 1 [OF False, of i] Suc show ?thesis by auto
    qed
    moreover have "1 \<le> digit_count (n div 10)" using 1 [OF False] by blast
    ultimately show ?thesis by (simp add: digit_count.simps [of n])
  qed (simp add: digit_count.simps [of n])
qed

lemma double_text_int:
  assumes "0 < n" "n < 2 ^ 53"
  shows "\<exists>d. to_double n 1 = Some d \<and> double_text d = dec (nat n)"
proof -
  obtain k where k: "bit_len n = int k + 1" "2 ^ k \<le> n" "n < 2 ^ Suc k" using bit_len_bounds [OF assms(1)] by blast
  note t = to_double_small [OF assms k]
  have "k \<le> 52"
  proof (rule ccontr)
    assume "\<not> k \<le> 52"
    then have "(2::int) ^ 53 \<le> 2 ^ k" by (intro power_increasing) auto
    with k assms show False by simp
  qed
  define q :: int where "q = 2 ^ (52 - k)"
  have q: "0 < q" by (simp add: q_def)
  have u: "unscale 2 (n * q) 1 (52 - int k) = (n * q, q)"
    using \<open>k \<le> 52\<close> by (auto simp: unscale_def q_def nat_diff_distrib')
  have x: "1 \<le> digit_count n" "digit_count n \<le> 16"
    using digit_count_bounds [of n 15] assms(2) by auto
  obtain c j where s: "shortest 17 1 (n * q, int k - 52) (n * q) q (digit_count n) = (c, j)" by fastforce
  with shortest_int [OF assms t [folded q_def] q x(1), of 17] x(2) have c: "0 \<le> j" "c * 10 ^ nat j = n" by simp_all
  have "4722366482869645 * q \<le> n * q * 2 ^ 72" "n * q < 10 ^ 21 * q" "q \<le> n * q" "n * q div q = n"
    using assms q by (auto simp: mult_le_cancel_right)
  then have "double_text (n * q, int k - 52) = dec (nat n)"
    using assms(1) q c by (simp add: double_text_def u s positional_def)
  then show ?thesis using t by (simp add: q_def)
qed

lemma digits_val_dec_val: "dec_val a ds = Some v \<Longrightarrow> foldl (\<lambda>a c. 10 * a + int (of_char c - 48)) (int a) ds = int v"
proof (induction ds arbitrary: a)
  case (Cons c ds)
  then have d: "is_dec_digit c" "dec_val (10 * a + (of_char c - 48)) ds = Some v" by (auto split: if_splits)
  from Cons.IH [OF d(2)] show ?case by simp
qed simp

lemma float_text_dec: "float_text (dec n) = (if n = 0 then Some ''0'' else map_option double_text (to_double (int n) 1))"
proof -
  have d: "list_all is_dec_digit (dec n)" by (rule dec_digits)
  then have h: "hd (dec n) \<noteq> CHR ''-''" by (cases "dec n") (auto simp: is_dec_digit_def)
  have w: "takeWhile is_dec_digit (dec n) = dec n" "dropWhile is_dec_digit (dec n) = []"
    using d by (auto simp: list_all_iff dropWhile_eq_Nil_conv takeWhile_eq_all_conv)
  have v: "digits_val (dec n) = int n" using digits_val_dec_val [of 0 "dec n" n] by (simp add: digits_val_def)
  show ?thesis
  proof (cases "n = 0")
    case False
    then show ?thesis using h by (cases "to_double (int n) 1") (simp_all add: float_text_def w v unscale_def Let_def)
  next
    case True
    have "float_text (dec 0) = Some ''0''" by code_simp
    then show ?thesis using True by simp
  qed
qed

text \<open>A literal for an integer below \<open>2 ^ 53\<close> is read as that integer and written as the same literal; above, literals collide.\<close>

lemma float_text_int: "n < 2 ^ 53 \<Longrightarrow> float_text (dec n) = Some (dec n)"
proof (cases "n = 0")
  case True
  have "dec 0 = ''0''" by code_simp
  then show ?thesis using True float_text_dec [of 0] by simp
next
  case False
  assume "n < 2 ^ 53"
  then show ?thesis using False double_text_int [of "int n"] by (auto simp: float_text_dec)
qed

lemma float_text_collision: "float_text (dec 9007199254740993) = float_text (dec 9007199254740992)"
proof -
  have "to_double 9007199254740993 1 = to_double 9007199254740992 1" by code_simp
  then show ?thesis by (simp only: float_text_dec of_nat_numeral) simp
qed

end
