(* ===== verification/SqlCatalog.thy ===== *)
theory SqlCatalog
  imports SqlParser GoFloat
begin

text \<open>
  Table definitions, the in-memory catalog and the encoding of rows: \<^verbatim>\<open>internal/sql/catalog.go\<close>.  A row is a Go map from column
  names to values of any type; \<^verbatim>\<open>DecodeRow\<close> yields the nil map, \<open>None\<close>, for the document \<^verbatim>\<open>null\<close>.  Numbers come back as
  \<^verbatim>\<open>float64\<close> (theory \<open>GoFloat\<close>).

  \<open>RowKey_inject\<close>: rows of different tables have different keys, since a table name is an identifier and has no slash.
  \<open>DecodeRow_EncodeRow\<close>: a row of exact values survives its encoding, with integers turned into floats.
\<close>

record table_def =
  tdName :: string
  tdColumns :: "column_def list"
  tdPrimaryKey :: string
  tdShardID :: string

type_synonym catalog = "(string, table_def) gomap"
type_synonym row = "(string, any_value) gomap"

datatype catalog_error = TableExists string | TableNotFound string

definition NewInMemoryCatalog :: catalog where
  "NewInMemoryCatalog = []"

definition CreateTable :: "table_def \<Rightarrow> catalog \<Rightarrow> catalog \<times> catalog_error option" where
  "CreateTable def c = (if gm_get c (tdName def) \<noteq> None then (c, Some (TableExists (tdName def)))
     else (gm_put (tdName def) def c, None))"

definition GetTable :: "string \<Rightarrow> catalog \<Rightarrow> catalog_error + table_def" where
  "GetTable name c = (case gm_get c name of None \<Rightarrow> Inl (TableNotFound name) | Some def \<Rightarrow> Inr def)"

definition ListTables :: "catalog \<Rightarrow> table_def list" where
  "ListTables c = map snd c"

definition RowKey :: "string \<Rightarrow> string \<Rightarrow> string" where
  "RowKey table pkValue = table @ ''/'' @ pkValue"

section \<open>Encoding of rows\<close>

fun any_json :: "any_value \<Rightarrow> json" where
  "any_json (AnyInt n) = JNum (int_text n)"
| "any_json (AnyFloat t) = JNum t"
| "any_json (AnyString s) = JStr s"
| "any_json (AnyBool b) = JBool b"
| "any_json AnyNil = JNull"
| "any_json (AnyList vs) = JArr (map any_json vs)"
| "any_json (AnyMap ms) = JObj (sort_kv (map (\<lambda>(k, v). (k, any_json v)) ms))"

definition EncodeRow :: "row \<Rightarrow> string" where
  "EncodeRow row = json_print (any_json (AnyMap row))"

text \<open>Storing a document into an interface value: \<open>None\<close> when a number is out of the range of \<^verbatim>\<open>float64\<close>.\<close>

fun any_of_json :: "json \<Rightarrow> any_value option"
and any_elems :: "json list \<Rightarrow> any_value list option"
and any_members :: "row \<Rightarrow> (string \<times> json) list \<Rightarrow> row option" where
  "any_of_json JNull = Some AnyNil"
| "any_of_json (JBool b) = Some (AnyBool b)"
| "any_of_json (JNum l) = map_option AnyFloat (float_text l)"
| "any_of_json (JStr s) = Some (AnyString s)"
| "any_of_json (JArr vs) = map_option AnyList (any_elems vs)"
| "any_of_json (JObj ms) = map_option AnyMap (any_members [] ms)"
| "any_elems [] = Some []"
| "any_elems (v # vs) = (case any_of_json v of None \<Rightarrow> None | Some x \<Rightarrow> map_option ((#) x) (any_elems vs))"
| "any_members m [] = Some m"
| "any_members m ((k, v) # ms) = (case any_of_json v of None \<Rightarrow> None | Some x \<Rightarrow> any_members (gm_put k x m) ms)"

datatype row_error = DecodeSyntax | DecodeType

definition DecodeRow :: "string \<Rightarrow> row_error + row option" where
  "DecodeRow data = (case json_parse data of
      None \<Rightarrow> Inl DecodeSyntax
    | Some JNull \<Rightarrow> Inr None
    | Some (JObj ms) \<Rightarrow> (case any_members [] ms of None \<Rightarrow> Inl DecodeType | Some m \<Rightarrow> Inr (Some m))
    | Some _ \<Rightarrow> Inl DecodeType)"

section \<open>Keys\<close>

lemma ident_no_slash: "ident_ok t \<Longrightarrow> CHR ''/'' \<notin> set t"
  by (auto simp: ident_ok_def word_ok_def list_all_iff isLetterOrDigit_def isLetter_def isDigit_def)

lemma RowKey_inject:
  assumes "CHR ''/'' \<notin> set t" "CHR ''/'' \<notin> set t'"
  shows "RowKey t p = RowKey t' p' \<longleftrightarrow> t = t' \<and> p = p'"
proof
  assume e: "RowKey t p = RowKey t' p'"
  have "takeWhile (\<lambda>c. c \<noteq> CHR ''/'') (RowKey u q) = u" if "CHR ''/'' \<notin> set u" for u q
    using that by (auto simp: RowKey_def takeWhile_append)
  then have "t = t'" using e assms by metis
  then show "t = t' \<and> p = p'" using e by (simp add: RowKey_def)
qed simp

lemma RowKey_prefix: "prefix (t @ ''/'') k \<longleftrightarrow> (\<exists>p. k = RowKey t p)"
  by (auto simp: RowKey_def prefix_def)

section \<open>Rows survive their encoding\<close>

text \<open>\<open>exact v\<close>: a value that a row can hold without loss; \<open>stored v\<close> is what is read back for it.\<close>

fun exact :: "any_value \<Rightarrow> bool" where
  "exact (AnyInt n) = (0 \<le> n \<and> n < 2 ^ 53)"
| "exact (AnyFloat t) = (case dec_val 0 t of Some n \<Rightarrow> t = dec n \<and> n < 2 ^ 53 | None \<Rightarrow> False)"
| "exact (AnyString s) = utf8_valid s"
| "exact (AnyBool b) = True"
| "exact AnyNil = True"
| "exact _ = False"

fun stored :: "any_value \<Rightarrow> any_value" where
  "stored (AnyInt n) = AnyFloat (dec (nat n))"
| "stored v = v"

definition row_ok :: "row \<Rightarrow> bool" where
  "row_ok r \<longleftrightarrow> gm_wf r \<and> list_all (\<lambda>(k, v). utf8_valid k \<and> exact v) r"

lemma exact_json:
  assumes "exact v"
  shows "json_ok (any_json v) \<and> json_coerce (any_json v) = any_json v \<and> any_of_json (any_json v) = Some (stored v)"
  using assms
  by (cases v) (auto simp: int_text_def float_text_int utf8_valid_def nat_less_iff split: option.splits)

lemma exact_stored: "exact v \<Longrightarrow> exact (stored v)"
  by (cases v) (auto simp: nat_less_iff)

lemma any_members_map:
  "list_all (\<lambda>(k, v). exact v) r \<Longrightarrow> any_members m (map (\<lambda>(k, v). (k, any_json v)) r) = Some (gm_into m (map (\<lambda>(k, v). (k, stored v)) r))"
  by (induction r arbitrary: m) (auto simp: exact_json gm_into_def)

lemma sort_kv_map: "sort_kv (map (\<lambda>(k, v). (k, f v)) r) = map (\<lambda>(k, v). (k, f v)) (sort_kv r)"
proof -
  have "insert_kv (k, f v) (map (\<lambda>(k, v). (k, f v)) r) = map (\<lambda>(k, v). (k, f v)) (insert_kv (k, v) r)" for k v r
    by (induction r) auto
  then show ?thesis by (induction r) (auto simp: sort_kv_def)
qed

lemma DecodeRow_EncodeRow:
  assumes "row_ok r"
  shows "DecodeRow (EncodeRow r) = Inr (Some (map (\<lambda>(k, v). (k, stored v)) (sort_kv r)))"
proof -
  let ?j = "any_json (AnyMap r)"
  have wf: "gm_wf (sort_kv r)" and ok: "list_all (\<lambda>(k, v). utf8_valid k \<and> exact v) (sort_kv r)"
    using assms by (auto simp: row_ok_def list_all_iff)
  have "json_ok ?j" using ok by (auto simp: sort_kv_map list_all_iff exact_json)
  moreover have "json_coerce ?j = ?j"
    using ok by (auto simp: sort_kv_map list_all_iff exact_json utf8_valid_def intro!: map_cong)
  ultimately have "json_parse (EncodeRow r) = Some ?j" using json_parse_print [of ?j] by (simp add: EncodeRow_def)
  moreover have "any_members [] (sort_kv (map (\<lambda>(k, v). (k, any_json v)) r)) = Some (gm_into [] (map (\<lambda>(k, v). (k, stored v)) (sort_kv r)))"
  proof -
    have "list_all (\<lambda>(k, v). exact v) (sort_kv r)" using ok by (auto simp: list_all_iff)
    then show ?thesis by (simp add: sort_kv_map any_members_map)
  qed
  moreover have "gm_wf (map (\<lambda>(k, v). (k, stored v)) (sort_kv r))" using wf by (simp add: gm_wf_def comp_def split_def)
  ultimately show ?thesis by (simp add: DecodeRow_def)
qed

text \<open>Integers above \<open>2 ^ 53\<close>, here \<open>2 ^ 53 + 1\<close>, may be stored as the same value.\<close>

lemma large_ints_collide: "any_of_json (any_json (AnyInt 9007199254740993)) = any_of_json (any_json (AnyInt 9007199254740992))"
  by (simp add: int_text_def float_text_collision)

end
