(* ===== verification/SqlAnalyzer.thy ===== *)
theory SqlAnalyzer
  imports SqlCatalog
begin

text \<open>
  The semantic analysis and the planner: \<^verbatim>\<open>internal/sql/analyzer.go\<close> and \<^verbatim>\<open>internal/sql/planner.go\<close>.  A nil column list of a
  resolved SELECT, which stands for all columns, is \<open>None\<close>.  An index into a slice that is too short, which panics in
  Go, is the error \<open>PlanPanic\<close>.
\<close>

record typed_expr =
  teExpr :: expr
  teCType :: column_type

record resolved_where =
  rwPKColumn :: column_def
  rwOp :: string
  rwValue :: typed_expr

record resolved_assignment =
  raColumn :: column_def
  raValue :: typed_expr

datatype resolved_statement =
    ResolvedCreateTable statement table_def
  | ResolvedInsert table_def "column_def list" "typed_expr list"
  | ResolvedSelect table_def "column_def list option" "resolved_where option"
  | ResolvedUpdate table_def "resolved_assignment list" "resolved_where option"
  | ResolvedDelete table_def "resolved_where option"

datatype analyze_error = DuplicateColumn string | NoPrimaryKey | MultiplePrimaryKeys | CatalogErr catalog_error | ColumnNotFound string
  | ValueCount nat nat | TypeMismatch string column_type column_type | UnsupportedExpr expr | UnsupportedLiteral any_value
  | StarMixed | ExpectedColumn expr | WhereRequired | WhereNotPrimaryKey | InternalPrimaryKey

section \<open>Analysis\<close>

definition findColumn :: "table_def \<Rightarrow> string \<Rightarrow> column_def option" where
  "findColumn table name = List.find (\<lambda>col. cdName col = name) (tdColumns table)"

definition checkTypeCompat :: "column_type \<Rightarrow> column_type \<Rightarrow> string \<Rightarrow> analyze_error option" where
  "checkTypeCompat actual expected colName = (if actual = expected then None else Some (TypeMismatch colName expected actual))"

fun resolveLiteral :: "any_value \<Rightarrow> analyze_error + typed_expr" where
  "resolveLiteral (AnyInt n) = Inr \<lparr>teExpr = Literal (AnyInt n), teCType = TypeInt\<rparr>"
| "resolveLiteral (AnyString s) = Inr \<lparr>teExpr = Literal (AnyString s), teCType = TypeText\<rparr>"
| "resolveLiteral (AnyBool b) = Inr \<lparr>teExpr = Literal (AnyBool b), teCType = TypeBool\<rparr>"
| "resolveLiteral AnyNil = Inr \<lparr>teExpr = Literal AnyNil, teCType = TypeInt\<rparr>"
| "resolveLiteral v = Inl (UnsupportedLiteral v)"

fun resolveExpr :: "expr \<Rightarrow> table_def \<Rightarrow> analyze_error + typed_expr" where
  "resolveExpr (Literal v) table = resolveLiteral v"
| "resolveExpr (ColumnRef name) table = (case findColumn table name of
      None \<Rightarrow> Inl (ColumnNotFound name)
    | Some col \<Rightarrow> Inr \<lparr>teExpr = ColumnRef name, teCType = cdType col\<rparr>)"
| "resolveExpr e table = Inl (UnsupportedExpr e)"

definition resolveColumnExpr :: "expr \<Rightarrow> table_def \<Rightarrow> analyze_error + column_def" where
  "resolveColumnExpr e table = (case e of
      ColumnRef name \<Rightarrow> (case findColumn table name of None \<Rightarrow> Inl (ColumnNotFound name) | Some col \<Rightarrow> Inr col)
    | _ \<Rightarrow> Inl (ExpectedColumn e))"

definition resolveWhere :: "expr \<Rightarrow> table_def \<Rightarrow> analyze_error + resolved_where" where
  "resolveWhere e table = (case e of
      BinaryExpr (ColumnRef name) op right \<Rightarrow>
        if name \<noteq> tdPrimaryKey table then Inl WhereNotPrimaryKey
        else if op \<noteq> ''='' then Inl WhereNotPrimaryKey
        else (case findColumn table (tdPrimaryKey table) of
                None \<Rightarrow> Inl InternalPrimaryKey
              | Some pkCol \<Rightarrow> err_bind (resolveExpr right table) (\<lambda>tv.
                  case checkTypeCompat (teCType tv) (cdType pkCol) (cdName pkCol) of
                    Some err \<Rightarrow> Inl err
                  | None \<Rightarrow> Inr \<lparr>rwPKColumn = pkCol, rwOp = op, rwValue = tv\<rparr>))
    | _ \<Rightarrow> Inl WhereNotPrimaryKey)"

fun duplicate_column :: "string list \<Rightarrow> column_def list \<Rightarrow> string option" where
  "duplicate_column seen [] = None"
| "duplicate_column seen (col # cols) = (if cdName col \<in> set seen then Some (cdName col) else duplicate_column (cdName col # seen) cols)"

definition analyzeCreateTable :: "string \<Rightarrow> column_def list \<Rightarrow> analyze_error + resolved_statement" where
  "analyzeCreateTable name cols = (case duplicate_column [] cols of
      Some c \<Rightarrow> Inl (DuplicateColumn c)
    | None \<Rightarrow>
        let pks = filter cdPrimaryKey cols; pkName = (if pks = [] then [] else cdName (last pks)) in
        if length pks = 0 then Inl NoPrimaryKey
        else if 1 < length pks then Inl MultiplePrimaryKeys
        else Inr (ResolvedCreateTable (CreateTableStmt name cols)
                   \<lparr>tdName = name, tdColumns = cols, tdPrimaryKey = pkName, tdShardID = []\<rparr>))"

fun find_columns :: "table_def \<Rightarrow> string list \<Rightarrow> analyze_error + column_def list" where
  "find_columns table [] = Inr []"
| "find_columns table (name # names) = (case findColumn table name of
      None \<Rightarrow> Inl (ColumnNotFound name)
    | Some col \<Rightarrow> err_bind (find_columns table names) (\<lambda>cols. Inr (col # cols)))"

fun type_values :: "table_def \<Rightarrow> (expr \<times> column_def) list \<Rightarrow> analyze_error + typed_expr list" where
  "type_values table [] = Inr []"
| "type_values table ((val, col) # rest) = err_bind (resolveExpr val table) (\<lambda>tv.
     case checkTypeCompat (teCType tv) (cdType col) (cdName col) of
       Some err \<Rightarrow> Inl err
     | None \<Rightarrow> err_bind (type_values table rest) (\<lambda>tvs. Inr (tv # tvs)))"

definition analyzeInsert :: "string \<Rightarrow> string list \<Rightarrow> expr list \<Rightarrow> catalog \<Rightarrow> analyze_error + resolved_statement" where
  "analyzeInsert name columns vals cat = (case GetTable name cat of
      Inl e \<Rightarrow> Inl (CatalogErr e)
    | Inr table \<Rightarrow>
        err_bind (if columns = [] then Inr (tdColumns table) else find_columns table columns) (\<lambda>cols.
        if length vals \<noteq> length cols then Inl (ValueCount (length vals) (length cols))
        else err_bind (type_values table (zip vals cols)) (\<lambda>typedVals. Inr (ResolvedInsert table cols typedVals))))"

fun select_columns :: "table_def \<Rightarrow> expr list \<Rightarrow> analyze_error + column_def list" where
  "select_columns table [] = Inr []"
| "select_columns table (e # es) = (if e = StarExpr then Inl StarMixed
     else err_bind (resolveColumnExpr e table) (\<lambda>col. err_bind (select_columns table es) (\<lambda>cols. Inr (col # cols))))"

definition resolve_select :: "table_def \<Rightarrow> expr list \<Rightarrow> analyze_error + column_def list option" where
  "resolve_select table columns = (case columns of
      [] \<Rightarrow> Inr None
    | [e] \<Rightarrow> if e = StarExpr then Inr None else err_bind (resolveColumnExpr e table) (\<lambda>col. Inr (Some [col]))
    | _ \<Rightarrow> err_bind (select_columns table columns) (\<lambda>cols. Inr (Some cols)))"

definition analyzeSelect :: "expr list \<Rightarrow> string \<Rightarrow> expr option \<Rightarrow> catalog \<Rightarrow> analyze_error + resolved_statement" where
  "analyzeSelect columns name where_opt cat = (case GetTable name cat of
      Inl e \<Rightarrow> Inl (CatalogErr e)
    | Inr table \<Rightarrow>
        err_bind (resolve_select table columns) (\<lambda>cols.
        (case where_opt of
           None \<Rightarrow> Inr (ResolvedSelect table cols None)
         | Some e \<Rightarrow> err_bind (resolveWhere e table) (\<lambda>w. Inr (ResolvedSelect table cols (Some w))))))"

fun resolve_assignments :: "table_def \<Rightarrow> assignment list \<Rightarrow> analyze_error + resolved_assignment list" where
  "resolve_assignments table [] = Inr []"
| "resolve_assignments table (a # rest) = (case findColumn table (asColumn a) of
      None \<Rightarrow> Inl (ColumnNotFound (asColumn a))
    | Some col \<Rightarrow> err_bind (resolveExpr (asValue a) table) (\<lambda>tv.
        case checkTypeCompat (teCType tv) (cdType col) (cdName col) of
          Some err \<Rightarrow> Inl err
        | None \<Rightarrow> err_bind (resolve_assignments table rest) (\<lambda>ras. Inr (\<lparr>raColumn = col, raValue = tv\<rparr> # ras))))"

definition analyzeUpdate :: "string \<Rightarrow> assignment list \<Rightarrow> expr option \<Rightarrow> catalog \<Rightarrow> analyze_error + resolved_statement" where
  "analyzeUpdate name assignments where_opt cat = (case GetTable name cat of
      Inl e \<Rightarrow> Inl (CatalogErr e)
    | Inr table \<Rightarrow>
        err_bind (resolve_assignments table assignments) (\<lambda>ras.
        (case where_opt of
           None \<Rightarrow> Inl WhereRequired
         | Some e \<Rightarrow> err_bind (resolveWhere e table) (\<lambda>w. Inr (ResolvedUpdate table ras (Some w))))))"

definition analyzeDelete :: "string \<Rightarrow> expr option \<Rightarrow> catalog \<Rightarrow> analyze_error + resolved_statement" where
  "analyzeDelete name where_opt cat = (case GetTable name cat of
      Inl e \<Rightarrow> Inl (CatalogErr e)
    | Inr table \<Rightarrow>
        (case where_opt of
           None \<Rightarrow> Inl WhereRequired
         | Some e \<Rightarrow> err_bind (resolveWhere e table) (\<lambda>w. Inr (ResolvedDelete table (Some w)))))"

fun Analyze :: "statement \<Rightarrow> catalog \<Rightarrow> analyze_error + resolved_statement" where
  "Analyze (CreateTableStmt name cols) cat = analyzeCreateTable name cols"
| "Analyze (InsertStmt name cols vals) cat = analyzeInsert name cols vals cat"
| "Analyze (SelectStmt cols name w) cat = analyzeSelect cols name w cat"
| "Analyze (UpdateStmt name asgs w) cat = analyzeUpdate name asgs w cat"
| "Analyze (DeleteStmt name w) cat = analyzeDelete name w cat"

section \<open>Plans\<close>

datatype physical_plan =
    PointGet string table_def "column_def list option"
  | PointPut string row table_def
  | PointDelete string table_def
  | PointUpdate string table_def "resolved_assignment list"
  | TableScan string table_def "column_def list option"
  | CreateTablePlan table_def
  | InsertPlan string row table_def

datatype plan_error = PkNotInInsert string | NotALiteral expr | NonLiteralValue string | PlanLiteral any_value | PlanWhere | PlanOp | PlanPanic

definition evalLiteralToString :: "typed_expr \<Rightarrow> plan_error + string" where
  "evalLiteralToString te = (case teExpr te of
      Literal v \<Rightarrow>
        (case v of
           AnyInt n \<Rightarrow> Inr (int_text n)
         | AnyString s \<Rightarrow> Inr s
         | AnyBool b \<Rightarrow> Inr (if b then ''true'' else ''false'')
         | AnyNil \<Rightarrow> Inr ''null''
         | _ \<Rightarrow> Inl (PlanLiteral v))
    | e \<Rightarrow> Inl (NotALiteral e))"

fun findPKValue :: "table_def \<Rightarrow> column_def list \<Rightarrow> typed_expr list \<Rightarrow> plan_error + typed_expr" where
  "findPKValue table [] vals = Inl (PkNotInInsert (tdPrimaryKey table))"
| "findPKValue table (col # cols) vals =
     (if cdName col = tdPrimaryKey table then (case vals of [] \<Rightarrow> Inl PlanPanic | v # _ \<Rightarrow> Inr v)
      else findPKValue table cols (tl vals))"

fun build_row :: "row \<Rightarrow> column_def list \<Rightarrow> typed_expr list \<Rightarrow> plan_error + row" where
  "build_row row [] vals = Inr row"
| "build_row row (col # cols) [] = Inl PlanPanic"
| "build_row row (col # cols) (v # vals) = (case teExpr v of
      Literal x \<Rightarrow> build_row (gm_put (cdName col) x row) cols vals
    | _ \<Rightarrow> Inl (NonLiteralValue (cdName col)))"

definition planInsert :: "table_def \<Rightarrow> column_def list \<Rightarrow> typed_expr list \<Rightarrow> plan_error + physical_plan" where
  "planInsert table cols vals = err_bind (findPKValue table cols vals) (\<lambda>pkValue.
     err_bind (evalLiteralToString pkValue) (\<lambda>pkStr.
     err_bind (build_row [] cols vals) (\<lambda>row. Inr (InsertPlan (RowKey (tdName table) pkStr) row table))))"

definition planSelect :: "table_def \<Rightarrow> column_def list option \<Rightarrow> resolved_where option \<Rightarrow> plan_error + physical_plan" where
  "planSelect table cols w =
     (let scan = Inr (TableScan (tdName table @ ''/'') table cols) in
      case w of
        None \<Rightarrow> scan
      | Some rw \<Rightarrow>
          if rwOp rw = ''='' then
            err_bind (evalLiteralToString (rwValue rw)) (\<lambda>pkStr. Inr (PointGet (RowKey (tdName table) pkStr) table cols))
          else scan)"

definition planUpdate :: "table_def \<Rightarrow> resolved_assignment list \<Rightarrow> resolved_where option \<Rightarrow> plan_error + physical_plan" where
  "planUpdate table asgs w = (case w of
      None \<Rightarrow> Inl PlanWhere
    | Some rw \<Rightarrow>
        if rwOp rw \<noteq> ''='' then Inl PlanOp
        else err_bind (evalLiteralToString (rwValue rw)) (\<lambda>pkStr. Inr (PointUpdate (RowKey (tdName table) pkStr) table asgs)))"

definition planDelete :: "table_def \<Rightarrow> resolved_where option \<Rightarrow> plan_error + physical_plan" where
  "planDelete table w = (case w of
      None \<Rightarrow> Inl PlanWhere
    | Some rw \<Rightarrow>
        if rwOp rw \<noteq> ''='' then Inl PlanOp
        else err_bind (evalLiteralToString (rwValue rw)) (\<lambda>pkStr. Inr (PointDelete (RowKey (tdName table) pkStr) table)))"

fun Plan :: "resolved_statement \<Rightarrow> plan_error + physical_plan" where
  "Plan (ResolvedCreateTable stmt def) = Inr (CreateTablePlan def)"
| "Plan (ResolvedInsert table cols vals) = planInsert table cols vals"
| "Plan (ResolvedSelect table cols w) = planSelect table cols w"
| "Plan (ResolvedUpdate table asgs w) = planUpdate table asgs w"
| "Plan (ResolvedDelete table w) = planDelete table w"

section \<open>What the analysis accepts\<close>

text \<open>
  The typing rules, stated on the syntax: \<open>expr_type\<close> is the type of an expression, \<open>column_type_of\<close> that of a column, and
  \<open>stmt_typed\<close> says when a statement is well typed against a catalog.
\<close>

fun literal_type :: "any_value \<Rightarrow> column_type option" where
  "literal_type (AnyInt n) = Some TypeInt"
| "literal_type (AnyString s) = Some TypeText"
| "literal_type (AnyBool b) = Some TypeBool"
| "literal_type AnyNil = Some TypeInt"
| "literal_type v = None"

definition column_type_of :: "table_def \<Rightarrow> string \<Rightarrow> column_type option" where
  "column_type_of table name = map_option cdType (findColumn table name)"

fun expr_type :: "table_def \<Rightarrow> expr \<Rightarrow> column_type option" where
  "expr_type table (Literal v) = literal_type v"
| "expr_type table (ColumnRef name) = column_type_of table name"
| "expr_type table e = None"

definition assignable :: "table_def \<Rightarrow> column_type option \<Rightarrow> expr \<Rightarrow> bool" where
  "assignable table ty e \<longleftrightarrow> ty \<noteq> None \<and> expr_type table e = ty"

fun where_typed :: "table_def \<Rightarrow> expr \<Rightarrow> bool" where
  "where_typed table (BinaryExpr (ColumnRef name) op e) \<longleftrightarrow>
     name = tdPrimaryKey table \<and> op = ''='' \<and> assignable table (column_type_of table name) e"
| "where_typed table e \<longleftrightarrow> False"

fun known_column :: "table_def \<Rightarrow> expr \<Rightarrow> bool" where
  "known_column table (ColumnRef name) \<longleftrightarrow> findColumn table name \<noteq> None"
| "known_column table e \<longleftrightarrow> False"

fun stmt_typed_in :: "table_def \<Rightarrow> statement \<Rightarrow> bool" where
  "stmt_typed_in table (CreateTableStmt name cols) \<longleftrightarrow> True"
| "stmt_typed_in table (InsertStmt name cols vals) \<longleftrightarrow>
     list_all2 (assignable table) (if cols = [] then map (Some \<circ> cdType) (tdColumns table) else map (column_type_of table) cols) vals"
| "stmt_typed_in table (SelectStmt cols name w) \<longleftrightarrow>
     (cols = [StarExpr] \<or> list_all (known_column table) cols) \<and> (case w of None \<Rightarrow> True | Some e \<Rightarrow> where_typed table e)"
| "stmt_typed_in table (UpdateStmt name asgs w) \<longleftrightarrow>
     list_all (\<lambda>a. assignable table (column_type_of table (asColumn a)) (asValue a)) asgs \<and> (case w of None \<Rightarrow> False | Some e \<Rightarrow> where_typed table e)"
| "stmt_typed_in table (DeleteStmt name w) \<longleftrightarrow> (case w of None \<Rightarrow> False | Some e \<Rightarrow> where_typed table e)"

fun stmt_table :: "statement \<Rightarrow> string" where
  "stmt_table (CreateTableStmt name cols) = name"
| "stmt_table (InsertStmt name cols vals) = name"
| "stmt_table (SelectStmt cols name w) = name"
| "stmt_table (UpdateStmt name asgs w) = name"
| "stmt_table (DeleteStmt name w) = name"

definition columns_ok :: "column_def list \<Rightarrow> bool" where
  "columns_ok cols \<longleftrightarrow> distinct (map cdName cols) \<and> length (filter cdPrimaryKey cols) = 1"

definition stmt_typed :: "catalog \<Rightarrow> statement \<Rightarrow> bool" where
  "stmt_typed cat stmt \<longleftrightarrow> (case stmt of
      CreateTableStmt name cols \<Rightarrow> columns_ok cols
    | _ \<Rightarrow> (case gm_get cat (stmt_table stmt) of None \<Rightarrow> False | Some table \<Rightarrow> stmt_typed_in table stmt))"

lemma resolveExpr_iff: "resolveExpr e table = Inr tv \<longleftrightarrow> (\<exists>ty. expr_type table e = Some ty \<and> tv = \<lparr>teExpr = e, teCType = ty\<rparr>)"
proof (cases e)
  case (Literal v)
  then show ?thesis by (cases v) auto
qed (auto simp: column_type_of_def split: option.splits)

lemma checkTypeCompat_iff [simp]: "checkTypeCompat a b c = None \<longleftrightarrow> a = b"
  by (simp add: checkTypeCompat_def)

lemma duplicate_column_iff: "duplicate_column seen cols = None \<longleftrightarrow> distinct (map cdName cols) \<and> set seen \<inter> cdName ` set cols = {}"
  by (induction cols arbitrary: seen) auto

lemma find_columns_iff: "find_columns table names = Inr cols \<longleftrightarrow> map (findColumn table) names = map Some cols"
  by (induction names arbitrary: cols) (auto simp: Cons_eq_map_conv err_bind_Inr split: option.splits)

lemma type_values_iff:
  "type_values table ps = Inr tvs \<longleftrightarrow> list_all (\<lambda>(e, col). expr_type table e = Some (cdType col)) ps \<and>
     tvs = map (\<lambda>(e, col). \<lparr>teExpr = e, teCType = cdType col\<rparr>) ps"
  by (induction ps arbitrary: tvs) (auto simp: err_bind_Inr resolveExpr_iff split: option.splits)

lemma resolveWhere_iff:
  "resolveWhere e table = Inr w \<longleftrightarrow> (\<exists>pk r. where_typed table e \<and> e = BinaryExpr (ColumnRef (tdPrimaryKey table)) ''='' r \<and>
     findColumn table (tdPrimaryKey table) = Some pk \<and> w = \<lparr>rwPKColumn = pk, rwOp = ''='', rwValue = \<lparr>teExpr = r, teCType = cdType pk\<rparr>\<rparr>)"
proof (cases "\<exists>name op r. e = BinaryExpr (ColumnRef name) op r")
  case True
  then show ?thesis
    by (auto simp: resolveWhere_def err_bind_Inr resolveExpr_iff assignable_def column_type_of_def split: option.splits if_splits)
next
  case False
  then show ?thesis by (auto simp: resolveWhere_def split: expr.splits)
qed

lemma resolveColumnExpr_iff: "resolveColumnExpr e table = Inr col \<longleftrightarrow> (\<exists>name. e = ColumnRef name \<and> findColumn table name = Some col)"
  by (auto simp: resolveColumnExpr_def split: expr.splits option.splits)

lemma known_column_iff: "known_column table e \<longleftrightarrow> (\<exists>col. resolveColumnExpr e table = Inr col)"
  by (cases e) (auto simp: resolveColumnExpr_iff)

lemma select_columns_iff:
  "select_columns table es = Inr cols \<longleftrightarrow> list_all2 (\<lambda>e col. resolveColumnExpr e table = Inr col) es cols"
  by (induction es arbitrary: cols) (auto simp: err_bind_Inr list_all2_Cons1 resolveColumnExpr_iff)

lemma resolve_assignments_iff:
  "resolve_assignments table asgs = Inr ras \<longleftrightarrow>
     list_all2 (\<lambda>a ra. findColumn table (asColumn a) = Some (raColumn ra) \<and> expr_type table (asValue a) = Some (cdType (raColumn ra)) \<and>
       raValue ra = \<lparr>teExpr = asValue a, teCType = cdType (raColumn ra)\<rparr>) asgs ras"
  by (induction asgs arbitrary: ras) (auto simp: err_bind_Inr list_all2_Cons1 resolveExpr_iff split: option.splits)

lemma list_all2_total: "(\<exists>ys. list_all2 P xs ys) \<longleftrightarrow> list_all (\<lambda>x. \<exists>y. P x y) xs"
  by (induction xs) (auto simp: list_all2_Cons1)

lemma where_resolves: "where_typed table e \<longleftrightarrow> (\<exists>w. resolveWhere e table = Inr w)"
proof (cases "\<exists>name op r. e = BinaryExpr (ColumnRef name) op r")
  case True
  then show ?thesis by (auto simp: resolveWhere_iff assignable_def column_type_of_def)
next
  case False
  then have "\<not> where_typed table e" by (cases "(table, e)" rule: where_typed.cases) auto
  then show ?thesis by (simp add: resolveWhere_iff)
qed

lemma select_resolves: "(\<exists>cols. resolve_select table es = Inr cols) \<longleftrightarrow> es = [StarExpr] \<or> list_all (known_column table) es"
proof -
  have "(\<exists>cols. select_columns table es = Inr cols) \<longleftrightarrow> list_all (known_column table) es"
    by (simp add: select_columns_iff list_all2_total flip: known_column_iff)
  then show ?thesis
    by (auto simp: resolve_select_def err_bind_Inr known_column_iff resolveColumnExpr_iff split: list.splits)
qed

lemma assignments_resolve:
  "(\<exists>ras. resolve_assignments table asgs = Inr ras) \<longleftrightarrow>
     list_all (\<lambda>a. assignable table (column_type_of table (asColumn a)) (asValue a)) asgs"
proof -
  have "(\<exists>ra::resolved_assignment. findColumn table (asColumn a) = Some (raColumn ra) \<and> expr_type table (asValue a) = Some (cdType (raColumn ra)) \<and>
       raValue ra = \<lparr>teExpr = asValue a, teCType = cdType (raColumn ra)\<rparr>) \<longleftrightarrow>
     assignable table (column_type_of table (asColumn a)) (asValue a)" (is "?L \<longleftrightarrow> ?R") for a :: assignment
  proof
    assume ?R
    then obtain col where "findColumn table (asColumn a) = Some col" "expr_type table (asValue a) = Some (cdType col)"
      by (auto simp: assignable_def column_type_of_def)
    then show ?L by (intro exI [of _ "\<lparr>raColumn = col, raValue = \<lparr>teExpr = asValue a, teCType = cdType col\<rparr>\<rparr>"]) simp
  qed (auto simp: assignable_def column_type_of_def)
  then show ?thesis by (simp add: resolve_assignments_iff list_all2_total)
qed

lemma insert_resolves:
  "(\<exists>tvs. length vals = length cols \<and> type_values table (zip vals cols) = Inr tvs) \<longleftrightarrow>
     list_all2 (assignable table) (map (Some \<circ> cdType) cols) vals"
  by (auto simp: type_values_iff list_all2_conv_all_nth list_all_length assignable_def)

lemma insert_columns_resolve:
  "(\<exists>cs. find_columns table cols = Inr cs \<and> list_all2 (assignable table) (map (Some \<circ> cdType) cs) vals) \<longleftrightarrow>
     list_all2 (assignable table) (map (column_type_of table) cols) vals" (is "?L \<longleftrightarrow> ?R")
proof
  assume ?L
  then obtain cs where "map (findColumn table) cols = map Some cs" and v: "list_all2 (assignable table) (map (Some \<circ> cdType) cs) vals"
    by (auto simp: find_columns_iff)
  then have "map (map_option cdType) (map (findColumn table) cols) = map (map_option cdType) (map Some cs)" by simp
  then have "map (column_type_of table) cols = map (Some \<circ> cdType) cs" by (simp add: column_type_of_def [abs_def] comp_def)
  then show ?R using v by simp
next
  assume r: ?R
  then have k: "list_all (\<lambda>c. findColumn table c \<noteq> None) cols"
    by (auto simp: list_all2_conv_all_nth list_all_length assignable_def column_type_of_def)
  from k have e: "map (findColumn table) cols = map Some (map (the \<circ> findColumn table) cols)" by (auto simp: list_all_iff)
  have "map (Some \<circ> cdType) (map (the \<circ> findColumn table) cols) = map (column_type_of table) cols"
    using k by (auto simp: column_type_of_def list_all_iff)
  then show ?L using r e by (intro exI [of _ "map (the \<circ> findColumn table) cols"]) (simp only: find_columns_iff simp_thms)
qed

lemma create_accepts: "(\<exists>rs. analyzeCreateTable name cols = Inr rs) \<longleftrightarrow> columns_ok cols"
proof (cases "duplicate_column [] cols")
  case None
  then have "distinct (map cdName cols)" by (simp add: duplicate_column_iff)
  then show ?thesis using None by (simp add: analyzeCreateTable_def columns_ok_def Let_def le_Suc_eq) (auto simp: le_Suc_eq not_less)
next
  case (Some c)
  then have "\<not> distinct (map cdName cols)" using duplicate_column_iff [of "[]" cols] by auto
  then show ?thesis using Some by (simp add: analyzeCreateTable_def columns_ok_def)
qed

lemma insert_accepts:
  assumes "gm_get cat name = Some table"
  shows "(\<exists>rs. analyzeInsert name cols vals cat = Inr rs) \<longleftrightarrow> stmt_typed_in table (InsertStmt name cols vals)"
proof (cases "cols = []")
  case True
  then show ?thesis using assms insert_resolves [of vals "tdColumns table" table]
    by (auto simp: analyzeInsert_def GetTable_def err_bind_Inr)
next
  case False
  have "(\<exists>rs. analyzeInsert name cols vals cat = Inr rs) \<longleftrightarrow>
      (\<exists>cs. find_columns table cols = Inr cs \<and> (\<exists>tvs. length vals = length cs \<and> type_values table (zip vals cs) = Inr tvs))"
    using assms False by (auto simp: analyzeInsert_def GetTable_def err_bind_Inr)
  also have "\<dots> \<longleftrightarrow> list_all2 (assignable table) (map (column_type_of table) cols) vals"
    by (simp only: insert_resolves insert_columns_resolve)
  finally show ?thesis using False by simp
qed

lemma Analyze_iff: "(\<exists>rs. Analyze stmt cat = Inr rs) \<longleftrightarrow> stmt_typed cat stmt"
proof (cases stmt)
  case (InsertStmt name cols vals)
  then show ?thesis by (cases "gm_get cat name") (simp_all add: stmt_typed_def insert_accepts, simp add: analyzeInsert_def GetTable_def)
next
  case (SelectStmt cols name w)
  then show ?thesis
    by (auto simp: analyzeSelect_def stmt_typed_def GetTable_def err_bind_Inr simp flip: select_resolves split: option.splits) (auto simp: where_resolves)
next
  case (UpdateStmt name asgs w)
  then show ?thesis
    by (auto simp: analyzeUpdate_def stmt_typed_def GetTable_def err_bind_Inr where_resolves simp flip: assignments_resolve split: option.splits)
next
  case (DeleteStmt name w)
  then show ?thesis by (auto simp: analyzeDelete_def stmt_typed_def GetTable_def err_bind_Inr where_resolves split: option.splits)
qed (simp add: stmt_typed_def create_accepts)


text \<open>
  A NULL literal is accepted for a column exactly when the column has type INT: for TEXT and BOOL columns the
  analysis reports a type mismatch, although the comments of \<^verbatim>\<open>resolveLiteral\<close> and \<^verbatim>\<open>checkTypeCompat\<close> promise that NULL is compatible
  with any type.
\<close>

theorem null_only_for_int:
  assumes "gm_get cat t = Some table" and "findColumn table c = Some col"
  shows "Analyze (InsertStmt t [c] [Literal AnyNil]) cat =
    (if cdType col = TypeInt then Inr (ResolvedInsert table [col] [\<lparr>teExpr = Literal AnyNil, teCType = TypeInt\<rparr>])
     else Inl (TypeMismatch (cdName col) (cdType col) TypeInt))"
  using assms by (auto simp: analyzeInsert_def GetTable_def checkTypeCompat_def)

definition demo_table :: table_def where
  "demo_table = \<lparr>tdName = ''t'', tdColumns = [\<lparr>cdName = ''id'', cdType = TypeInt, cdPrimaryKey = True, cdNotNull = False\<rparr>,
     \<lparr>cdName = ''name'', cdType = TypeText, cdPrimaryKey = False, cdNotNull = False\<rparr>], tdPrimaryKey = ''id'', tdShardID = []\<rparr>"

theorem null_only_for_int_witness:
  "Analyze (InsertStmt ''t'' [''name''] [Literal AnyNil]) [(''t'', demo_table)] = Inl (TypeMismatch ''name'' TypeText TypeInt)"
  using null_only_for_int [of "[(''t'', demo_table)]" "''t''" demo_table "''name''" "tdColumns demo_table ! 1"]
  by (simp add: findColumn_def demo_table_def)

end
