(* ===== verification/SqlExecutor.thy ===== *)
theory SqlExecutor
  imports SqlAnalyzer Storage
begin

text \<open>
  The executor: \<^verbatim>\<open>internal/sql/executor.go\<close>.  The store behind it is the Go interface \<^verbatim>\<open>KV\<close>, a record of operations on a state
  of any type.  What the executor relies on are the laws of the locale \<open>kv_store\<close>; the in-memory store of \<^verbatim>\<open>internal/storage\<close>
  satisfies them, with the prefix scan taken from its snapshot.  \<open>run_stmt\<close> composes analysis, planning and execution.

  \<open>Execute_refines\<close>: on a store that holds rows, statements act as operations on tables, maps from primary keys to rows.
\<close>

datatype kv_error = ErrNotFound | KvFailed string

record 's kv_ops =
  kvGet :: "string \<Rightarrow> 's \<Rightarrow> kv_error + string"
  kvPut :: "string \<Rightarrow> string \<Rightarrow> 's \<Rightarrow> 's \<times> kv_error option"
  kvDelete :: "string \<Rightarrow> 's \<Rightarrow> 's \<times> kv_error option"
  kvScan :: "string \<Rightarrow> 's \<Rightarrow> kv_error + (string \<times> string) list"

record result_set =
  rsColumns :: "string list"
  rsRows :: "row list"
  rsRowsAffected :: int

definition empty_result :: result_set where
  "empty_result = \<lparr>rsColumns = [], rsRows = [], rsRowsAffected = 0\<rparr>"

datatype exec_error = ExecCatalog catalog_error | ExecKV kv_error | ExecDecode row_error | ExecNonLiteral string | UnknownPlan | NilMapPanic

section \<open>Projection\<close>

definition resolveColumns :: "table_def \<Rightarrow> column_def list option \<Rightarrow> column_def list" where
  "resolveColumns table cols = (case cols of None \<Rightarrow> tdColumns table | Some cs \<Rightarrow> cs)"

definition columnNamesFromDefs :: "column_def list \<Rightarrow> string list" where
  "columnNamesFromDefs cols = map cdName cols"

definition columnNames :: "table_def \<Rightarrow> column_def list option \<Rightarrow> string list" where
  "columnNames table cols = columnNamesFromDefs (resolveColumns table cols)"

text \<open>An index expression on a row: a missing column, or any column of the nil map, reads as nil.\<close>

definition row_get :: "row option \<Rightarrow> string \<Rightarrow> any_value" where
  "row_get row name = (case row of None \<Rightarrow> AnyNil | Some r \<Rightarrow> (case gm_get r name of None \<Rightarrow> AnyNil | Some v \<Rightarrow> v))"

definition projectRow :: "row option \<Rightarrow> column_def list \<Rightarrow> row" where
  "projectRow row cols = fold (\<lambda>col m. gm_put (cdName col) (row_get row (cdName col)) m) cols []"

section \<open>Execution\<close>

definition executeCreateTable :: "table_def \<Rightarrow> catalog \<Rightarrow> catalog \<times> (exec_error + result_set)" where
  "executeCreateTable def cat = (case CreateTable def cat of
      (cat', Some e) \<Rightarrow> (cat', Inl (ExecCatalog e))
    | (cat', None) \<Rightarrow> (cat', Inr empty_result))"

definition executeInsert :: "'s kv_ops \<Rightarrow> string \<Rightarrow> row \<Rightarrow> 's \<Rightarrow> 's \<times> (exec_error + result_set)" where
  "executeInsert kv key row s = (case kvPut kv key (EncodeRow row) s of
      (s', Some e) \<Rightarrow> (s', Inl (ExecKV e))
    | (s', None) \<Rightarrow> (s', Inr (empty_result\<lparr>rsRowsAffected := 1\<rparr>)))"

definition executePointGet :: "'s kv_ops \<Rightarrow> string \<Rightarrow> table_def \<Rightarrow> column_def list option \<Rightarrow> 's \<Rightarrow> exec_error + result_set" where
  "executePointGet kv key table columns s = (case kvGet kv key s of
      Inl ErrNotFound \<Rightarrow> Inr (empty_result\<lparr>rsColumns := columnNames table columns\<rparr>)
    | Inl e \<Rightarrow> Inl (ExecKV e)
    | Inr val \<Rightarrow>
        (case DecodeRow val of
           Inl e \<Rightarrow> Inl (ExecDecode e)
         | Inr row \<Rightarrow>
             let cols = resolveColumns table columns
             in Inr (empty_result\<lparr>rsColumns := columnNamesFromDefs cols, rsRows := [projectRow row cols]\<rparr>)))"

fun scan_rows :: "column_def list \<Rightarrow> (string \<times> string) list \<Rightarrow> exec_error + row list" where
  "scan_rows cols [] = Inr []"
| "scan_rows cols ((k, v) # es) = (case DecodeRow v of
      Inl e \<Rightarrow> Inl (ExecDecode e)
    | Inr row \<Rightarrow> err_bind (scan_rows cols es) (\<lambda>rows. Inr (projectRow row cols # rows)))"

definition executeTableScan :: "'s kv_ops \<Rightarrow> string \<Rightarrow> table_def \<Rightarrow> column_def list option \<Rightarrow> 's \<Rightarrow> exec_error + result_set" where
  "executeTableScan kv pre table columns s = (case kvScan kv pre s of
      Inl e \<Rightarrow> Inl (ExecKV e)
    | Inr entries \<Rightarrow>
        let cols = resolveColumns table columns
        in err_bind (scan_rows cols entries) (\<lambda>rows. Inr (empty_result\<lparr>rsColumns := columnNamesFromDefs cols, rsRows := rows\<rparr>)))"

fun apply_assignments :: "resolved_assignment list \<Rightarrow> row option \<Rightarrow> exec_error + row option" where
  "apply_assignments [] row = Inr row"
| "apply_assignments (a # asgs) row = (case teExpr (raValue a) of
      Literal v \<Rightarrow>
        (case row of
           None \<Rightarrow> Inl NilMapPanic
         | Some r \<Rightarrow> apply_assignments asgs (Some (gm_put (cdName (raColumn a)) v r)))
    | _ \<Rightarrow> Inl (ExecNonLiteral (cdName (raColumn a))))"

definition executePointUpdate :: "'s kv_ops \<Rightarrow> string \<Rightarrow> resolved_assignment list \<Rightarrow> 's \<Rightarrow> 's \<times> (exec_error + result_set)" where
  "executePointUpdate kv key asgs s = (case kvGet kv key s of
      Inl ErrNotFound \<Rightarrow> (s, Inr empty_result)
    | Inl e \<Rightarrow> (s, Inl (ExecKV e))
    | Inr val \<Rightarrow>
        (case DecodeRow val of
           Inl e \<Rightarrow> (s, Inl (ExecDecode e))
         | Inr row \<Rightarrow>
             (case apply_assignments asgs row of
                Inl e \<Rightarrow> (s, Inl e)
              | Inr row' \<Rightarrow>
                  (case kvPut kv key (case row' of None \<Rightarrow> ''null'' | Some r \<Rightarrow> EncodeRow r) s of
                     (s', Some e) \<Rightarrow> (s', Inl (ExecKV e))
                   | (s', None) \<Rightarrow> (s', Inr (empty_result\<lparr>rsRowsAffected := 1\<rparr>))))))"

definition executePointDelete :: "'s kv_ops \<Rightarrow> string \<Rightarrow> 's \<Rightarrow> 's \<times> (exec_error + result_set)" where
  "executePointDelete kv key s = (case kvDelete kv key s of
      (s', Some e) \<Rightarrow> (s', Inl (ExecKV e))
    | (s', None) \<Rightarrow> (s', Inr (empty_result\<lparr>rsRowsAffected := 1\<rparr>)))"

fun Execute :: "'s kv_ops \<Rightarrow> physical_plan \<Rightarrow> catalog \<times> 's \<Rightarrow> (catalog \<times> 's) \<times> (exec_error + result_set)" where
  "Execute kv (CreateTablePlan def) (cat, s) = (case executeCreateTable def cat of (cat', r) \<Rightarrow> ((cat', s), r))"
| "Execute kv (InsertPlan key row table) (cat, s) = (case executeInsert kv key row s of (s', r) \<Rightarrow> ((cat, s'), r))"
| "Execute kv (PointGet key table cols) (cat, s) = ((cat, s), executePointGet kv key table cols s)"
| "Execute kv (TableScan pre table cols) (cat, s) = ((cat, s), executeTableScan kv pre table cols s)"
| "Execute kv (PointUpdate key table asgs) (cat, s) = (case executePointUpdate kv key asgs s of (s', r) \<Rightarrow> ((cat, s'), r))"
| "Execute kv (PointDelete key table) (cat, s) = (case executePointDelete kv key s of (s', r) \<Rightarrow> ((cat, s'), r))"
| "Execute kv (PointPut key row table) (cat, s) = ((cat, s), Inl UnknownPlan)"

section \<open>A statement from analysis to execution\<close>

datatype sql_error = SqlAnalyze analyze_error | SqlPlan plan_error | SqlExec exec_error

definition run_stmt :: "'s kv_ops \<Rightarrow> statement \<Rightarrow> catalog \<times> 's \<Rightarrow> (catalog \<times> 's) \<times> (sql_error + result_set)" where
  "run_stmt kv stmt st = (case Analyze stmt (fst st) of
      Inl e \<Rightarrow> (st, Inl (SqlAnalyze e))
    | Inr rs \<Rightarrow>
        (case Plan rs of
           Inl e \<Rightarrow> (st, Inl (SqlPlan e))
         | Inr plan \<Rightarrow> (case Execute kv plan st of (st', r) \<Rightarrow> (st', map_sum SqlExec id r))))"

fun run_script :: "'s kv_ops \<Rightarrow> string list \<Rightarrow> catalog \<times> 's \<Rightarrow> catalog \<times> 's" where
  "run_script kv [] st = st"
| "run_script kv (sql # sqls) st = run_script kv sqls (case Parse sql of Inl e \<Rightarrow> st | Inr stmt \<Rightarrow> fst (run_stmt kv stmt st))"

section \<open>Tables\<close>

text \<open>
  What the store holds as a database: \<open>table_rows\<close> reads it as a map from a table name and the text of a primary key to a row.
  \<open>db_ok\<close> says that the catalog is well formed and every row belongs to a table and fits its columns.
\<close>

type_synonym database = "string \<times> string \<Rightarrow> (string \<Rightarrow> any_value option) option"

definition table_rows :: "(string \<Rightarrow> string option) \<Rightarrow> database" where
  "table_rows m = (\<lambda>(t, p). if CHR ''/'' \<in> set t then None
     else (case m (RowKey t p) of
             None \<Rightarrow> None
           | Some v \<Rightarrow> (case DecodeRow v of Inr (Some r) \<Rightarrow> Some (gm_get r) | _ \<Rightarrow> None)))"

fun value_typed :: "column_type \<Rightarrow> any_value \<Rightarrow> bool" where
  "value_typed TypeInt (AnyInt n) \<longleftrightarrow> True"
| "value_typed TypeInt (AnyFloat t) \<longleftrightarrow> True"
| "value_typed TypeInt AnyNil \<longleftrightarrow> True"
| "value_typed TypeText (AnyString s) \<longleftrightarrow> True"
| "value_typed TypeBool (AnyBool b) \<longleftrightarrow> True"
| "value_typed ty v \<longleftrightarrow> False"

definition row_typed :: "table_def \<Rightarrow> row \<Rightarrow> bool" where
  "row_typed table r \<longleftrightarrow> list_all (\<lambda>(k, v). case column_type_of table k of None \<Rightarrow> False | Some ty \<Rightarrow> value_typed ty v) r"

definition table_ok :: "string \<Rightarrow> table_def \<Rightarrow> bool" where
  "table_ok name table \<longleftrightarrow> tdName table = name \<and> ident_ok name \<and> list_all column_wf (tdColumns table) \<and>
     distinct (map cdName (tdColumns table)) \<and> map cdName (filter cdPrimaryKey (tdColumns table)) = [tdPrimaryKey table]"

definition db_ok :: "catalog \<Rightarrow> (string \<Rightarrow> string option) \<Rightarrow> bool" where
  "db_ok cat m \<longleftrightarrow> (\<forall>t table. gm_get cat t = Some table \<longrightarrow> table_ok t table) \<and>
     (\<forall>t p v. CHR ''/'' \<notin> set t \<and> m (RowKey t p) = Some v \<longrightarrow>
        (\<exists>table r. gm_get cat t = Some table \<and> v = EncodeRow r \<and> row_ok r \<and> row_typed table r))"

text \<open>A statement with exact literals, and what it does to the tables.\<close>

fun lit_of :: "expr \<Rightarrow> any_value" where
  "lit_of (Literal v) = v"
| "lit_of e = AnyNil"

fun is_lit :: "expr \<Rightarrow> bool" where
  "is_lit (Literal v) \<longleftrightarrow> True"
| "is_lit e \<longleftrightarrow> False"

fun exact_stmt :: "statement \<Rightarrow> bool" where
  "exact_stmt (InsertStmt t cols vals) \<longleftrightarrow> list_all (exact \<circ> lit_of) vals"
| "exact_stmt (UpdateStmt t asgs w) \<longleftrightarrow> list_all (exact \<circ> lit_of \<circ> asValue) asgs"
| "exact_stmt stmt \<longleftrightarrow> True"

fun pk_text :: "any_value \<Rightarrow> string" where
  "pk_text (AnyInt n) = int_text n"
| "pk_text (AnyString s) = s"
| "pk_text (AnyBool b) = (if b then ''true'' else ''false'')"
| "pk_text v = ''null''"

fun where_key :: "expr option \<Rightarrow> string" where
  "where_key (Some (BinaryExpr l op e)) = pk_text (lit_of e)"
| "where_key w = []"

definition exact_sql :: "string \<Rightarrow> bool" where
  "exact_sql sql \<longleftrightarrow> (case Parse sql of Inl e \<Rightarrow> True | Inr stmt \<Rightarrow> exact_stmt stmt)"

definition insert_names :: "table_def \<Rightarrow> string list \<Rightarrow> string list" where
  "insert_names table cols = (if cols = [] then map cdName (tdColumns table) else cols)"

definition insert_key :: "table_def \<Rightarrow> string list \<Rightarrow> expr list \<Rightarrow> string" where
  "insert_key table cols vals = (case map_of (zip (insert_names table cols) vals) (tdPrimaryKey table) of None \<Rightarrow> [] | Some e \<Rightarrow> pk_text (lit_of e))"

definition insert_row :: "table_def \<Rightarrow> string list \<Rightarrow> expr list \<Rightarrow> string \<Rightarrow> any_value option" where
  "insert_row table cols vals = map_of (rev (zip (insert_names table cols) (map (stored \<circ> lit_of) vals)))"

fun spec_in :: "table_def \<Rightarrow> statement \<Rightarrow> database \<Rightarrow> database" where
  "spec_in table (InsertStmt t cols vals) db = db((t, insert_key table cols vals) \<mapsto> insert_row table cols vals)"
| "spec_in table (UpdateStmt t asgs w) db = (case db (t, where_key w) of
      None \<Rightarrow> db
    | Some r \<Rightarrow> db((t, where_key w) \<mapsto> r ++ map_of (rev (map (\<lambda>a. (asColumn a, stored (lit_of (asValue a)))) asgs))))"
| "spec_in table (DeleteStmt t w) db = db((t, where_key w) := None)"
| "spec_in table stmt db = db"

definition spec_stmt :: "catalog \<Rightarrow> statement \<Rightarrow> database \<Rightarrow> database" where
  "spec_stmt cat stmt db = (case gm_get cat (stmt_table stmt) of None \<Rightarrow> db | Some table \<Rightarrow> spec_in table stmt db)"

text \<open>What a SELECT shows of a row: the named columns, NULL for one that the row does not have.\<close>

fun ref_name :: "expr \<Rightarrow> string" where
  "ref_name (ColumnRef n) = n"
| "ref_name e = []"

definition selected :: "table_def \<Rightarrow> expr list \<Rightarrow> string list" where
  "selected table es = (if es = [] \<or> es = [StarExpr] then map cdName (tdColumns table) else map ref_name es)"

definition project :: "string list \<Rightarrow> (string \<Rightarrow> any_value option) \<Rightarrow> row" where
  "project names f = gm_into [] (map (\<lambda>n. (n, case f n of None \<Rightarrow> AnyNil | Some v \<Rightarrow> v)) names)"

section \<open>Rows and keys of plans\<close>

lemma findColumn_name: "findColumn table n = Some col \<Longrightarrow> cdName col = n \<and> col \<in> set (tdColumns table)"
  by (auto simp: findColumn_def find_Some_iff)

lemma map_of_gm_into: "map_of (gm_into d xs) = map_of d ++ map_of (rev xs)"
  by (induction xs arbitrary: d) (auto simp: gm_into_def map_of_gm_put map_add_def fun_eq_iff split: option.splits)

lemma evalLiteralToString_iff:
  "evalLiteralToString te = Inr k \<Longrightarrow> is_lit (teExpr te) \<and> k = pk_text (lit_of (teExpr te))"
  by (auto simp: evalLiteralToString_def split: expr.splits any_value.splits)

lemma build_row_result:
  "build_row row cols tvs = Inr row' \<Longrightarrow> length cols = length tvs \<Longrightarrow>
     list_all (is_lit \<circ> teExpr) tvs \<and>
     row' = gm_into row (zip (map cdName cols) (map (lit_of \<circ> teExpr) tvs))"
  by (induction row cols tvs rule: build_row.induct) (auto simp: gm_into_def split: expr.splits)

lemma findPKValue_result:
  "findPKValue table cols tvs = Inr tv \<Longrightarrow> length cols = length tvs \<Longrightarrow> map_of (zip (map cdName cols) tvs) (tdPrimaryKey table) = Some tv"
  by (induction table cols tvs rule: findPKValue.induct) (auto simp: Suc_length_conv split: list.splits if_splits)

lemma list_all_gm_put: "list_all P m \<Longrightarrow> P (k, v) \<Longrightarrow> list_all P (gm_put k v m)"
  by (induction m) auto

lemma list_all_gm_into: "list_all P m \<Longrightarrow> list_all P xs \<Longrightarrow> list_all P (gm_into m xs)"
  by (induction xs arbitrary: m) (auto simp: gm_into_def list_all_gm_put)

definition fits :: "table_def \<Rightarrow> string \<times> any_value \<Rightarrow> bool" where
  "fits table = (\<lambda>(k, v). utf8_valid k \<and> exact v \<and> (case column_type_of table k of None \<Rightarrow> False | Some ty \<Rightarrow> value_typed ty v))"

lemma row_fits: "row_ok r \<and> row_typed table r \<longleftrightarrow> gm_wf r \<and> list_all (fits table) r"
  by (auto simp: row_ok_def row_typed_def fits_def list_all_iff)

lemma literal_typed: "literal_type v = Some ty \<Longrightarrow> value_typed ty v"
  by (cases v) auto

lemma stored_typed: "value_typed ty v \<Longrightarrow> value_typed ty (stored v)"
  by (cases v; cases ty) auto

lemma stored_fits: "fits table (k, v) \<Longrightarrow> fits table (k, stored v)"
  by (auto simp: fits_def exact_stored stored_typed split: option.splits)

lemma ident_utf8: "ident_ok n \<Longrightarrow> utf8_valid n"
proof (rule utf8_valid_ascii)
  assume "ident_ok n"
  then have "list_all isLetterOrDigit n" by (simp add: ident_ok_def word_ok_def)
  moreover have "(of_char c :: nat) < 0x80" if "isLetterOrDigit c" for c
    using that by (auto simp: isLetterOrDigit_def isLetter_def isDigit_def)
  ultimately show "list_all (\<lambda>c. (of_char c :: nat) < 0x80) n" by (simp add: list_all_iff)
qed

lemma table_columns:
  assumes "table_ok t table" "col \<in> set (tdColumns table)"
  shows "utf8_valid (cdName col) \<and> column_type_of table (cdName col) = Some (cdType col)"
proof -
  have d: "distinct (map cdName (tdColumns table))" and "column_wf col" using assms by (auto simp: table_ok_def list_all_iff)
  obtain c where c: "findColumn table (cdName col) = Some c" using assms(2)
    by (cases "findColumn table (cdName col)") (auto simp: findColumn_def find_None_iff)
  then have "c = col" using findColumn_name [OF c] d assms(2) by (auto simp: distinct_map inj_on_def)
  then show ?thesis using c \<open>column_wf col\<close> by (simp add: column_type_of_def column_wf_def ident_utf8)
qed

lemma literal_fits:
  assumes "table_ok t table" "col \<in> set (tdColumns table)" "expr_type table e = Some (cdType col)" "is_lit e" "exact (lit_of e)"
  shows "fits table (cdName col, lit_of e)"
  using table_columns [OF assms(1,2)] assms(3-5) by (cases e) (auto simp: fits_def literal_typed)

lemma insert_analyzed:
  assumes "analyzeInsert t cols vals cat = Inr rs" "gm_get cat t = Some table"
  obtains cs where "rs = ResolvedInsert table cs (map (\<lambda>(e, col). \<lparr>teExpr = e, teCType = cdType col\<rparr>) (zip vals cs))"
    "length vals = length cs" "set cs \<subseteq> set (tdColumns table)" "map cdName cs = insert_names table cols"
    "list_all (\<lambda>(e, col). expr_type table e = Some (cdType col)) (zip vals cs)"
proof -
  obtain cs tvs where cs: "(if cols = [] then Inr (tdColumns table) else find_columns table cols) = Inr cs" "length vals = length cs"
      "type_values table (zip vals cs) = Inr tvs" "rs = ResolvedInsert table cs tvs"
    using assms by (auto simp: analyzeInsert_def GetTable_def err_bind_Inr split: if_splits)
  have "set cs \<subseteq> set (tdColumns table) \<and> map cdName cs = insert_names table cols"
  proof (cases "cols = []")
    case False
    then have "map (findColumn table) cols = map Some cs" using cs(1) by (simp add: find_columns_iff)
    then have "list_all2 (\<lambda>n col. findColumn table n = Some col) cols cs" by (simp add: list_all2_conv_all_nth list_eq_iff_nth_eq)
    then have "list_all2 (\<lambda>n col. cdName col = n \<and> col \<in> set (tdColumns table)) cols cs"
      by (rule list_all2_mono) (rule findColumn_name)
    then show ?thesis using False by (auto simp: insert_names_def list_all2_conv_all_nth in_set_conv_nth intro!: nth_equalityI)
  qed (use cs in \<open>simp add: insert_names_def\<close>)
  then show ?thesis using cs by (intro that [of cs]) (auto simp: type_values_iff)
qed

lemma map_of_zip_map: "map_of (zip ks (map f xs)) k = map_option f (map_of (zip ks xs) k)"
  by (induction ks xs rule: list_induct2') auto

lemma map_of_rev_zip_map: "map_of (rev (zip ks (map f xs))) = map_option f \<circ> map_of (rev (zip ks xs))"
proof -
  have "rev (zip ks (map f xs)) = map (\<lambda>(k, v). (k, f v)) (rev (zip ks xs))" by (simp add: zip_map2 rev_map split_def)
  then show ?thesis by (simp add: map_of_map)
qed

lemma insert_planned:
  assumes "analyzeInsert t cols vals cat = Inr rs" "gm_get cat t = Some table" "table_ok t table" "Plan rs = Inr plan"
    and ex: "list_all (exact \<circ> lit_of) vals"
  obtains row where "plan = InsertPlan (RowKey t (insert_key table cols vals)) row table" "row_ok row \<and> row_typed table row"
    "map_option stored \<circ> gm_get row = insert_row table cols vals" "list_all is_lit vals"
proof -
  let ?tv = "\<lambda>(e, col). \<lparr>teExpr = e, teCType = cdType col\<rparr>"
  obtain cs where rs: "rs = ResolvedInsert table cs (map ?tv (zip vals cs))" and len: "length vals = length cs"
      and sub: "set cs \<subseteq> set (tdColumns table)" and names: "map cdName cs = insert_names table cols"
      and ty: "list_all (\<lambda>(e, col). expr_type table e = Some (cdType col)) (zip vals cs)"
    using assms(1,2) by (rule insert_analyzed)
  obtain tv k row where tv: "findPKValue table cs (map ?tv (zip vals cs)) = Inr tv" and k: "evalLiteralToString tv = Inr k"
      and row: "build_row [] cs (map ?tv (zip vals cs)) = Inr row" and plan: "plan = InsertPlan (RowKey (tdName table) k) row table"
    using assms(4) rs by (auto simp: planInsert_def err_bind_Inr)
  have es: "map teExpr (map ?tv (zip vals cs)) = vals" using len by (simp add: comp_def split_def map_fst_zip)
  then have lits: "map (lit_of \<circ> teExpr) (map ?tv (zip vals cs)) = map lit_of vals" by (metis map_map)
  note b = build_row_result [OF row]
  have "list_all is_lit (map teExpr (map ?tv (zip vals cs)))" using b len by (simp only: list.pred_map length_map length_zip min.idem)
  then have lit: "list_all is_lit vals" by (simp only: es)
  have r: "row = gm_into [] (zip (map cdName cs) (map lit_of vals))" using b len lits by simp
  have "map_of (zip (map cdName cs) vals) (tdPrimaryKey table) = Some (teExpr tv)"
    using findPKValue_result [OF tv] len es map_of_zip_map [of "map cdName cs" teExpr "map ?tv (zip vals cs)"] by simp
  then have key: "k = insert_key table cols vals" using evalLiteralToString_iff [OF k] names by (simp add: insert_key_def)
  have "list_all (fits table) (zip (map cdName cs) (map lit_of vals))"
    using ty lit ex sub len literal_fits [OF assms(3)] by (simp add: list_all_length subset_iff)
  then have "row_ok row \<and> row_typed table row" unfolding row_fits r by (simp add: list_all_gm_into)
  moreover have "map_option stored \<circ> gm_get row = insert_row table cols vals"
    by (simp add: r map_of_gm_into insert_row_def names map_of_rev_zip_map comp_assoc option.map_comp fun_eq_iff comp_def)
  ultimately show ?thesis using that plan key assms(3) lit by (simp add: table_ok_def)
qed

lemma insert_key_typed:
  assumes "analyzeInsert t cols vals cat = Inr rs" "gm_get cat t = Some table" "table_ok t table"
    and e: "map_of (zip (insert_names table cols) vals) k = Some e"
  shows "assignable table (column_type_of table k) e"
proof -
  obtain cs where len: "length vals = length cs" and sub: "set cs \<subseteq> set (tdColumns table)" and names: "map cdName cs = insert_names table cols"
      and ty: "list_all (\<lambda>(e, col). expr_type table e = Some (cdType col)) (zip vals cs)"
    using insert_analyzed [OF assms(1,2)] by metis
  obtain i where i: "i < length cs" "cdName (cs ! i) = k" "vals ! i = e"
    using map_of_SomeD [OF e] len by (auto simp: set_zip simp flip: names)
  then have "expr_type table e = Some (cdType (cs ! i))" using ty len by (auto simp: list_all_length)
  moreover have "cs ! i \<in> set (tdColumns table)" using sub i(1) by auto
  ultimately show ?thesis using table_columns [OF assms(3)] i(2) by (auto simp: assignable_def)
qed

lemma where_planned:
  assumes "resolveWhere e table = Inr w" "evalLiteralToString (rwValue w) = Inr k"
  shows "k = where_key (Some e) \<and> rwOp w = ''=''"
  using assms by (auto simp: resolveWhere_iff dest!: evalLiteralToString_iff)

lemma assignments_applied:
  "apply_assignments ras (Some r) = Inr x \<Longrightarrow>
     x = Some (gm_into r (map (\<lambda>ra. (cdName (raColumn ra), lit_of (teExpr (raValue ra)))) ras)) \<and>
     list_all (is_lit \<circ> teExpr \<circ> raValue) ras"
  by (induction ras arbitrary: r) (auto simp: gm_into_def split: expr.splits)

lemma row_decoded:
  assumes "row_ok r" "row_typed table r"
  obtains r' where "DecodeRow (EncodeRow r) = Inr (Some r')" "gm_get r' = map_option stored \<circ> gm_get r" "gm_wf r'" "list_all (fits table) r'"
proof (rule that)
  show "DecodeRow (EncodeRow r) = Inr (Some (map (\<lambda>(k, v). (k, stored v)) (sort_kv r)))" using assms(1) by (rule DecodeRow_EncodeRow)
  have wf: "gm_wf r" and f: "list_all (fits table) r" using assms row_fits by blast+
  show "gm_get (map (\<lambda>(k, v). (k, stored v)) (sort_kv r)) = map_option stored \<circ> gm_get r" using wf by (simp add: map_of_map map_of_sort_kv comp_def)
  show "gm_wf (map (\<lambda>(k, v). (k, stored v)) (sort_kv r))" using gm_wf_sort_kv [OF wf] by (simp add: gm_wf_def comp_def split_def)
  show "list_all (fits table) (map (\<lambda>(k, v). (k, stored v)) (sort_kv r))" using f by (auto simp: list_all_iff stored_fits)
qed

lemma stored_stored [simp]: "stored (stored v) = stored v"
  by (cases v) auto

lemma db_tableD: "db_ok cat m \<Longrightarrow> gm_get cat t = Some table \<Longrightarrow> table_ok t table"
  by (simp add: db_ok_def)

lemma db_rowD:
  assumes "db_ok cat m" "table_ok t table" "gm_get cat t = Some table" "m (RowKey t p) = Some v"
  obtains r where "v = EncodeRow r" "row_ok r" "row_typed table r"
proof -
  have "CHR ''/'' \<notin> set t" using assms(2) by (simp add: table_ok_def ident_no_slash)
  then obtain table' r where "gm_get cat t = Some table'" "v = EncodeRow r" "row_ok r" "row_typed table' r"
    using assms(1,4) unfolding db_ok_def by blast
  then show ?thesis using that assms(3) by simp
qed

lemma RowKey_neq: "CHR ''/'' \<notin> set t \<Longrightarrow> CHR ''/'' \<notin> set t' \<Longrightarrow> (t', p') \<noteq> (t, p) \<Longrightarrow> RowKey t' p' \<noteq> RowKey t p"
  by (simp add: RowKey_inject)

lemma db_ok_put:
  assumes "db_ok cat m" "gm_get cat t = Some table" "row_ok r \<and> row_typed table r"
  shows "db_ok cat (m(RowKey t p \<mapsto> EncodeRow r))"
proof -
  have t: "CHR ''/'' \<notin> set t" using db_tableD [OF assms(1,2)] by (simp add: table_ok_def ident_no_slash)
  have "\<exists>table r. gm_get cat t' = Some table \<and> v = EncodeRow r \<and> row_ok r \<and> row_typed table r"
    if "CHR ''/'' \<notin> set t'" "(m(RowKey t p \<mapsto> EncodeRow r)) (RowKey t' p') = Some v" for t' p' v
  proof (cases "(t', p') = (t, p)")
    case True
    then show ?thesis using that(2) assms(2,3) by auto
  next
    case False
    then have "m (RowKey t' p') = Some v" using that RowKey_neq [OF t that(1)] by simp
    then show ?thesis using assms(1) that(1) by (simp add: db_ok_def)
  qed
  then show ?thesis using assms(1) unfolding db_ok_def by blast
qed

lemma db_ok_del: "db_ok cat m \<Longrightarrow> db_ok cat (m(k := None))"
  by (auto simp: db_ok_def)

lemma db_ok_create:
  assumes "db_ok cat m" "table_ok (tdName def) def" "CreateTable def cat = (cat', e)"
  shows "db_ok cat' m"
  using assms by (auto simp: CreateTable_def db_ok_def map_of_gm_put split: if_splits) (metis option.distinct(1))

lemma created_table_ok:
  assumes "stmt_wf (CreateTableStmt name cols)" "analyzeCreateTable name cols = Inr rs"
  obtains def where "rs = ResolvedCreateTable (CreateTableStmt name cols) def" "table_ok (tdName def) def"
proof -
  have ok: "columns_ok cols" using create_accepts assms(2) by blast
  then obtain c where c: "filter cdPrimaryKey cols = [c]" by (auto simp: columns_ok_def length_Suc_conv)
  have "duplicate_column [] cols = None" using ok by (simp add: duplicate_column_iff columns_ok_def)
  then show ?thesis using that assms ok c by (auto simp: analyzeCreateTable_def table_ok_def columns_ok_def)
qed

lemma table_rows_put:
  assumes "CHR ''/'' \<notin> set t" "row_ok r \<and> row_typed table r"
  shows "table_rows (m(RowKey t p \<mapsto> EncodeRow r)) = (table_rows m)((t, p) \<mapsto> map_option stored \<circ> gm_get r)"
proof (rule ext, clarify)
  fix t' p'
  obtain r' where r': "DecodeRow (EncodeRow r) = Inr (Some r')" "gm_get r' = map_option stored \<circ> gm_get r"
    using assms(2) row_decoded by blast
  show "table_rows (m(RowKey t p \<mapsto> EncodeRow r)) (t', p') = ((table_rows m)((t, p) \<mapsto> map_option stored \<circ> gm_get r)) (t', p')"
  proof (cases "(t', p') = (t, p)")
    case False
    then show ?thesis using RowKey_neq [OF assms(1) _ False] by (auto simp: table_rows_def)
  qed (use r' assms(1) in \<open>auto simp: table_rows_def\<close>)
qed

lemma table_rows_del:
  assumes "CHR ''/'' \<notin> set t"
  shows "table_rows (m(RowKey t p := None)) = (table_rows m)((t, p) := None)"
proof (rule ext, clarify)
  fix t' p'
  show "table_rows (m(RowKey t p := None)) (t', p') = ((table_rows m)((t, p) := None)) (t', p')"
  proof (cases "(t', p') = (t, p)")
    case False
    then show ?thesis using RowKey_neq [OF assms _ False] by (auto simp: table_rows_def)
  qed (simp add: table_rows_def)
qed

lemma table_rows_row:
  assumes "CHR ''/'' \<notin> set t" "m (RowKey t p) = Some (EncodeRow r)" "row_ok r" "row_typed table r"
  shows "table_rows m (t, p) = Some (map_option stored \<circ> gm_get r)"
  using assms(1,2) row_decoded [OF assms(3,4)] by (fastforce simp: table_rows_def)

lemma stored_assigned:
  "map_option stored \<circ> ((map_option stored \<circ> f) ++ map_of (rev (map (\<lambda>a. (asColumn a, lit_of (asValue a))) asgs))) =
   (map_option stored \<circ> f) ++ map_of (rev (map (\<lambda>a. (asColumn a, stored (lit_of (asValue a)))) asgs))"
proof -
  let ?l = "map (\<lambda>a. (asColumn a, lit_of (asValue a))) asgs"
  have "rev (map (\<lambda>a. (asColumn a, stored (lit_of (asValue a)))) asgs) = map (\<lambda>(k, v). (k, stored v)) (rev ?l)" by (simp add: rev_map)
  then have m: "map_of (rev (map (\<lambda>a. (asColumn a, stored (lit_of (asValue a)))) asgs)) k = map_option stored (map_of (rev ?l) k)" for k
    by (simp only: map_of_map comp_apply)
  show ?thesis
  proof
    fix k
    show "(map_option stored \<circ> ((map_option stored \<circ> f) ++ map_of (rev ?l))) k =
      ((map_option stored \<circ> f) ++ map_of (rev (map (\<lambda>a. (asColumn a, stored (lit_of (asValue a)))) asgs))) k"
      unfolding map_add_def m by (cases "map_of (rev ?l) k"; cases "f k") simp_all
  qed
qed

lemma assigned_row:
  assumes "table_ok t table" "resolve_assignments table asgs = Inr ras" "list_all (exact \<circ> lit_of \<circ> asValue) asgs"
    and "gm_wf r" "list_all (fits table) r" "apply_assignments ras (Some r) = Inr x"
  obtains r' where "x = Some r'" "row_ok r' \<and> row_typed table r'"
    "gm_get r' = gm_get r ++ map_of (rev (map (\<lambda>a. (asColumn a, lit_of (asValue a))) asgs))"
proof -
  let ?u = "map (\<lambda>ra. (cdName (raColumn ra), lit_of (teExpr (raValue ra)))) ras"
  have x: "x = Some (gm_into r ?u)" and lit: "list_all (is_lit \<circ> teExpr \<circ> raValue) ras" using assignments_applied [OF assms(6)] by auto
  have ra: "list_all2 (\<lambda>a ra. findColumn table (asColumn a) = Some (raColumn ra) \<and> expr_type table (asValue a) = Some (cdType (raColumn ra)) \<and>
       raValue ra = \<lparr>teExpr = asValue a, teCType = cdType (raColumn ra)\<rparr>) asgs ras"
    using assms(2) by (simp add: resolve_assignments_iff)
  then have u: "?u = map (\<lambda>a. (asColumn a, lit_of (asValue a))) asgs"
    by induction (auto dest: findColumn_name)
  have "fits table (cdName (raColumn (ras ! i)), lit_of (asValue (asgs ! i)))" if i: "i < length asgs" for i
  proof (rule literal_fits [OF assms(1)])
    show "raColumn (ras ! i) \<in> set (tdColumns table)" using ra i findColumn_name by (auto simp: list_all2_conv_all_nth)
  qed (use ra i lit assms(3) in \<open>auto simp: list_all2_conv_all_nth list_all_length\<close>)
  then have "list_all (fits table) ?u" using ra by (auto simp: list_all_length list_all2_conv_all_nth)
  then have "gm_wf (gm_into r ?u) \<and> list_all (fits table) (gm_into r ?u)" using assms(4,5) by (simp add: list_all_gm_into)
  then show ?thesis using that [OF x] by (simp add: row_fits map_of_gm_into u)
qed

lemma projectRow_project: "projectRow (Some r) cols = project (map cdName cols) (gm_get r)"
  by (simp add: projectRow_def project_def gm_into_def fold_map row_get_def comp_def)

lemma selected_columns:
  assumes "resolve_select table es = Inr cs"
  shows "map cdName (resolveColumns table cs) = selected table es"
proof -
  have "map cdName cols = map ref_name es" if "list_all2 (\<lambda>e col. resolveColumnExpr e table = Inr col) es cols" for es cols
    using that by induction (auto simp: resolveColumnExpr_iff dest: findColumn_name)
  then show ?thesis using assms
    by (auto simp: resolve_select_def err_bind_Inr resolveColumns_def selected_def select_columns_iff resolveColumnExpr_iff
        simp del: select_columns.simps dest!: findColumn_name split: list.splits if_splits)
qed

lemma scan_rows_project:
  assumes "CHR ''/'' \<notin> set t" "\<And>k v. (k, v) \<in> set ents \<Longrightarrow> \<exists>p r. k = RowKey t p \<and> m k = Some v \<and> v = EncodeRow r \<and> row_ok r \<and> row_typed table r"
  shows "scan_rows cols ents = Inr (map (\<lambda>p. project (map cdName cols) (the (table_rows m (t, p)))) (map (drop (Suc (length t)) \<circ> fst) ents))"
  using assms(2)
proof (induction ents)
  case (Cons x ents)
  obtain k v where x: "x = (k, v)" by fastforce
  obtain p r where r: "k = RowKey t p" "m k = Some v" "v = EncodeRow r" "row_ok r" "row_typed table r"
    using Cons.prems [of k v] unfolding x by (meson list.set_intros(1))
  obtain r1 where r1: "DecodeRow v = Inr (Some r1)" "gm_get r1 = map_option stored \<circ> gm_get r"
    using row_decoded [OF r(4,5)] r(3) by metis
  have "table_rows m (t, p) = Some (gm_get r1)" using table_rows_row [OF assms(1) _ r(4,5)] r r1(2) by (simp add: comp_def)
  moreover have "drop (Suc (length t)) k = p" using r(1) by (simp add: RowKey_def)
  moreover have "scan_rows cols ents = Inr (map (\<lambda>p. project (map cdName cols) (the (table_rows m (t, p)))) (map (drop (Suc (length t)) \<circ> fst) ents))"
    by (rule Cons.IH, rule Cons.prems, rule list.set_intros(2))
  ultimately show ?case unfolding x by (simp add: r1(1) projectRow_project)
qed simp

lemma scanned_rows:
  assumes "db_ok cat m" "gm_get cat t = Some table" "distinct (map fst ents)" "map_of ents = m |` {k. prefix (t @ ''/'') k}"
  obtains ks where "distinct ks" "set ks = {k. table_rows m (t, k) \<noteq> None}"
    "scan_rows cols ents = Inr (map (\<lambda>k. project (map cdName cols) (the (table_rows m (t, k)))) ks)"
proof
  let ?ks = "map (drop (Suc (length t)) \<circ> fst) ents"
  have ok: "table_ok t table" using assms(1,2) by (rule db_tableD)
  then have t: "CHR ''/'' \<notin> set t" by (simp add: table_ok_def ident_no_slash)
  have e: "(k, v) \<in> set ents \<longleftrightarrow> (\<exists>p. k = RowKey t p) \<and> m k = Some v" for k v
    using map_of_eq_Some_iff [OF assms(3), of k v] 
    by (cases "prefix (t @ ''/'') k") (simp_all add: assms(4) restrict_map_def flip: RowKey_prefix)
  have d: "drop (Suc (length t)) (RowKey t p) = p" for p by (simp add: RowKey_def)
  show "scan_rows cols ents = Inr (map (\<lambda>k. project (map cdName cols) (the (table_rows m (t, k)))) ?ks)"
  proof (rule scan_rows_project [OF t])
    fix k v assume "(k, v) \<in> set ents"
    then obtain p where p: "k = RowKey t p" "m (RowKey t p) = Some v" unfolding e by blast
    obtain r where "v = EncodeRow r" "row_ok r" "row_typed table r" using db_rowD [OF assms(1) ok assms(2) p(2)] .
    then show "\<exists>p r. k = RowKey t p \<and> m k = Some v \<and> v = EncodeRow r \<and> row_ok r \<and> row_typed table r" using p by blast
  qed
  have "inj_on (drop (Suc (length t))) (set (map fst ents))" 
  proof (rule inj_onI)
    fix x y assume "x \<in> set (map fst ents)" "y \<in> set (map fst ents)" and xy: "drop (Suc (length t)) x = drop (Suc (length t)) y"
    then obtain v w where "(x, v) \<in> set ents" "(y, w) \<in> set ents" by auto
    then obtain p q where "x = RowKey t p" "y = RowKey t q" unfolding e by blast
    then show "x = y" using xy d by simp
  qed
  then have "distinct (map (drop (Suc (length t))) (map fst ents))" using assms(3) by (simp only: distinct_map)
  then show "distinct ?ks" by (simp add: comp_def)
  have r: "table_rows m (t, p) \<noteq> None \<longleftrightarrow> m (RowKey t p) \<noteq> None" for p
  proof (cases "m (RowKey t p)")
    case (Some v)
    obtain r where "v = EncodeRow r" "row_ok r" "row_typed table r" using db_rowD [OF assms(1) ok assms(2) Some] .
    then show ?thesis using table_rows_row [OF t, of m p r table] Some by simp
  qed (simp add: table_rows_def)
  have "p \<in> set ?ks \<longleftrightarrow> (\<exists>v. m (RowKey t p) = Some v)" for p
  proof
    assume "p \<in> set ?ks"
    then obtain k v where "(k, v) \<in> set ents" "p = drop (Suc (length t)) k" by auto
    then obtain q where "k = RowKey t q" "m k = Some v" unfolding e by blast
    then show "\<exists>v. m (RowKey t p) = Some v" using d [of q] \<open>p = _\<close> by simp
  next
    assume "\<exists>v. m (RowKey t p) = Some v"
    then obtain v where "m (RowKey t p) = Some v" by blast
    then have "(RowKey t p, v) \<in> set ents" unfolding e by blast
    then have "(drop (Suc (length t)) \<circ> fst) (RowKey t p, v) \<in> set ?ks" by (simp only: set_map imageI)
    then show "p \<in> set ?ks" by (simp only: comp_apply fst_conv d)
  qed
  then show "set ?ks = {k. table_rows m (t, k) \<noteq> None}" using r by blast
qed

section \<open>The store behind the executor\<close>

text \<open>
  The laws of a store that is always available: \<open>abs s\<close> is the map a state stands for.  An implementation whose
  operations can fail for other reasons takes the error branches of the executor, which leave the store as the failing
  operation left it.
\<close>

locale kv_store =
  fixes kv :: "'s kv_ops" and wf :: "'s \<Rightarrow> bool" and abs :: "'s \<Rightarrow> string \<Rightarrow> string option"
  assumes get_law: "wf s \<Longrightarrow> kvGet kv k s = (case abs s k of None \<Rightarrow> Inl ErrNotFound | Some v \<Rightarrow> Inr v)"
    and put_law: "wf s \<Longrightarrow> \<exists>s'. kvPut kv k v s = (s', None) \<and> wf s' \<and> abs s' = (abs s)(k \<mapsto> v)"
    and delete_law: "wf s \<Longrightarrow> \<exists>s'. kvDelete kv k s = (s', None) \<and> wf s' \<and> abs s' = (abs s)(k := None)"
    and scan_law: "wf s \<Longrightarrow> \<exists>es. kvScan kv p s = Inr es \<and> distinct (map fst es) \<and> map_of es = abs s |` {k. prefix p k}"
begin

lemma insert_sound:
  assumes "wf s" "db_ok cat (abs s)" "gm_get cat t = Some table" "exact_stmt (InsertStmt t cols vals)"
    and "analyzeInsert t cols vals cat = Inr rs" "Plan rs = Inr plan" "Execute kv plan (cat, s) = ((cat', s'), r)"
  shows "wf s' \<and> db_ok cat' (abs s') \<and> cat' = cat \<and> r = Inr (empty_result\<lparr>rsRowsAffected := 1\<rparr>) \<and>
    table_rows (abs s') = (table_rows (abs s))((t, insert_key table cols vals) \<mapsto> insert_row table cols vals)"
proof -
  have ok: "table_ok t table" using assms(2,3) by (rule db_tableD)
  then have t: "CHR ''/'' \<notin> set t" by (simp add: table_ok_def ident_no_slash)
  obtain row where p: "plan = InsertPlan (RowKey t (insert_key table cols vals)) row table" and row: "row_ok row \<and> row_typed table row"
      and v: "map_option stored \<circ> gm_get row = insert_row table cols vals"
    using insert_planned [OF assms(5,3) ok assms(6)] assms(4) by auto
  obtain u where "kvPut kv (RowKey t (insert_key table cols vals)) (EncodeRow row) s = (u, None)" "wf u"
      "abs u = (abs s)(RowKey t (insert_key table cols vals) \<mapsto> EncodeRow row)"
    using put_law [OF assms(1)] by blast
  then show ?thesis using assms(7) p db_ok_put [OF assms(2,3) row] table_rows_put [OF t row] v
    by (auto simp: executeInsert_def)
qed

lemma delete_sound:
  assumes "wf s" "db_ok cat (abs s)" "gm_get cat t = Some table"
    and "analyzeDelete t w cat = Inr rs" "Plan rs = Inr plan" "Execute kv plan (cat, s) = ((cat', s'), r)"
  shows "wf s' \<and> db_ok cat' (abs s') \<and> cat' = cat \<and> r = Inr (empty_result\<lparr>rsRowsAffected := 1\<rparr>) \<and>
    table_rows (abs s') = (table_rows (abs s))((t, where_key w) := None)"
proof -
  have ok: "table_ok t table" using assms(2,3) by (rule db_tableD)
  then have t: "CHR ''/'' \<notin> set t" "tdName table = t" by (simp_all add: table_ok_def ident_no_slash)
  obtain e rw where e: "w = Some e" "resolveWhere e table = Inr rw" "rs = ResolvedDelete table (Some rw)"
    using assms(3,4) by (auto simp: analyzeDelete_def GetTable_def err_bind_Inr split: option.splits)
  then have p: "plan = PointDelete (RowKey t (where_key w)) table"
    using assms(5) t by (auto simp: planDelete_def err_bind_Inr dest: where_planned split: if_splits)
  obtain u where "kvDelete kv (RowKey t (where_key w)) s = (u, None)" "wf u" "abs u = (abs s)(RowKey t (where_key w) := None)"
    using delete_law [OF assms(1)] by blast
  then show ?thesis using assms(6) p db_ok_del [OF assms(2)] table_rows_del [OF t(1)] by (auto simp: executePointDelete_def)
qed

lemma update_sound:
  assumes "wf s" "db_ok cat (abs s)" "gm_get cat t = Some table" "exact_stmt (UpdateStmt t asgs w)"
    and "analyzeUpdate t asgs w cat = Inr rs" "Plan rs = Inr plan" "Execute kv plan (cat, s) = ((cat', s'), r)"
  shows "wf s' \<and> db_ok cat' (abs s') \<and> cat' = cat \<and>
    (case r of Inl e \<Rightarrow> s' = s | Inr res \<Rightarrow> table_rows (abs s') = spec_in table (UpdateStmt t asgs w) (table_rows (abs s)))"
proof -
  have ok: "table_ok t table" using assms(2,3) by (rule db_tableD)
  then have t: "CHR ''/'' \<notin> set t" "tdName table = t" by (simp_all add: table_ok_def ident_no_slash)
  let ?k = "RowKey t (where_key w)"
  obtain e rw ras where e: "w = Some e" "resolveWhere e table = Inr rw" "rs = ResolvedUpdate table ras (Some rw)"
      "resolve_assignments table asgs = Inr ras"
    using assms(3,5) by (auto simp: analyzeUpdate_def GetTable_def err_bind_Inr split: option.splits)
  then have "plan = PointUpdate ?k table ras"
    using assms(6) t by (auto simp: planUpdate_def err_bind_Inr dest: where_planned split: if_splits)
  then have x: "cat' = cat" "executePointUpdate kv ?k ras s = (s', r)" using assms(7) by (auto split: prod.splits)
  show ?thesis
  proof (cases "abs s ?k")
    case None
    then have "table_rows (abs s) (t, where_key w) = None" by (simp add: table_rows_def)
    then show ?thesis using x assms(1,2) None by (auto simp: executePointUpdate_def get_law)
  next
    case (Some v)
    then obtain r0 where r0: "v = EncodeRow r0" "row_ok r0" "row_typed table r0" using db_rowD [OF assms(2) ok assms(3)] by blast
    then have row: "table_rows (abs s) (t, where_key w) = Some (map_option stored \<circ> gm_get r0)" using table_rows_row t(1) Some by blast
    obtain r1 where r1: "DecodeRow v = Inr (Some r1)" "gm_get r1 = map_option stored \<circ> gm_get r0" "gm_wf r1" "list_all (fits table) r1"
      using row_decoded [OF r0(2,3)] r0(1) by metis
    show ?thesis
    proof (cases "apply_assignments ras (Some r1)")
      case (Inl err)
      then show ?thesis using x assms(1,2) Some r1(1) by (auto simp: executePointUpdate_def get_law)
    next
      case (Inr y)
      then obtain r2 where r2: "y = Some r2" "row_ok r2 \<and> row_typed table r2"
          "gm_get r2 = gm_get r1 ++ map_of (rev (map (\<lambda>a. (asColumn a, lit_of (asValue a))) asgs))"
        using assigned_row [OF ok e(4) _ r1(3,4)] assms(4) by auto
      obtain u where u: "kvPut kv ?k (EncodeRow r2) s = (u, None)" "wf u" "abs u = (abs s)(?k \<mapsto> EncodeRow r2)"
        using put_law [OF assms(1)] by blast
      have "map_option stored \<circ> gm_get r2 = (map_option stored \<circ> gm_get r0) ++ map_of (rev (map (\<lambda>a. (asColumn a, stored (lit_of (asValue a)))) asgs))"
        unfolding r2(3) r1(2) by (rule stored_assigned)
      then show ?thesis
        using x u assms(1) Some Inr r1(1) r2(1) row db_ok_put [OF assms(2,3) r2(2)] table_rows_put [OF t(1) r2(2)]
        by (auto simp: executePointUpdate_def get_law)
    qed
  qed
qed

lemma point_sound:
  assumes "wf s" "db_ok cat (abs s)" "gm_get cat t = Some table"
    and "analyzeSelect es t (Some e) cat = Inr rs" "Plan rs = Inr plan" "Execute kv plan (cat, s) = (st', r)"
  shows "st' = (cat, s) \<and> r = Inr \<lparr>rsColumns = selected table es,
    rsRows = (case table_rows (abs s) (t, where_key (Some e)) of None \<Rightarrow> [] | Some f \<Rightarrow> [project (selected table es) f]), rsRowsAffected = 0\<rparr>"
proof -
  have ok: "table_ok t table" using assms(2,3) by (rule db_tableD)
  then have t: "CHR ''/'' \<notin> set t" "tdName table = t" by (simp_all add: table_ok_def ident_no_slash)
  let ?k = "RowKey t (where_key (Some e))"
  obtain rw cs where rw: "resolveWhere e table = Inr rw" "rs = ResolvedSelect table cs (Some rw)" "resolve_select table es = Inr cs"
    using assms(3,4) by (auto simp: analyzeSelect_def GetTable_def err_bind_Inr)
  obtain k where k: "evalLiteralToString (rwValue rw) = Inr k" using assms(5) rw resolveWhere_iff
    by (auto simp: planSelect_def err_bind_Inr split: if_splits)
  then have p: "plan = PointGet ?k table cs" using assms(5) rw t where_planned [OF rw(1) k] by (simp add: planSelect_def)
  note c = selected_columns [OF rw(3)]
  show ?thesis
  proof (cases "abs s ?k")
    case None
    then have "table_rows (abs s) (t, where_key (Some e)) = None" by (simp add: table_rows_def)
    then show ?thesis using assms(6) p None c get_law [OF assms(1)]
      by (auto simp: executePointGet_def columnNames_def columnNamesFromDefs_def empty_result_def)
  next
    case (Some v)
    then obtain r0 where r0: "v = EncodeRow r0" "row_ok r0" "row_typed table r0" using db_rowD [OF assms(2) ok assms(3)] by blast
    then have row: "table_rows (abs s) (t, where_key (Some e)) = Some (map_option stored \<circ> gm_get r0)" using table_rows_row t(1) Some by blast
    obtain r1 where "DecodeRow v = Inr (Some r1)" "gm_get r1 = map_option stored \<circ> gm_get r0"
      using row_decoded [OF r0(2,3)] r0(1) by metis
    then show ?thesis using assms(6) p Some c row get_law [OF assms(1)]
      by (auto simp: executePointGet_def Let_def columnNamesFromDefs_def empty_result_def projectRow_project comp_def)
  qed
qed

lemma scan_sound:
  assumes "wf s" "db_ok cat (abs s)" "gm_get cat t = Some table"
    and "analyzeSelect es t None cat = Inr rs" "Plan rs = Inr plan" "Execute kv plan (cat, s) = (st', r)"
  shows "st' = (cat, s) \<and> (\<exists>ks. distinct ks \<and> set ks = {k. table_rows (abs s) (t, k) \<noteq> None} \<and>
    r = Inr \<lparr>rsColumns = selected table es, rsRows = map (\<lambda>k. project (selected table es) (the (table_rows (abs s) (t, k)))) ks, rsRowsAffected = 0\<rparr>)"
proof -
  have ok: "table_ok t table" using assms(2,3) by (rule db_tableD)
  then have t: "CHR ''/'' \<notin> set t" "tdName table = t" by (simp_all add: table_ok_def ident_no_slash)
  obtain cs where rs: "rs = ResolvedSelect table cs None" "resolve_select table es = Inr cs"
    using assms(3,4) by (auto simp: analyzeSelect_def GetTable_def err_bind_Inr)
  then have p: "plan = TableScan (t @ ''/'') table cs" using assms(5) t by (simp add: planSelect_def)
  obtain ents where en: "kvScan kv (t @ ''/'') s = Inr ents" "distinct (map fst ents)" "map_of ents = abs s |` {k. prefix (t @ ''/'') k}"
    using scan_law [OF assms(1)] by blast
  obtain ks where ks: "distinct ks" "set ks = {k. table_rows (abs s) (t, k) \<noteq> None}"
      "scan_rows (resolveColumns table cs) ents = Inr (map (\<lambda>k. project (selected table es) (the (table_rows (abs s) (t, k)))) ks)"
    using scanned_rows [OF assms(2,3) en(2,3)] selected_columns [OF rs(2)] by metis
  then show ?thesis using assms(6) p en(1) selected_columns [OF rs(2)]
    by (auto simp: executeTableScan_def Let_def columnNamesFromDefs_def empty_result_def)
qed

lemma create_sound:
  assumes "db_ok cat (abs s)" "stmt_wf (CreateTableStmt name cols)"
    and "analyzeCreateTable name cols = Inr rs" "Plan rs = Inr plan" "Execute kv plan (cat, s) = ((cat', s'), r)"
  shows "s' = s \<and> db_ok cat' (abs s) \<and> (case r of Inl e \<Rightarrow> cat' = cat | Inr res \<Rightarrow> True)"
proof -
  obtain def where d: "rs = ResolvedCreateTable (CreateTableStmt name cols) def" "table_ok (tdName def) def"
    using assms(2,3) by (rule created_table_ok)
  obtain c e where c: "CreateTable def cat = (c, e)" by fastforce
  then have "cat' = c \<and> s' = s \<and> r = (case e of None \<Rightarrow> Inr empty_result | Some x \<Rightarrow> Inl (ExecCatalog x))"
    using assms(4,5) d(1) by (cases e) (auto simp: executeCreateTable_def)
  moreover have "db_ok c (abs s)" by (rule db_ok_create [OF assms(1) d(2) c])
  moreover have "c = cat" if "e \<noteq> None" using c that by (auto simp: CreateTable_def split: if_splits)
  ultimately show ?thesis by (cases e) simp_all
qed

lemma run_sound:
  assumes "wf s" "db_ok cat (abs s)" "stmt_wf stmt" "exact_stmt stmt" "run_stmt kv stmt (cat, s) = ((cat', s'), r)"
  shows "wf s' \<and> db_ok cat' (abs s') \<and>
    (case r of Inl e \<Rightarrow> cat' = cat \<and> s' = s | Inr res \<Rightarrow> table_rows (abs s') = spec_stmt cat stmt (table_rows (abs s)))"
proof (cases "\<exists>rs plan. Analyze stmt cat = Inr rs \<and> Plan rs = Inr plan")
  case False
  then have "(cat', s') = (cat, s) \<and> (\<exists>e. r = Inl e)" using assms(5) by (auto simp: run_stmt_def split: sum.splits)
  then show ?thesis using assms(1,2) by auto
next
  case True
  then obtain rs plan q where rs: "Analyze stmt cat = Inr rs" and plan: "Plan rs = Inr plan"
      and x: "Execute kv plan (cat, s) = ((cat', s'), q)" and r: "r = map_sum SqlExec id q"
    using assms(5) by (fastforce simp: run_stmt_def split: prod.splits)
  show ?thesis
  proof (cases stmt)
    case (CreateTableStmt name cols)
    then have "s' = s \<and> db_ok cat' (abs s) \<and> (case q of Inl e \<Rightarrow> cat' = cat | Inr res \<Rightarrow> True)"
      using create_sound [OF assms(2) _ _ plan x, of name cols] rs assms(3) by simp
    then show ?thesis using assms(1,2) r CreateTableStmt by (cases q) (auto simp: spec_stmt_def split: option.splits)
  next
    case (InsertStmt t cols vals)
    then obtain table where table: "gm_get cat t = Some table" using rs by (auto simp: analyzeInsert_def GetTable_def split: option.splits)
    show ?thesis using insert_sound [OF assms(1,2) table _ _ plan x, of cols vals] rs assms(4) InsertStmt table r by (auto simp: spec_stmt_def)
  next
    case (SelectStmt es t w)
    then obtain table where table: "gm_get cat t = Some table" using rs by (auto simp: analyzeSelect_def GetTable_def split: option.splits)
    have "cat' = cat \<and> s' = s \<and> (\<exists>res. q = Inr res)"
    proof (cases w)
      case None
      then show ?thesis using scan_sound [OF assms(1,2) table _ plan x, of es] rs SelectStmt by auto
    next
      case (Some e)
      then show ?thesis using point_sound [OF assms(1,2) table _ plan x, of es e] rs SelectStmt by simp
    qed
    then show ?thesis using assms(1,2) SelectStmt r by (auto simp: spec_stmt_def split: option.splits)
  next
    case (UpdateStmt t asgs w)
    then obtain table where table: "gm_get cat t = Some table" using rs by (auto simp: analyzeUpdate_def GetTable_def split: option.splits)
    show ?thesis using update_sound [OF assms(1,2) table _ _ plan x, of asgs w] rs assms(4) UpdateStmt table r
      by (cases q) (auto simp add: spec_stmt_def simp del: spec_in.simps)
  next
    case (DeleteStmt t w)
    then obtain table where table: "gm_get cat t = Some table" using rs by (auto simp: analyzeDelete_def GetTable_def split: option.splits)
    show ?thesis using delete_sound [OF assms(1,2) table _ plan x, of w] rs DeleteStmt table r by (auto simp: spec_stmt_def)
  qed
qed

lemma script_sound:
  assumes "wf s" "db_ok cat (abs s)" "list_all exact_sql sqls" "run_script kv sqls (cat, s) = (cat', s')"
  shows "wf s' \<and> db_ok cat' (abs s')"
  using assms
proof (induction sqls arbitrary: cat s)
  case (Cons sql sqls)
  show ?case
  proof (cases "Parse sql")
    case (Inl e)
    then show ?thesis using Cons by simp
  next
    case (Inr stmt)
    obtain c u r where u: "run_stmt kv stmt (cat, s) = ((c, u), r)" by (metis surj_pair)
    have "stmt_wf stmt" using Inr by (rule Parse_wf)
    moreover have "exact_stmt stmt" using Cons.prems(3) Inr by (simp add: exact_sql_def)
    ultimately have "wf u \<and> db_ok c (abs u)" using run_sound [OF Cons.prems(1,2) _ _ u] by blast
    then show ?thesis using Cons.IH [of u c] Cons.prems(3,4) Inr u by simp
  qed
qed simp

lemma error_keeps_state:
  assumes "wf s" "run_stmt kv stmt (cat, s) = (st', Inl e)"
  shows "st' = (cat, s)"
proof -
  have "map_sum SqlExec id q = Inl e \<longleftrightarrow> (\<exists>x. q = Inl x \<and> e = SqlExec x)" for q :: "exec_error + result_set" by (cases q) auto
  then have "st' = (cat, s) \<or> (\<exists>plan x. Execute kv plan (cat, s) = (st', Inl x))"
    using assms(2) by (auto simp: run_stmt_def split: sum.splits prod.splits)
  moreover have "st' = (cat, s)" if x: "Execute kv plan (cat, s) = (st', Inl x)" for x plan
  proof (cases plan)
    case (PointDelete k table)
    then show ?thesis using x delete_law [OF assms(1), of k] by (auto simp: executePointDelete_def)
  next
    case (PointUpdate k table asgs)
    then show ?thesis using x put_law [OF assms(1), of k]
      by (auto simp: executePointUpdate_def split: sum.splits prod.splits kv_error.splits option.splits) (metis option.distinct(1) prod.inject)+
  next
    case (CreateTablePlan def)
    then show ?thesis using x by (auto simp: executeCreateTable_def CreateTable_def split: if_splits)
  next
    case (InsertPlan k row table)
    then show ?thesis using x put_law [OF assms(1), of k "EncodeRow row"] by (auto simp: executeInsert_def)
  qed (use x in auto)
  ultimately show ?thesis by blast
qed

lemma select_by_key_runs:
  assumes "wf s" "db_ok cat (abs s)" "gm_get cat t = Some table" "stmt_typed_in table (SelectStmt es t (Some w))"
    and "w = BinaryExpr l op e" "is_lit e"
  shows "run_stmt kv (SelectStmt es t (Some w)) (cat, s) = ((cat, s), Inr \<lparr>rsColumns = selected table es,
    rsRows = (case table_rows (abs s) (t, pk_text (lit_of e)) of None \<Rightarrow> [] | Some f \<Rightarrow> [project (selected table es) f]), rsRowsAffected = 0\<rparr>)"
proof -
  obtain rs where rs: "analyzeSelect es t (Some w) cat = Inr rs"
    using assms(3,4) Analyze_iff [of "SelectStmt es t (Some w)" cat] by (auto simp: stmt_typed_def)
  then obtain rw cs where rw: "resolveWhere w table = Inr rw" "rs = ResolvedSelect table cs (Some rw)"
    using assms(3) by (auto simp: analyzeSelect_def GetTable_def err_bind_Inr)
  have "where_typed table w" using assms(4) by simp
  then have e: "teExpr (rwValue rw) = e" "rwOp rw = ''=''" "\<exists>ty. expr_type table e = Some ty"
    using rw(1) assms(5) by (auto simp: resolveWhere_iff assignable_def)
  obtain v where v: "e = Literal v" using assms(6) by (cases e) auto
  then have "\<exists>k. evalLiteralToString (rwValue rw) = Inr k" using e by (cases v) (auto simp: evalLiteralToString_def)
  then obtain plan where plan: "Plan rs = Inr plan" using rw(2) e(2) by (auto simp: planSelect_def)
  obtain st q where x: "Execute kv plan (cat, s) = (st, q)" by fastforce
  show ?thesis using point_sound [OF assms(1-3) rs plan x] rs plan x assms(5) by (simp add: run_stmt_def)
qed

lemma inserted_row_selected:
  assumes "wf s" "db_ok cat (abs s)" "gm_get cat t = Some table" "exact_stmt (InsertStmt t cols vals)"
    and e: "map_of (zip (insert_names table cols) vals) (tdPrimaryKey table) = Some e"
    and run: "run_stmt kv (InsertStmt t cols vals) (cat, s) = ((cat', s'), Inr res)"
  shows "run_stmt kv (SelectStmt [StarExpr] t (Some (BinaryExpr (ColumnRef (tdPrimaryKey table)) ''='' e))) (cat', s') =
    ((cat', s'), Inr \<lparr>rsColumns = map cdName (tdColumns table),
       rsRows = [project (map cdName (tdColumns table)) (insert_row table cols vals)], rsRowsAffected = 0\<rparr>)"
proof -
  have ok: "table_ok t table" using assms(2,3) by (rule db_tableD)
  obtain rs plan q where rs: "analyzeInsert t cols vals cat = Inr rs" and plan: "Plan rs = Inr plan" and x: "Execute kv plan (cat, s) = ((cat', s'), q)"
    using run by (auto simp: run_stmt_def split: sum.splits prod.splits)
  have i: "wf s'" "db_ok cat (abs s')" "cat' = cat"
      "table_rows (abs s') = (table_rows (abs s))((t, insert_key table cols vals) \<mapsto> insert_row table cols vals)"
    using insert_sound [OF assms(1-4) rs plan x] by auto
  have "list_all (exact \<circ> lit_of) vals" using assms(4) by simp
  then have "list_all is_lit vals" using insert_planned [OF rs assms(3) ok plan] by blast
  then have lit: "is_lit e" using e by (auto simp: list_all_iff dest!: map_of_SomeD set_zip_rightD)
  have "assignable table (column_type_of table (tdPrimaryKey table)) e" by (rule insert_key_typed [OF rs assms(3) ok e])
  then have "stmt_typed_in table (SelectStmt [StarExpr] t (Some (BinaryExpr (ColumnRef (tdPrimaryKey table)) ''='' e)))" by simp
  from select_by_key_runs [OF i(1,2) assms(3) this refl lit] show ?thesis
    using i(3,4) e by (simp add: selected_def insert_key_def)
qed

end

section \<open>SQL over the in-memory store\<close>

text \<open>The in-memory store as a \<^verbatim>\<open>KV\<close>: a scan yields the entries of a snapshot whose key has the prefix.\<close>

definition mem_kv :: "store kv_ops" where
  "mem_kv = \<lparr>kvGet = (\<lambda>k st. case mem_Get st k of (v, ok) \<Rightarrow> if ok then Inr v else Inl ErrNotFound),
     kvPut = (\<lambda>k v st. (mem_Put st k v, None)), kvDelete = (\<lambda>k st. (mem_Delete st k, None)),
     kvScan = (\<lambda>p st. Inr (filter (\<lambda>(k, v). prefix p k) (mem_Snapshot st)))\<rparr>"

lemma map_of_filter_key: "map_of (filter (\<lambda>(k, v). P k) m) = map_of m |` {k. P k}"
  by (induction m) (auto simp: restrict_map_def fun_eq_iff)

interpretation sq: kv_store mem_kv mem_wf mem_abs
proof unfold_locales
  fix s k v p assume "mem_wf s"
  show "kvGet mem_kv k s = (case mem_abs s k of None \<Rightarrow> Inl ErrNotFound | Some v \<Rightarrow> Inr v)"
    by (simp add: mem_kv_def st.get split: option.splits)
  show "\<exists>s'. kvPut mem_kv k v s = (s', None) \<and> mem_wf s' \<and> mem_abs s' = (mem_abs s)(k \<mapsto> v)"
    using st.put [OF \<open>mem_wf s\<close>] by (simp add: mem_kv_def)
  show "\<exists>s'. kvDelete mem_kv k s = (s', None) \<and> mem_wf s' \<and> mem_abs s' = (mem_abs s)(k := None)"
    using st.delete [OF \<open>mem_wf s\<close>] by (simp add: mem_kv_def)
  have "gm_wf (mem_Snapshot s)" "map_of (mem_Snapshot s) = mem_abs s" using st.snapshot [OF \<open>mem_wf s\<close>] by auto
  then show "\<exists>es. kvScan mem_kv p s = Inr es \<and> distinct (map fst es) \<and> map_of es = mem_abs s |` {k. prefix p k}"
    by (simp add: mem_kv_def map_of_filter_key gm_wf_def distinct_map_filter)
qed

lemma db_ok_empty: "db_ok NewInMemoryCatalog (mem_abs mem_New)"
  using st.new by (simp add: db_ok_def NewInMemoryCatalog_def)

definition demo_cat :: catalog where
  "demo_cat = [(''t'', demo_table)]"

definition demo_insert :: statement where
  "demo_insert = InsertStmt ''t'' [] [Literal (AnyInt 1), Literal (AnyString ''a'')]"

definition demo_store :: store where
  "demo_store = snd (fst (run_stmt mem_kv demo_insert (demo_cat, mem_New)))"

lemma demo_run: "run_stmt mem_kv demo_insert (demo_cat, mem_New) = ((demo_cat, demo_store), Inr \<lparr>rsColumns = [], rsRows = [], rsRowsAffected = 1\<rparr>)"
  unfolding demo_store_def by code_simp

lemma demo_db: "mem_wf mem_New" "db_ok demo_cat (mem_abs mem_New)" "gm_get demo_cat ''t'' = Some demo_table"
proof -
  have "table_ok ''t'' demo_table" by code_simp
  then show "db_ok demo_cat (mem_abs mem_New)" using st.new by (simp add: db_ok_def demo_cat_def)
qed (use st.new in \<open>simp_all add: demo_cat_def\<close>)

lemma demo_exact: "exact_stmt demo_insert"
  by code_simp

lemma demo_store_db: "mem_wf demo_store" "db_ok demo_cat (mem_abs demo_store)"
proof -
  have "stmt_wf demo_insert" by code_simp
  from sq.run_sound [OF demo_db(1,2) this demo_exact demo_run] show "mem_wf demo_store" "db_ok demo_cat (mem_abs demo_store)" by auto
qed







text \<open>
  Property C16.  A row that an INSERT has stored is found by its primary key: a SELECT of all columns returns one row, with each
  column that the INSERT named holding its value, integers read back as floating-point numbers, and the others NULL.
\<close>

theorem insert_then_select:
  assumes "mem_wf s" and "db_ok cat (mem_abs s)" and "gm_get cat t = Some table" and "exact_stmt (InsertStmt t cols vals)"
    and "map_of (zip (insert_names table cols) vals) (tdPrimaryKey table) = Some e"
    and "run_stmt mem_kv (InsertStmt t cols vals) (cat, s) = ((cat', s'), Inr res)"
  shows "run_stmt mem_kv (SelectStmt [StarExpr] t (Some (BinaryExpr (ColumnRef (tdPrimaryKey table)) ''='' e))) (cat', s') =
    ((cat', s'), Inr \<lparr>rsColumns = map cdName (tdColumns table),
       rsRows = [project (map cdName (tdColumns table)) (insert_row table cols vals)], rsRowsAffected = 0\<rparr>)"
  by (rule sq.inserted_row_selected [OF assms])

theorem insert_then_select_witness:
  "run_stmt mem_kv (SelectStmt [StarExpr] ''t'' (Some (BinaryExpr (ColumnRef ''id'') ''='' (Literal (AnyInt 1))))) (demo_cat, demo_store) =
    ((demo_cat, demo_store), Inr \<lparr>rsColumns = [''id'', ''name''], rsRows = [[(''id'', AnyFloat ''1''), (''name'', AnyString ''a'')]], rsRowsAffected = 0\<rparr>)"
proof -
  let ?v = "[Literal (AnyInt 1), Literal (AnyString ''a'')]"
  have e: "map_of (zip (insert_names demo_table []) ?v) (tdPrimaryKey demo_table) = Some (Literal (AnyInt 1))" by code_simp
  have c: "map cdName (tdColumns demo_table) = [''id'', ''name'']" "tdPrimaryKey demo_table = ''id''" by (simp_all add: demo_table_def)
  have "project [''id'', ''name''] (insert_row demo_table [] ?v) = [(''id'', AnyFloat ''1''), (''name'', AnyString ''a'')]" by code_simp
  then show ?thesis
    using insert_then_select [OF demo_db demo_exact [unfolded demo_insert_def] e demo_run [unfolded demo_insert_def]] c by simp
qed

text \<open>
  Property C28.  A SELECT without WHERE returns every row of its table exactly once, in the columns it names.
\<close>

theorem select_all_rows:
  assumes "mem_wf s" and "db_ok cat (mem_abs s)" and "gm_get cat t = Some table"
    and "run_stmt mem_kv (SelectStmt es t None) (cat, s) = (st', Inr res)"
  shows "\<exists>ks. distinct ks \<and> set ks = {k. table_rows (mem_abs s) (t, k) \<noteq> None} \<and> rsColumns res = selected table es \<and>
    rsRows res = map (\<lambda>k. project (selected table es) (the (table_rows (mem_abs s) (t, k)))) ks"
proof -
  have m: "map_sum SqlExec id q = Inr res \<longleftrightarrow> q = Inr res" for q :: "exec_error + result_set" by (cases q) auto
  obtain rs plan where "analyzeSelect es t None cat = Inr rs" "Plan rs = Inr plan" "Execute mem_kv plan (cat, s) = (st', Inr res)"
    using assms(4) by (auto simp: run_stmt_def m split: sum.splits prod.splits)
  from sq.scan_sound [OF assms(1-3) this] show ?thesis by auto
qed

theorem select_all_rows_witness:
  "\<exists>res ks. run_stmt mem_kv (SelectStmt [ColumnRef ''id''] ''t'' None) (demo_cat, demo_store) = ((demo_cat, demo_store), Inr res) \<and>
     rsRows res = [[(''id'', AnyFloat ''1'')]] \<and> set ks = {k. table_rows (mem_abs demo_store) (''t'', k) \<noteq> None} \<and> length ks = 1"
proof -
  let ?res = "\<lparr>rsColumns = [''id''], rsRows = [[(''id'', AnyFloat ''1'')]], rsRowsAffected = 0\<rparr>"
  have r: "run_stmt mem_kv (SelectStmt [ColumnRef ''id''] ''t'' None) (demo_cat, demo_store) = ((demo_cat, demo_store), Inr ?res)" by code_simp
  obtain ks where ks: "set ks = {k. table_rows (mem_abs demo_store) (''t'', k) \<noteq> None}" "rsRows ?res = map (\<lambda>k. project (selected demo_table [ColumnRef ''id''])
      (the (table_rows (mem_abs demo_store) (''t'', k)))) ks"
    using select_all_rows [OF demo_store_db demo_db(3) r] by blast
  have "length (rsRows ?res) = length ks" unfolding ks(2) by (simp only: length_map)
  then have "length ks = 1" by simp
  then show ?thesis using r ks(1) by (intro exI [of _ ?res] exI [of _ ks]) simp
qed

definition moved_key_script :: "string list" where
  "moved_key_script = [''CREATE TABLE t (id INT PRIMARY KEY)'', ''INSERT INTO t VALUES (1)'', ''UPDATE t SET id = 2 WHERE id = 1'']"

definition query_rows :: "string \<Rightarrow> catalog \<times> store \<Rightarrow> row list" where
  "query_rows sql st = (case Parse sql of Inl e \<Rightarrow> [] | Inr stmt \<Rightarrow> (case snd (run_stmt mem_kv stmt st) of Inl e \<Rightarrow> [] | Inr res \<Rightarrow> rsRows res))"


text \<open>An INSERT that names a column twice takes the key from its first value and the row from its last.\<close>

lemma duplicate_insert_column:
  "query_rows ''SELECT * FROM t WHERE id = 1'' (run_script mem_kv [''CREATE TABLE t (id INT PRIMARY KEY)'', ''INSERT INTO t (id, id) VALUES (1, 2)'']
     (NewInMemoryCatalog, mem_New)) = [[(''id'', AnyFloat ''2'')]]"
  by code_simp

end
